(* ===== verification/WT_Prelude.thy ===== *)
theory WT_Prelude
  imports Main
begin

text \<open>
  Shared vocabulary of the development: the JavaScript string order, the rows-in-a-table
  combinators used to model the five database tables, and the list lemmas on them that every
  component proof needs. Collections: \<open>svc_simps\<close> unfolds the service monad, \<open>table_simps\<close>
  rewrites table updates.
\<close>

named_theorems svc_simps
named_theorems table_simps
named_theorems spec_rules

section \<open>JavaScript string comparison\<close>

text \<open>
  The relational operators on two strings compare code units position by position, a proper
  prefix being smaller. The strings compared in the program are ASCII, so code units are
  characters.
\<close>

fun str_less :: "string \<Rightarrow> string \<Rightarrow> bool" where
  "str_less _ [] = False"
| "str_less [] (_ # _) = True"
| "str_less (a # as) (b # bs) =
     (if a = b then str_less as bs else (of_char a :: nat) < of_char b)"

definition str_le :: "string \<Rightarrow> string \<Rightarrow> bool" where
  "str_le a b = (\<not> str_less b a)"

lemma of_char_nat_eq: "(of_char a :: nat) = of_char b \<longleftrightarrow> a = b"
  by (rule of_char_eq_iff)

lemma str_less_irrefl [simp]: "\<not> str_less a a"
  by (induction a) auto

lemma str_less_trans: "str_less a b \<Longrightarrow> str_less b c \<Longrightarrow> str_less a c"
proof (induction a b arbitrary: c rule: str_less.induct)
  case (3 a as b bs)
  then show ?case by (cases c) (auto split: if_splits)
next
  case (2 a as)
  then show ?case by (cases c) auto
qed simp

lemma str_less_linear: "str_less a b \<or> a = b \<or> str_less b a"
proof (induction a b rule: str_less.induct)
  case (1 a)
  then show ?case by (cases a) auto
next
  case (3 a as b bs)
  have "a \<noteq> b \<Longrightarrow> (of_char a :: nat) < of_char b \<or> (of_char b :: nat) < of_char a"
    using of_char_nat_eq[of a b] by arith
  with 3 show ?case by auto
qed simp

lemma str_less_asym: "str_less a b \<Longrightarrow> \<not> str_less b a"
  using str_less_trans str_less_irrefl by blast

lemma str_le_refl [simp]: "str_le a a"
  by (simp add: str_le_def)

lemma str_le_less: "str_le a b \<longleftrightarrow> str_less a b \<or> a = b"
  using str_less_linear str_less_asym by (auto simp: str_le_def)

lemma str_le_trans: "str_le a b \<Longrightarrow> str_le b c \<Longrightarrow> str_le a c"
  using str_less_trans by (auto simp: str_le_less)

lemma str_less_append [simp]: "str_less (p @ a) (p @ b) = str_less a b"
  by (induction p) auto

section \<open>Tables as lists of rows\<close>

text \<open>An UPDATE: every row that satisfies the WHERE clause is replaced.\<close>

definition update_where :: "('a \<Rightarrow> bool) \<Rightarrow> ('a \<Rightarrow> 'a) \<Rightarrow> 'a list \<Rightarrow> 'a list" where
  "update_where p f rows = map (\<lambda>x. if p x then f x else x) rows"

text \<open>A save by primary key: the row with the same key is replaced, else the row is appended.\<close>

definition upsert_by :: "('a \<Rightarrow> 'k) \<Rightarrow> 'a \<Rightarrow> 'a list \<Rightarrow> 'a list" where
  "upsert_by key x rows =
     (if \<exists>y \<in> set rows. key y = key x then update_where (\<lambda>y. key y = key x) (\<lambda>_. x) rows
      else rows @ [x])"

text \<open>SUM over a table, as \<open>reduce\<close> computes it.\<close>

definition sum_rows :: "('a \<Rightarrow> int) \<Rightarrow> 'a list \<Rightarrow> int" where
  "sum_rows f rows = foldl (\<lambda>acc x. acc + f x) 0 rows"

lemma foldl_add_int: "foldl (\<lambda>acc x. acc + f x) (a :: int) rows = a + sum_list (map f rows)"
  by (induction rows arbitrary: a) auto

lemma sum_rows_sum_list [table_simps]: "sum_rows f rows = sum_list (map f rows)"
  by (simp add: sum_rows_def foldl_add_int)

lemma update_where_Nil [simp]: "update_where p f [] = []"
  and update_where_Cons [simp]:
    "update_where p f (x # xs) = (if p x then f x else x) # update_where p f xs"
  by (simp_all add: update_where_def)

lemma length_update_where [simp]: "length (update_where p f xs) = length xs"
  by (simp add: update_where_def)

lemma update_where_append [simp]:
  "update_where p f (xs @ ys) = update_where p f xs @ update_where p f ys"
  by (simp add: update_where_def)

lemma in_set_update_where:
  "y \<in> set (update_where p f xs) \<longleftrightarrow> (\<exists>x \<in> set xs. y = (if p x then f x else x))"
  by (auto simp: update_where_def)

lemma update_where_none: "(\<And>x. x \<in> set xs \<Longrightarrow> \<not> p x) \<Longrightarrow> update_where p f xs = xs"
  by (induction xs) auto

lemma map_update_where_same:
  "(\<And>x. x \<in> set xs \<Longrightarrow> p x \<Longrightarrow> g (f x) = g x) \<Longrightarrow> map g (update_where p f xs) = map g xs"
  by (induction xs) auto

lemma update_by_key_absent:
  "k \<notin> key ` set xs \<Longrightarrow> update_where (\<lambda>y. key y = k) f xs = xs"
  by (rule update_where_none) auto

text \<open>Replacing the row with one key changes a sum over the table by the difference.\<close>

lemma sum_update_by_key:
  fixes g :: "'a \<Rightarrow> int"
  assumes "distinct (map key xs)" and "x \<in> set xs"
  shows "sum_list (map g (update_where (\<lambda>y. key y = key x) (\<lambda>_. x') xs))
           = sum_list (map g xs) - g x + g x'"
  using assms
proof (induction xs)
  case (Cons a xs)
  show ?case
  proof (cases "a = x")
    case True
    with Cons.prems have "key x \<notin> key ` set xs" by auto
    with True show ?thesis by (simp add: update_by_key_absent)
  next
    case False
    with Cons.prems have "x \<in> set xs" and "key a \<noteq> key x" by auto
    with Cons show ?thesis by simp
  qed
qed simp

lemma sum_list_map_nonneg:
  fixes g :: "'a \<Rightarrow> int"
  shows "(\<And>x. x \<in> set xs \<Longrightarrow> 0 \<le> g x) \<Longrightarrow> 0 \<le> sum_list (map g xs)"
  by (induction xs) auto

lemma member_le_sum_list_map:
  fixes g :: "'a \<Rightarrow> int"
  assumes "\<And>x. x \<in> set xs \<Longrightarrow> 0 \<le> g x" and "x \<in> set xs"
  shows "g x \<le> sum_list (map g xs)"
  using assms
proof (induction xs)
  case (Cons a xs)
  have nn: "0 \<le> sum_list (map g xs)"
    using Cons.prems(1) by (intro sum_list_map_nonneg) auto
  show ?case
  proof (cases "a = x")
    case True
    with nn show ?thesis by simp
  next
    case False
    with Cons have "g x \<le> sum_list (map g xs)" and "0 \<le> g a" by auto
    then show ?thesis by simp
  qed
qed simp

lemma sum_filter_eq:
  fixes g :: "'a \<Rightarrow> int"
  shows "sum_list (map g (filter p xs)) = sum_list (map (\<lambda>x. if p x then g x else 0) xs)"
  by (induction xs) auto

lemma find_Some_in: "List.find p xs = Some x \<Longrightarrow> x \<in> set xs \<and> p x"
  by (induction xs) (auto split: if_splits)

lemma find_None_all: "List.find p xs = None \<longleftrightarrow> (\<forall>x \<in> set xs. \<not> p x)"
  by (induction xs) auto

lemma find_key_eq:
  assumes "distinct (map key xs)" and "x \<in> set xs"
  shows "List.find (\<lambda>y. key y = key x) xs = Some x"
  using assms by (induction xs) auto

lemma key_unique:
  assumes "distinct (map key xs)" and "x \<in> set xs" and "y \<in> set xs" and "key x = key y"
  shows "x = y"
  using assms by (metis distinct_map inj_on_eq_iff)

lemma sum_list_cond_length:
  "(\<Sum>x\<leftarrow>xs. if P x then n else (0::int)) = int (length (filter P xs)) * n"
  by (induction xs) (simp_all add: distrib_right)

lemma sum_list_map_concat: "sum_list (map f (concat (map g xs))) = (\<Sum>x\<leftarrow>xs. sum_list (map f (g x)))"
  by (induction xs) simp_all

lemma sum_list_swap:
  fixes f :: "'a \<Rightarrow> 'b \<Rightarrow> int"
  shows "(\<Sum>x\<leftarrow>xs. \<Sum>y\<leftarrow>ys. f x y) = (\<Sum>y\<leftarrow>ys. \<Sum>x\<leftarrow>xs. f x y)"
  by (induction xs) (simp_all add: sum_list_addf)

lemma zero_or_one: "(n::nat) \<le> 1 \<Longrightarrow> (b \<longleftrightarrow> 0 < n) \<Longrightarrow> n = (if b then 1 else 0)"
  by auto

end
