(* ===== verification/Entities.thy ===== *)
theory Entities
  imports WT_Prelude
begin

text \<open>
  The domain model of \<open>src/src/entities\<close> and the wire types of
  \<open>src/src/hcm/contracts/hcm.types.ts\<close>: enums as datatypes with the source's constructors, entity
  classes as records, the five tables as one database record.

  The columns \<open>version\<close>, \<open>createdAt\<close> and \<open>updatedAt\<close> of the balance, request, log and event rows
  are written by the object-relational mapper alone and read by no code of the repository; they
  are left out. The outbox keeps \<open>createdAt\<close>, which orders the dispatcher's work.
\<close>

section \<open>Enums\<close>

datatype RequestStatus = DRAFT | PENDING | PENDING_SYNC | APPROVED | REJECTED | CANCELLED | EXPIRED

datatype OutboxOperation = FILE | REVERSE

datatype OutboxStatus = PENDING | SENT | FAILED | VOIDED

datatype ReconResolution = REPLAYED | FLAGGED_NEGATIVE | NO_CHANGE | STALE_REJECTED

definition TERMINAL_STATUSES :: "RequestStatus set" where
  "TERMINAL_STATUSES = {RequestStatus.REJECTED, RequestStatus.CANCELLED, RequestStatus.EXPIRED}"

definition ACTIVE_STATUSES :: "RequestStatus set" where
  "ACTIVE_STATUSES =
     {RequestStatus.DRAFT, RequestStatus.PENDING, RequestStatus.PENDING_SYNC, RequestStatus.APPROVED}"

text \<open>A JavaScript \<open>Date\<close>: a time value in milliseconds since the epoch, or an invalid date.\<close>

datatype js_date = Invalid_Date | Date_at int

section \<open>Entities\<close>

record balance =
  b_employeeId :: string
  b_locationId :: string
  available :: int
  reserved :: int
  needsReview :: bool
  lastHcmAsOf :: "js_date option"

record request =
  r_id :: string
  r_employeeId :: string
  r_locationId :: string
  startDate :: string
  endDate :: string
  days :: int
  status :: RequestStatus
  idempotencyKey :: string
  hcmIdempotencyKey :: string
  expiresAt :: int
  committedAt :: "int option"
  hcmAckAt :: "js_date option"

text \<open>The FILE and REVERSE payloads have the same fields.\<close>

record hcm_command =
  c_employeeId :: string
  c_locationId :: string
  c_days :: int
  c_startDate :: string
  c_endDate :: string
  c_idempotencyKey :: string

record outbox_row =
  o_id :: string
  aggregateId :: string
  operation :: OutboxOperation
  payload :: hcm_command
  o_idempotencyKey :: string
  o_status :: OutboxStatus
  attempts :: int
  o_createdAt :: int

record batch_sync_log =
  sequence :: int
  l_asOf :: js_date

record recon_event =
  e_employeeId :: string
  e_locationId :: string
  localValue :: int
  e_hcmValue :: int
  resolution :: ReconResolution

section \<open>Wire types\<close>

record hcm_balance =
  h_employeeId :: string
  h_locationId :: string
  h_balance :: int
  h_asOf :: string

record hcm_result =
  ok :: bool
  ackedAt :: "string option"
  errorHint :: "string option"

record batch_corpus =
  bc_sequence :: int
  bc_asOf :: string
  bc_balances :: "hcm_balance list"

text \<open>The other names the interface uses for them, and the one option of a balance read, \<open>retry\<close>.\<close>

type_synonym ReverseTimeOffCommand = hcm_command

type_synonym ReverseTimeOffResult = hcm_result

type_synonym HcmGetBalanceOptions = "bool option"

section \<open>The database\<close>

type_synonym balance_pk = "string \<times> string"

record database =
  balances :: "balance_pk \<Rightarrow> balance option"
  requests :: "request list"
  outbox :: "outbox_row list"
  batchSyncLog :: "batch_sync_log list"
  reconEvents :: "recon_event list"

definition empty_db :: database where
  "empty_db = \<lparr>balances = (\<lambda>_. None), requests = [], outbox = [], batchSyncLog = [],
               reconEvents = []\<rparr>"

definition pk_of :: "balance \<Rightarrow> balance_pk" where
  "pk_of b = (b_employeeId b, b_locationId b)"

definition key_of :: "request \<Rightarrow> balance_pk" where
  "key_of r = (r_employeeId r, r_locationId r)"

definition set_balance :: "balance \<Rightarrow> database \<Rightarrow> database" where
  "set_balance b d = d\<lparr>balances := (balances d)(pk_of b := Some b)\<rparr>"

definition set_request :: "request \<Rightarrow> database \<Rightarrow> database" where
  "set_request r d = d\<lparr>requests := upsert_by r_id r (requests d)\<rparr>"

definition set_outbox :: "outbox_row \<Rightarrow> database \<Rightarrow> database" where
  "set_outbox row d = d\<lparr>outbox := upsert_by o_id row (outbox d)\<rparr>"

section \<open>Lemmas\<close>

lemma terminal_not_active: "s \<in> TERMINAL_STATUSES \<longleftrightarrow> s \<notin> ACTIVE_STATUSES"
  by (cases s) (simp_all add: TERMINAL_STATUSES_def ACTIVE_STATUSES_def)

lemma active_simps [simp]:
  "RequestStatus.DRAFT \<in> ACTIVE_STATUSES" "RequestStatus.PENDING \<in> ACTIVE_STATUSES"
  "RequestStatus.PENDING_SYNC \<in> ACTIVE_STATUSES" "RequestStatus.APPROVED \<in> ACTIVE_STATUSES"
  "RequestStatus.REJECTED \<notin> ACTIVE_STATUSES" "RequestStatus.CANCELLED \<notin> ACTIVE_STATUSES"
  "RequestStatus.EXPIRED \<notin> ACTIVE_STATUSES"
  by (simp_all add: ACTIVE_STATUSES_def)

lemma terminal_simps [simp]:
  "RequestStatus.DRAFT \<notin> TERMINAL_STATUSES" "RequestStatus.PENDING \<notin> TERMINAL_STATUSES"
  "RequestStatus.PENDING_SYNC \<notin> TERMINAL_STATUSES" "RequestStatus.APPROVED \<notin> TERMINAL_STATUSES"
  "RequestStatus.REJECTED \<in> TERMINAL_STATUSES" "RequestStatus.CANCELLED \<in> TERMINAL_STATUSES"
  "RequestStatus.EXPIRED \<in> TERMINAL_STATUSES"
  by (simp_all add: TERMINAL_STATUSES_def)

lemma pk_of_upd [simp]:
  "pk_of (b\<lparr>available := a\<rparr>) = pk_of b" "pk_of (b\<lparr>reserved := r\<rparr>) = pk_of b"
  "pk_of (b\<lparr>needsReview := n\<rparr>) = pk_of b" "pk_of (b\<lparr>lastHcmAsOf := t\<rparr>) = pk_of b"
  by (simp_all add: pk_of_def)

lemma key_of_upd [simp]:
  "key_of (r\<lparr>status := s\<rparr>) = key_of r" "key_of (r\<lparr>committedAt := c\<rparr>) = key_of r"
  "key_of (r\<lparr>hcmAckAt := a\<rparr>) = key_of r" "key_of (r\<lparr>idempotencyKey := k\<rparr>) = key_of r"
  by (simp_all add: key_of_def)

lemma set_balance_simps [simp]:
  "balances (set_balance b d) = (balances d)(pk_of b := Some b)"
  "requests (set_balance b d) = requests d" "outbox (set_balance b d) = outbox d"
  "batchSyncLog (set_balance b d) = batchSyncLog d" "reconEvents (set_balance b d) = reconEvents d"
  by (simp_all add: set_balance_def)

lemma set_request_simps [simp]:
  "balances (set_request r d) = balances d"
  "requests (set_request r d) = upsert_by r_id r (requests d)" "outbox (set_request r d) = outbox d"
  "batchSyncLog (set_request r d) = batchSyncLog d" "reconEvents (set_request r d) = reconEvents d"
  by (simp_all add: set_request_def)

lemma set_outbox_simps [simp]:
  "balances (set_outbox x d) = balances d" "requests (set_outbox x d) = requests d"
  "outbox (set_outbox x d) = upsert_by o_id x (outbox d)"
  "batchSyncLog (set_outbox x d) = batchSyncLog d" "reconEvents (set_outbox x d) = reconEvents d"
  by (simp_all add: set_outbox_def)

end
