(* ===== verification/Js_Date.thy ===== *)
theory Js_Date
  imports Entities
begin

text \<open>
  The part of the ECMAScript \<open>Date\<close> object the program uses: \<open>Date.UTC\<close>, \<open>getUTCDay\<close>,
  \<open>setUTCDate\<close>, \<open>toISOString\<close> and \<open>new Date(string)\<close>, over day numbers (days since 1970-01-01)
  and millisecond time values. Civil dates form a linear order; the main facts are that the
  conversion between civil dates and day numbers is a bijection, that it is monotone, and that
  comparing two ISO date strings as strings compares the dates.
\<close>

section \<open>Civil dates and day numbers\<close>

datatype civil = Civil (c_year: int) (c_month: int) (c_day: int)

definition leap :: "int \<Rightarrow> bool" where
  "leap y = (y mod 4 = 0 \<and> (y mod 100 \<noteq> 0 \<or> y mod 400 = 0))"

definition month_length :: "int \<Rightarrow> int \<Rightarrow> int" where
  "month_length y m =
     (if m = 2 then (if leap y then 29 else 28)
      else if m = 4 \<or> m = 6 \<or> m = 9 \<or> m = 11 then 30 else 31)"

definition civil_valid :: "civil \<Rightarrow> bool" where
  "civil_valid c = (1 \<le> c_month c \<and> c_month c \<le> 12 \<and> 1 \<le> c_day c
                    \<and> c_day c \<le> month_length (c_year c) (c_month c))"

text \<open>ECMAScript \<open>DayFromYear\<close>: the day number of January 1.\<close>

definition day_from_year :: "int \<Rightarrow> int" where
  "day_from_year y =
     365 * (y - 1970) + (y - 1969) div 4 - (y - 1901) div 100 + (y - 1601) div 400"

text \<open>Days of the year before month \<open>m\<close>, months counted from 0 as \<open>Date.UTC\<close> does.\<close>

definition days_before_month :: "int \<Rightarrow> int \<Rightarrow> int" where
  "days_before_month y m =
     (if m = 0 then 0 else if m = 1 then 31
      else (if leap y then 1 else 0) +
       (if m = 2 then 59 else if m = 3 then 90 else if m = 4 then 120 else if m = 5 then 151
        else if m = 6 then 181 else if m = 7 then 212 else if m = 8 then 243
        else if m = 9 then 273 else if m = 10 then 304 else 334))"

definition make_day :: "int \<Rightarrow> int \<Rightarrow> int \<Rightarrow> int" where
  "make_day y m d =
     (let ym = y + m div 12; mn = m mod 12
      in day_from_year ym + days_before_month ym mn + d - 1)"

definition day_of_civil :: "civil \<Rightarrow> int" where
  "day_of_civil c = make_day (c_year c) (c_month c - 1) (c_day c)"

definition year_from_day :: "int \<Rightarrow> int" where
  "year_from_day d =
     (let y = 1970 + (400 * d) div 146097
      in if d < day_from_year y then y - 1
         else if day_from_year (y + 1) \<le> d then y + 1 else y)"

definition month_from_doy :: "bool \<Rightarrow> int \<Rightarrow> int" where
  "month_from_doy lp n =
     (let k = (if lp then 1 else 0)
      in if n < 31 then 1 else if n < 59 + k then 2 else if n < 90 + k then 3
         else if n < 120 + k then 4 else if n < 151 + k then 5 else if n < 181 + k then 6
         else if n < 212 + k then 7 else if n < 243 + k then 8 else if n < 273 + k then 9
         else if n < 304 + k then 10 else if n < 334 + k then 11 else 12)"

definition civil_of_day :: "int \<Rightarrow> civil" where
  "civil_of_day d =
     (let y = year_from_day d; n = d - day_from_year y; m = month_from_doy (leap y) n
      in Civil y m (n - days_before_month y (m - 1) + 1))"

text \<open>\<open>getUTCDay\<close>: 0 is Sunday, 6 is Saturday; day 0 was a Thursday.\<close>

definition getUTCDay :: "int \<Rightarrow> int" where
  "getUTCDay d = (d + 4) mod 7"

instantiation civil :: linorder
begin

definition less_civil :: "civil \<Rightarrow> civil \<Rightarrow> bool" where
  "less_civil a b =
     (c_year a < c_year b
      \<or> c_year a = c_year b \<and> (c_month a < c_month b
      \<or> c_month a = c_month b \<and> c_day a < c_day b))"

definition less_eq_civil :: "civil \<Rightarrow> civil \<Rightarrow> bool" where
  "less_eq_civil a b = (a < b \<or> a = (b :: civil))"

instance
proof
  fix a b c :: civil
  show "(a < b) = (a \<le> b \<and> \<not> b \<le> a)"
    by (auto simp: less_eq_civil_def less_civil_def)
  show "a \<le> a" by (simp add: less_eq_civil_def)
  show "a \<le> b \<Longrightarrow> b \<le> c \<Longrightarrow> a \<le> c"
    by (auto simp: less_eq_civil_def less_civil_def)
  show "a \<le> b \<Longrightarrow> b \<le> a \<Longrightarrow> a = b"
    by (auto simp: less_eq_civil_def less_civil_def)
  show "a \<le> b \<or> b \<le> a"
    by (cases a; cases b) (auto simp: less_eq_civil_def less_civil_def)
qed

end

section \<open>ISO strings\<close>

definition digit_char :: "int \<Rightarrow> char" where
  "digit_char n = char_of (48 + nat n)"

definition two_digits :: "int \<Rightarrow> string" where
  "two_digits n = [digit_char (n div 10), digit_char (n mod 10)]"

definition four_digits :: "int \<Rightarrow> string" where
  "four_digits n = two_digits (n div 100) @ two_digits (n mod 100)"

text \<open>Years outside 0..9999 are written with a sign and six digits.\<close>

definition iso_year :: "int \<Rightarrow> string" where
  "iso_year y =
     (if 0 \<le> y \<and> y \<le> 9999 then four_digits y
      else (if y < 0 then ''-'' else ''+'') @ two_digits (\<bar>y\<bar> div 10000) @ four_digits (\<bar>y\<bar> mod 10000))"

definition iso_date :: "civil \<Rightarrow> string" where
  "iso_date c = iso_year (c_year c) @ ''-'' @ two_digits (c_month c) @ ''-'' @ two_digits (c_day c)"

definition ms_per_day :: int where
  "ms_per_day = 24 * 60 * 60 * 1000"

definition iso_time :: "int \<Rightarrow> string" where
  "iso_time ms =
     two_digits (ms div 3600000) @ '':'' @ two_digits (ms div 60000 mod 60) @ '':''
     @ two_digits (ms div 1000 mod 60) @ ''.''
     @ digit_char (ms div 100 mod 10) # two_digits (ms mod 100)"

definition toISOString :: "int \<Rightarrow> string" where
  "toISOString t =
     iso_date (civil_of_day (t div ms_per_day)) @ ''T'' @ iso_time (t mod ms_per_day) @ ''Z''"

text \<open>\<open>date.toISOString().slice(0, 10)\<close>: the UTC civil date of a time value.\<close>

definition civil_date_string :: "int \<Rightarrow> string" where
  "civil_date_string t = take 10 (toISOString t)"

section \<open>Reading dates\<close>

definition digit_value :: "char \<Rightarrow> int option" where
  "digit_value ch =
     (let n = (of_char ch :: nat) in if 48 \<le> n \<and> n \<le> 57 then Some (int n - 48) else None)"

fun digits_acc :: "int \<Rightarrow> string \<Rightarrow> int option" where
  "digits_acc acc [] = Some acc"
| "digits_acc acc (ch # cs) =
     (case digit_value ch of None \<Rightarrow> None | Some v \<Rightarrow> digits_acc (10 * acc + v) cs)"

definition digits_value :: "string \<Rightarrow> int option" where
  "digits_value s = (if s = [] then None else digits_acc 0 s)"

text \<open>The date part \<open>YYYY-MM-DD\<close> of the ECMAScript date-time string format.\<close>

definition parse_date_part :: "string \<Rightarrow> int option" where
  "parse_date_part s =
     (if length s = 10 \<and> s ! 4 = CHR ''-'' \<and> s ! 7 = CHR ''-''
      then (case (digits_value (take 4 s), digits_value (take 2 (drop 5 s)), digits_value (drop 8 s)) of
              (Some y, Some m, Some d) \<Rightarrow>
                if 1 \<le> m \<and> m \<le> 12 \<and> 1 \<le> d \<and> d \<le> 31 then Some (make_day y (m - 1) d) else None
            | _ \<Rightarrow> None)
      else None)"

text \<open>The time part \<open>HH:mm\<close>, \<open>HH:mm:ss\<close> or \<open>HH:mm:ss.sss\<close>.\<close>

definition parse_time_part :: "string \<Rightarrow> int option" where
  "parse_time_part s =
     (let f = (\<lambda>i n. digits_value (take n (drop i s)));
          h = f 0 2; mi = f 3 2;
          sec = (if length s = 5 then Some 0 else f 6 2);
          ms = (if length s = 12 then f 9 3 else Some 0)
      in if (length s = 5 \<or> length s = 8 \<or> length s = 12) \<and> s ! 2 = CHR '':''
            \<and> (length s = 5 \<or> s ! 5 = CHR '':'') \<and> (length s = 12 \<longrightarrow> s ! 8 = CHR ''.'')
         then (case (h, mi, sec, ms) of
                 (Some hh, Some mm, Some ss, Some u) \<Rightarrow>
                   if hh \<le> 23 \<and> mm \<le> 59 \<and> ss \<le> 59
                   then Some (((hh * 60 + mm) * 60 + ss) * 1000 + u) else None
               | _ \<Rightarrow> None)
         else None)"

text \<open>
  \<open>new Date(s)\<close> on \<open>YYYY-MM-DD\<close> and \<open>YYYY-MM-DDTHH:mm[:ss[.sss]]Z\<close>, the forms the program itself
  writes and its tests send; a day past the end of its month runs over into the next, as V8 does.
  Any other string is read as an invalid date.
\<close>

definition js_Date_parse :: "string \<Rightarrow> js_date" where
  "js_Date_parse s =
     (case parse_date_part (take 10 s) of
        None \<Rightarrow> Invalid_Date
      | Some d \<Rightarrow>
          if length s = 10 then Date_at (d * ms_per_day)
          else if s ! 10 = CHR ''T'' \<and> last s = CHR ''Z''
          then (case parse_time_part (butlast (drop 11 s)) of
                  None \<Rightarrow> Invalid_Date
                | Some t \<Rightarrow> Date_at (d * ms_per_day + t))
          else Invalid_Date)"

section \<open>Civil dates and day numbers correspond\<close>

lemma div_succ:
  fixes z n :: int
  assumes "1 < n"
  shows "(z + 1) div n = z div n + (if (z + 1) mod n = 0 then 1 else 0)"
proof -
  have z: "z = n * (z div n) + z mod n" by simp
  have r: "0 \<le> z mod n" "z mod n < n" using assms by auto
  show ?thesis
  proof (cases "z mod n + 1 = n")
    case True
    have "z + 1 = n * (z div n) + (z mod n + 1)" using z by linarith
    then have e: "z + 1 = n * (z div n + 1)"
      unfolding True by (simp add: distrib_left)
    then have "(z + 1) div n = z div n + 1" "(z + 1) mod n = 0"
      using assms by (metis nonzero_mult_div_cancel_left less_irrefl not_one_less_zero, simp)
    then show ?thesis by simp
  next
    case False
    then have b: "0 \<le> z mod n + 1" "z mod n + 1 < n" using r by auto
    have e: "z + 1 = n * (z div n) + (z mod n + 1)" using z by simp
    then have "(z + 1) div n = z div n" "(z + 1) mod n = z mod n + 1"
      using int_div_pos_eq[OF e b] int_mod_pos_eq[OF e b] by simp_all
    then show ?thesis using r by simp
  qed
qed

lemma mod_shift_zero: "(n::int) dvd c \<Longrightarrow> (y - c) mod n = 0 \<longleftrightarrow> y mod n = 0"
  by (simp add: mod_eq_0_iff_dvd dvd_diff_left_iff)

lemma leap_count:
  fixes x x' u A B C :: int
  assumes "p400 \<longrightarrow> p100" "p100 \<longrightarrow> p4" "x = 365 * u + A - B + C"
    "x' = 365 * (u + 1) + (A + (if p4 then 1 else 0)) - (B + (if p100 then 1 else 0))
            + (C + (if p400 then 1 else 0))"
  shows "x' = x + (if p4 \<and> (\<not> p100 \<or> p400) then 366 else 365)"
  using assms by (cases p4; cases p100; cases p400) auto

lemma year_est_low:
  fixes q d A B C :: int
  assumes "146097 * q \<le> 400 * d" "4 * A \<le> q - 1 + 1" "q - 1 + 69 \<le> 100 * B + 99"
    "400 * C \<le> q - 1 + 369"
  shows "365 * (q - 1) + A - B + C \<le> d"
proof -
  have "400 * A \<le> 100 * q" and "4 * q - 124 \<le> 400 * B" using assms(2,3) by simp_all
  then have "400 * (365 * (q - 1) + A - B + C) \<le> 400 * d" using assms(1,4) by simp
  then show ?thesis by simp
qed

lemma year_est_high:
  fixes q d A B C :: int
  assumes "400 * d < 146097 * q + 146097" "q + 2 + 1 \<le> 4 * A + 3" "100 * B \<le> q + 2 + 69"
    "q + 2 + 369 \<le> 400 * C + 399"
  shows "d < 365 * (q + 2) + A - B + C"
proof -
  have "100 * q \<le> 400 * A" and "400 * B \<le> 4 * q + 284" using assms(2,3) by simp_all
  then have "400 * d < 400 * (365 * (q + 2) + A - B + C)" using assms(1,4) by simp
  then show ?thesis by simp
qed

lemma year_step: "day_from_year (y + 1) = day_from_year y + (if leap y then 366 else 365)"
proof -
  have a: "(y - 1968) div 4 = (y - 1969) div 4 + (if y mod 4 = 0 then 1 else 0)"
    using div_succ[of 4 "y - 1969"] mod_shift_zero[of 4 1968 y] by simp
  have b: "(y - 1900) div 100 = (y - 1901) div 100 + (if y mod 100 = 0 then 1 else 0)"
    using div_succ[of 100 "y - 1901"] mod_shift_zero[of 100 1900 y] by simp
  have c: "(y - 1600) div 400 = (y - 1601) div 400 + (if y mod 400 = 0 then 1 else 0)"
    using div_succ[of 400 "y - 1601"] mod_shift_zero[of 400 1600 y] by simp
  have "(100::int) dvd 400" "(4::int) dvd 100" by simp_all
  then have d: "y mod 400 = 0 \<Longrightarrow> y mod 100 = 0" "y mod 100 = 0 \<Longrightarrow> y mod 4 = 0"
    unfolding mod_eq_0_iff_dvd using dvd_trans by blast+
  have e: "y + 1 - 1970 = y - 1970 + 1" "y + 1 - 1969 = y - 1968" "y + 1 - 1901 = y - 1900"
    "y + 1 - 1601 = y - 1600" by simp_all
  define A B C where "A = (y - 1969) div 4" and "B = (y - 1901) div 100" and "C = (y - 1601) div 400"
  have "day_from_year y = 365 * (y - 1970) + A - B + C"
    by (simp only: day_from_year_def A_def B_def C_def)
  moreover have "day_from_year (y + 1) = 365 * (y - 1970 + 1) + (A + (if y mod 4 = 0 then 1 else 0))
      - (B + (if y mod 100 = 0 then 1 else 0)) + (C + (if y mod 400 = 0 then 1 else 0))"
    by (simp only: day_from_year_def e a b c A_def B_def C_def)
  ultimately show ?thesis
    unfolding leap_def by (intro leap_count) (use d in blast)+
qed

lemma day_from_year_less: "y < y' \<Longrightarrow> day_from_year y + 365 \<le> day_from_year y'"
proof (induction "nat (y' - y)" arbitrary: y')
  case (Suc n)
  show ?case
  proof (cases "y' = y + 1")
    case False
    with Suc have "day_from_year y + 365 \<le> day_from_year (y' - 1)" by auto
    moreover have "day_from_year (y' - 1) \<le> day_from_year y'"
      using year_step[of "y' - 1"] by (simp split: if_splits)
    ultimately show ?thesis by simp
  qed (simp add: year_step)
qed simp

lemma year_from_day_bounds:
  "day_from_year (year_from_day d) \<le> d \<and> d < day_from_year (year_from_day d + 1)"
proof -
  define q where "q = (400 * d) div 146097"
  have q: "146097 * q \<le> 400 * d" "400 * d < 146097 * q + 146097"
    unfolding q_def by linarith+
  have e: "day_from_year (1970 + k) = 365 * k + (k + 1) div 4 - (k + 69) div 100 + (k + 369) div 400" for k
    by (simp add: day_from_year_def algebra_simps)
  have dv: "4 * (x div 4) \<le> x" "x \<le> 4 * (x div 4) + 3" "100 * (x div 100) \<le> x"
    "x \<le> 100 * (x div 100) + 99" "400 * (x div 400) \<le> x" "x \<le> 400 * (x div 400) + 399" for x :: int
    by linarith+
  have lo: "day_from_year (1970 + (q - 1)) \<le> d"
    unfolding e by (rule year_est_low[OF q(1) dv(1) dv(4) dv(5)])
  have hi: "d < day_from_year (1970 + (q + 2))"
    unfolding e by (rule year_est_high[OF q(2) dv(2) dv(3) dv(6)])
  show ?thesis
    using lo hi unfolding year_from_day_def Let_def q_def[symmetric]
    by (auto simp: algebra_simps)
qed

lemma year_from_day_unique:
  assumes "day_from_year y \<le> d" and "d < day_from_year (y + 1)"
  shows "year_from_day d = y"
proof (rule ccontr)
  let ?y = "year_from_day d"
  assume "?y \<noteq> y"
  then consider "?y + 1 \<le> y" | "y + 1 \<le> ?y" by linarith
  then show False
  proof cases
    case 1
    then have "day_from_year (?y + 1) \<le> day_from_year y"
      using day_from_year_less[of "?y + 1" y] by (cases "?y + 1 = y") auto
    with assms year_from_day_bounds[of d] show False by linarith
  next
    case 2
    then have "day_from_year (y + 1) \<le> day_from_year ?y"
      using day_from_year_less[of "y + 1" ?y] by (cases "y + 1 = ?y") auto
    with assms year_from_day_bounds[of d] show False by linarith
  qed
qed

lemma month_of_doy:
  assumes "0 \<le> n" and "n < (if leap y then 366 else 365)"
  defines "m \<equiv> month_from_doy (leap y) n"
  shows "1 \<le> m \<and> m \<le> 12 \<and> days_before_month y (m - 1) \<le> n
         \<and> n < days_before_month y (m - 1) + month_length y m"
  using assms(1,2) unfolding m_def month_from_doy_def Let_def
  by (cases "leap y") (simp_all add: days_before_month_def month_length_def)

lemma month_cases:
  fixes m :: int
  assumes "1 \<le> m" "m \<le> 12"
  shows "m = 1 \<or> m = 2 \<or> m = 3 \<or> m = 4 \<or> m = 5 \<or> m = 6 \<or> m = 7 \<or> m = 8 \<or> m = 9
         \<or> m = 10 \<or> m = 11 \<or> m = 12"
  using assms by arith

lemma doy_range:
  assumes "1 \<le> m" "m \<le> 12" "1 \<le> dd" "dd \<le> month_length y m"
  shows "0 \<le> days_before_month y (m - 1) + dd - 1
         \<and> days_before_month y (m - 1) + dd - 1 < (if leap y then 366 else 365)
         \<and> month_from_doy (leap y) (days_before_month y (m - 1) + dd - 1) = m"
  using month_cases[OF assms(1,2)] assms(3,4)
  by (elim disjE) (simp_all add: days_before_month_def month_length_def month_from_doy_def split: if_splits)

lemma day_of_civil_simp:
  assumes "1 \<le> m" "m \<le> 12"
  shows "day_of_civil (Civil y m dd) = day_from_year y + days_before_month y (m - 1) + dd - 1"
  using assms by (simp add: day_of_civil_def make_day_def div_pos_pos_trivial mod_pos_pos_trivial)

lemma civil_of_day_of_civil:
  assumes "civil_valid c"
  shows "civil_of_day (day_of_civil c) = c"
proof (cases c)
  case (Civil y m dd)
  with assms have m: "1 \<le> m" "m \<le> 12" and d: "1 \<le> dd" "dd \<le> month_length y m"
    by (simp_all add: civil_valid_def)
  let ?n = "days_before_month y (m - 1) + dd - 1"
  from doy_range[OF m d] have n: "0 \<le> ?n" "?n < (if leap y then 366 else 365)"
    "month_from_doy (leap y) ?n = m" by auto
  have day: "day_of_civil (Civil y m dd) = day_from_year y + ?n"
    using m by (simp add: day_of_civil_simp)
  have "year_from_day (day_from_year y + ?n) = y"
    using n(1,2) by (intro year_from_day_unique) (simp_all add: year_step)
  then show ?thesis
    using n(3) Civil by (simp add: civil_of_day_def Let_def day)
qed

lemma civil_of_day_valid: "civil_valid (civil_of_day d)"
  and day_of_civil_of_day: "day_of_civil (civil_of_day d) = d"
proof -
  let ?y = "year_from_day d"
  let ?n = "d - day_from_year ?y"
  let ?m = "month_from_doy (leap ?y) ?n"
  have n: "0 \<le> ?n" "?n < (if leap ?y then 366 else 365)"
    using year_from_day_bounds[of d] by (simp_all add: year_step)
  note m = month_of_doy[OF n]
  then show "civil_valid (civil_of_day d)"
    by (simp add: civil_of_day_def Let_def civil_valid_def)
  show "day_of_civil (civil_of_day d) = d"
    using m by (simp add: civil_of_day_def Let_def day_of_civil_simp)
qed

lemma month_start_mono:
  assumes "1 \<le> m" "m < m'" "m' \<le> 12"
  shows "days_before_month y (m - 1) + month_length y m \<le> days_before_month y (m' - 1)"
proof -
  have b: "1 \<le> m'" "m \<le> 12" using assms by auto
  from month_cases[OF assms(1) b(2)] month_cases[OF b(1) assms(3)] assms(2) show ?thesis
    by (elim disjE) (simp_all add: days_before_month_def month_length_def)
qed

lemma day_of_civil_less:
  assumes "civil_valid a" "civil_valid b" "a < b"
  shows "day_of_civil a < day_of_civil b"
proof (cases a; cases b)
  fix y m dd y' m' dd'
  assume ab: "a = Civil y m dd" "b = Civil y' m' dd'"
  have m: "1 \<le> m" "m \<le> 12" "1 \<le> dd" "dd \<le> month_length y m"
    and m': "1 \<le> m'" "m' \<le> 12" "1 \<le> dd'" "dd' \<le> month_length y' m'"
    using assms ab by (simp_all add: civil_valid_def)
  have e: "day_of_civil a = day_from_year y + days_before_month y (m - 1) + dd - 1"
    "day_of_civil b = day_from_year y' + days_before_month y' (m' - 1) + dd' - 1"
    using m m' ab by (simp_all add: day_of_civil_simp)
  have "y < y' \<or> y = y' \<and> (m < m' \<or> m = m' \<and> dd < dd')"
    using assms(3) ab by (simp add: less_civil_def)
  then consider "y < y'" | "y = y'" "m < m'" | "y = y'" "m = m'" "dd < dd'" by blast
  then show "day_of_civil a < day_of_civil b"
  proof cases
    case 1
    have "day_from_year (y + 1) \<le> day_from_year y'"
      using 1 day_from_year_less[of "y + 1" y'] by (cases "y + 1 = y'") auto
    with doy_range[OF m] doy_range[OF m'] show ?thesis
      unfolding e by (simp add: year_step split: if_splits)
  next
    case 2
    with month_start_mono[of m m' y] m m' show ?thesis unfolding e by simp
  qed (simp add: e)
qed

lemma day_of_civil_less_iff:
  assumes "civil_valid a" "civil_valid b"
  shows "day_of_civil a < day_of_civil b \<longleftrightarrow> a < b"
  using day_of_civil_less[OF assms] day_of_civil_less[OF assms(2,1)]
  by (metis less_asym linorder_less_linear less_irrefl)

section \<open>ISO strings: order and round trip\<close>

lemma of_char_digit: "0 \<le> n \<Longrightarrow> n \<le> 9 \<Longrightarrow> (of_char (digit_char n) :: nat) = 48 + nat n"
  by (simp add: digit_char_def)

lemma digit_char_eq_iff:
  "0 \<le> a \<Longrightarrow> a \<le> 9 \<Longrightarrow> 0 \<le> b \<Longrightarrow> b \<le> 9 \<Longrightarrow> digit_char a = digit_char b \<longleftrightarrow> a = b"
  using of_char_digit[of a] of_char_digit[of b] by (metis add_left_cancel nat_eq_iff)

lemma digit_value_digit_char: "0 \<le> n \<Longrightarrow> n \<le> 9 \<Longrightarrow> digit_value (digit_char n) = Some n"
  by (simp add: digit_value_def of_char_digit)

lemma str_less_digit:
  assumes "0 \<le> a" "a \<le> 9" "0 \<le> b" "b \<le> 9"
  shows "str_less (digit_char a # x) (digit_char b # y) \<longleftrightarrow> a < b \<or> a = b \<and> str_less x y"
  using assms by (simp add: digit_char_eq_iff of_char_digit) linarith

lemma two_digits_range: "0 \<le> n \<Longrightarrow> n < 100 \<Longrightarrow> 0 \<le> n div 10 \<and> n div 10 \<le> 9 \<and> 0 \<le> n mod 10 \<and> n mod 10 \<le> (9::int)"
  by presburger

lemma four_digits_range:
  "0 \<le> n \<Longrightarrow> n < 10000 \<Longrightarrow> 0 \<le> n div 100 \<and> n div 100 < 100 \<and> 0 \<le> n mod 100 \<and> n mod 100 < (100::int)"
  by auto

lemma positional_less:
  fixes a b n :: int
  assumes "0 < n"
  shows "(a div n < b div n \<or> a div n = b div n \<and> (a mod n < b mod n \<or> a mod n = b mod n \<and> P))
           \<longleftrightarrow> a < b \<or> a = b \<and> P"
proof -
  have le: "x div n < y div n \<Longrightarrow> x < y" for x y
    using assms by (meson not_le zdiv_mono1)
  have "a - b = a mod n - b mod n" if e: "a div n = b div n"
  proof -
    have "a = (a div n) * n + a mod n" by simp
    moreover have "b = (a div n) * n + b mod n" by (simp add: e)
    ultimately show ?thesis by linarith
  qed
  then show ?thesis using le[of a b] le[of b a] by (cases "a div n = b div n") (auto simp: neq_iff)
qed

lemma str_less_two_digits:
  assumes "0 \<le> a" "a < 100" "0 \<le> b" "b < 100"
  shows "str_less (two_digits a @ x) (two_digits b @ y) \<longleftrightarrow> a < b \<or> a = b \<and> str_less x y"
  using two_digits_range[OF assms(1,2)] two_digits_range[OF assms(3,4)]
  by (simp only: two_digits_def append_Cons append_Nil str_less_digit positional_less[of 10, simplified])

lemma str_less_four_digits:
  assumes "0 \<le> a" "a < 10000" "0 \<le> b" "b < 10000"
  shows "str_less (four_digits a @ x) (four_digits b @ y) \<longleftrightarrow> a < b \<or> a = b \<and> str_less x y"
  using four_digits_range[OF assms(1,2)] four_digits_range[OF assms(3,4)]
  by (simp only: four_digits_def append_assoc str_less_two_digits positional_less[of 100, simplified])

definition four_digit_year :: "civil \<Rightarrow> bool" where
  "four_digit_year c = (0 \<le> c_year c \<and> c_year c \<le> 9999)"

lemma month_length_le: "month_length y m \<le> 31"
  by (simp add: month_length_def)

lemma iso_date_less_iff:
  assumes "civil_valid a" "civil_valid b" "four_digit_year a" "four_digit_year b"
  shows "str_less (iso_date a) (iso_date b) \<longleftrightarrow> a < b"
proof -
  have r: "0 \<le> c_month c" "c_month c < 100" "0 \<le> c_day c" "c_day c < 100" if "civil_valid c" for c
    using that month_length_le[of "c_year c" "c_month c"] by (auto simp: civil_valid_def)
  have y: "0 \<le> c_year c" "c_year c < 10000" if "four_digit_year c" for c
    using that by (auto simp: four_digit_year_def)
  note ra = r[OF assms(1)] y[OF assms(3)] and rb = r[OF assms(2)] y[OF assms(4)]
  have d: "str_less (two_digits (c_day a)) (two_digits (c_day b)) \<longleftrightarrow> c_day a < c_day b"
    using str_less_two_digits[of "c_day a" "c_day b" "[]" "[]"] ra rb by simp
  have m: "str_less (two_digits (c_month a) @ ''-'' @ u) (two_digits (c_month b) @ ''-'' @ v)
    \<longleftrightarrow> c_month a < c_month b \<or> c_month a = c_month b \<and> str_less u v" for u v
    using ra rb by (subst str_less_two_digits) simp_all
  show ?thesis
    using assms(3,4) ra rb
    by (simp add: iso_date_def iso_year_def four_digit_year_def str_less_four_digits less_civil_def
          m[simplified] d)
qed

lemma length_two_digits [simp]: "length (two_digits n) = 2"
  and length_four_digits [simp]: "length (four_digits n) = 4"
  by (simp_all add: two_digits_def four_digits_def)

lemma length_iso_date: "four_digit_year c \<Longrightarrow> length (iso_date c) = 10"
  by (simp add: iso_date_def iso_year_def four_digit_year_def)

lemma civil_date_string_iso:
  "four_digit_year (civil_of_day (t div ms_per_day)) \<Longrightarrow>
   civil_date_string t = iso_date (civil_of_day (t div ms_per_day))"
  by (simp add: civil_date_string_def toISOString_def length_iso_date)

lemma digits_value_two: "0 \<le> n \<Longrightarrow> n < 100 \<Longrightarrow> digits_value (two_digits n) = Some n"
  using two_digits_range[of n] by (simp add: digits_value_def two_digits_def digit_value_digit_char)

lemma digits_acc_two: "0 \<le> n \<Longrightarrow> n < 100 \<Longrightarrow> digits_acc acc (two_digits n @ s) = digits_acc (100 * acc + n) s"
  using two_digits_range[of n] by (simp add: two_digits_def digit_value_digit_char algebra_simps)

lemma digits_value_four:
  assumes "0 \<le> n" "n < 10000"
  shows "digits_value (four_digits n) = Some n"
proof -
  have "digits_acc 0 (two_digits (n div 100) @ two_digits (n mod 100) @ []) = Some n"
    using four_digits_range[OF assms] by (simp only: digits_acc_two) simp
  then show ?thesis
    by (simp add: digits_value_def four_digits_def two_digits_def)
qed

lemma digits_value_three:
  assumes "0 \<le> n" "n < 1000"
  shows "digits_value (digit_char (n div 100) # two_digits (n mod 100)) = Some n"
proof -
  have "0 \<le> n div 100" "n div 100 \<le> 9" using assms by auto
  then have "digits_acc 0 (digit_char (n div 100) # two_digits (n mod 100) @ []) = Some n"
    using assms by (simp only: digits_acc.simps digit_value_digit_char option.case digits_acc_two) simp
  then show ?thesis
    by (simp add: digits_value_def)
qed

lemma parse_date_part_iso:
  assumes "civil_valid c" "four_digit_year c"
  shows "parse_date_part (iso_date c) = Some (day_of_civil c)"
proof -
  have m: "1 \<le> c_month c" "c_month c \<le> 12" "1 \<le> c_day c" "c_day c \<le> 31"
    and y: "0 \<le> c_year c" "c_year c < 10000"
    using assms month_length_le[of "c_year c" "c_month c"]
    by (auto simp: civil_valid_def four_digit_year_def)
  have s: "iso_date c = four_digits (c_year c) @ ''-'' @ two_digits (c_month c) @ ''-'' @ two_digits (c_day c)"
    using y by (simp add: iso_date_def iso_year_def)
  have parts: "take 4 (iso_date c) = four_digits (c_year c)"
    "take 2 (drop 5 (iso_date c)) = two_digits (c_month c)"
    "drop 8 (iso_date c) = two_digits (c_day c)"
    "iso_date c ! 4 = CHR ''-''" "iso_date c ! 7 = CHR ''-''"
    unfolding s by (simp_all add: nth_append)
  show ?thesis
    unfolding parse_date_part_def parts
    using m y by (simp add: length_iso_date assms digits_value_two digits_value_four day_of_civil_def)
qed

lemma hms_value:
  fixes ms :: int
  shows "ms = 1000 * S + m \<Longrightarrow> S = 60 * M + s \<Longrightarrow> M = 60 * H + h \<Longrightarrow>
    ((H * 60 + h) * 60 + s) * 1000 + m = ms"
  by simp

lemma parse_time_part_iso:
  assumes "0 \<le> ms" "ms < ms_per_day"
  shows "parse_time_part (iso_time ms) = Some ms"
proof -
  define S where "S = ms div 1000"
  define M where "M = S div 60"
  define H where "H = M div 60"
  have d: "ms div 60000 = M" "ms div 3600000 = H"
    using zdiv_zmult2_eq[of 60 ms 1000] zdiv_zmult2_eq[of 60 "ms div 60000" 1000]
      zdiv_zmult2_eq[of 60 ms 60000]
    by (simp_all add: M_def S_def H_def)
  have q: "ms = 1000 * S + ms mod 1000" "S = 60 * M + S mod 60" "M = 60 * H + M mod 60"
    by (simp_all add: S_def M_def H_def)
  have r: "0 \<le> M mod 60" "M mod 60 < 60" "0 \<le> S mod 60" "S mod 60 < 60" "0 \<le> ms mod 1000"
    "ms mod 1000 < 1000"
    by simp_all
  have r': "M mod 60 \<le> 59" "S mod 60 \<le> 59" using r by linarith+
  have h: "0 \<le> H" "H < 24"
    using assms by (simp_all add: d(2)[symmetric] ms_per_day_def)
  have e: "ms div 100 mod 10 = ms mod 1000 div 100"
    using zmod_zmult2_eq[of 10 ms 100] by simp
  have e2: "ms mod 100 = ms mod 1000 mod 100"
    by (simp add: mod_mod_cancel)
  have parts: "take 2 (iso_time ms) = two_digits H"
    "take 2 (drop 3 (iso_time ms)) = two_digits (M mod 60)"
    "take 2 (drop 6 (iso_time ms)) = two_digits (S mod 60)"
    "take 3 (drop 9 (iso_time ms)) = digit_char (ms mod 1000 div 100) # two_digits (ms mod 1000 mod 100)"
    "iso_time ms ! 2 = CHR '':''" "iso_time ms ! 5 = CHR '':''" "iso_time ms ! 8 = CHR ''.''"
    "length (iso_time ms) = 12"
    unfolding iso_time_def d S_def[symmetric] e e2 by (simp_all add: nth_append)
  have "((H * 60 + M mod 60) * 60 + S mod 60) * 1000 + ms mod 1000 = ms"
    by (rule hms_value[OF q])
  then show ?thesis
    using r r' h by (simp add: parse_time_part_def Let_def parts digits_value_two digits_value_three)
qed

section \<open>Texts of date and time\<close>

text \<open>\<open>YYYY-MM-DD HH:MM:SS.sss\<close>, the date and time of a time value in UTC with a blank between them.\<close>

definition utc_datetime :: "int \<Rightarrow> string" where
  "utc_datetime t = iso_date (civil_of_day (t div ms_per_day)) @ '' '' @ iso_time (t mod ms_per_day)"

lemma str_less_same_length:
  "length p = length q \<Longrightarrow> str_less (p @ a) (q @ b) \<longleftrightarrow> str_less p q \<or> p = q \<and> str_less a b"
proof (induction p arbitrary: q)
  case (Cons x p)
  then show ?case by (cases q) auto
qed simp

text \<open>A blank sorts before \<open>T\<close>: the text is above the ISO string of another time only when its day is later.\<close>

lemma iso_below_utc_datetime:
  assumes "four_digit_year (civil_of_day (t div ms_per_day))" "four_digit_year (civil_of_day (a div ms_per_day))"
  shows "str_less (toISOString t) (utc_datetime a) \<longleftrightarrow> t div ms_per_day < a div ms_per_day"
proof -
  let ?c = "civil_of_day (t div ms_per_day)" and ?d = "civil_of_day (a div ms_per_day)"
  have "\<not> str_less (''T'' @ x) ('' '' @ y)" for x y by simp
  then have "str_less (toISOString t) (utc_datetime a) \<longleftrightarrow> str_less (iso_date ?c) (iso_date ?d)"
    unfolding toISOString_def utc_datetime_def
    using str_less_same_length[of "iso_date ?c" "iso_date ?d"] length_iso_date[OF assms(1)] length_iso_date[OF assms(2)]
    by simp
  also have "\<dots> \<longleftrightarrow> ?c < ?d" by (rule iso_date_less_iff[OF civil_of_day_valid civil_of_day_valid assms])
  also have "\<dots> \<longleftrightarrow> t div ms_per_day < a div ms_per_day"
    using day_of_civil_less_iff[of ?c ?d] civil_of_day_valid by (simp add: day_of_civil_of_day)
  finally show ?thesis .
qed

lemma js_Date_parse_toISOString:
  assumes "four_digit_year (civil_of_day (t div ms_per_day))"
  shows "js_Date_parse (toISOString t) = Date_at t"
proof -
  let ?c = "civil_of_day (t div ms_per_day)" and ?u = "t mod ms_per_day"
  have u: "0 \<le> ?u" "?u < ms_per_day" by (simp_all add: ms_per_day_def)
  have l: "length (iso_date ?c) = 10" by (rule length_iso_date[OF assms])
  have "take 10 (toISOString t) = iso_date ?c" "toISOString t ! 10 = CHR ''T''"
    "last (toISOString t) = CHR ''Z''" "butlast (drop 11 (toISOString t)) = iso_time ?u"
    "length (toISOString t) \<noteq> 10"
    by (simp_all add: toISOString_def l nth_append butlast_append)
  then show ?thesis
    using parse_date_part_iso[OF civil_of_day_valid assms] parse_time_part_iso[OF u]
    by (simp add: js_Date_parse_def day_of_civil_of_day)
qed

end
