(* ===== verification/Svc_Monad.thy ===== *)
theory Svc_Monad
  imports Js_Date
begin

text \<open>
  The effects of the service code: a state monad over the world (database, held lock keys, clock,
  generated identifiers, and the external HCM system) with three outcomes: a value, a thrown
  exception, or a promise that never settles (\<open>Hang\<close>). The primitives are the operations the
  services use: reads and saves of rows, \<open>dataSource.transaction\<close>, \<open>runExclusive\<close>, the clock, the
  HCM client.

  Third-party behaviour enters as data of the world or the environment: \<open>faults\<close> scripts what each
  database save does (it may fail, or report a version mismatch), \<open>uuid\<close> yields the generated
  identifiers, \<open>sqlDatetime\<close> is the text the database driver keeps in a datetime column,
  and the three HCM operations are arbitrary functions on the external state \<open>'h\<close>.
\<close>

section \<open>Exceptions\<close>

datatype message =
    Insufficient_balance int int int int   \<comment> \<open>requested, free, total, reserved\<close>
  | Idempotency_body_mismatch
  | Range_overlaps string
  | End_before_start
  | No_business_days
  | End_in_past
  | Not_found string
  | Cannot_approve RequestStatus
  | Cannot_reject RequestStatus
  | Cannot_cancel RequestStatus
  | Cannot_expire RequestStatus
  | Row_vanished string string
  | Header_employee_required
  | Header_role_invalid
  | Header_idempotency_key_invalid
  | Own_balance_only
  | Managers_only_resolve
  | Submit_for_self_only
  | Managers_only_approve
  | Managers_only_reject
  | Cancel_own_only

datatype exception =
    ConflictException message
  | UnprocessableEntityException message
  | NotFoundException message
  | BadRequestException message
  | ForbiddenException message
  | HcmUnavailableError string
  | OptimisticLockVersionMismatchError
  | Generic_Error message
  | QueryFailedError
  | TypeError
  | RangeError

section \<open>Worlds and environments\<close>

text \<open>
  What one save does. A version mismatch means another writer changed the row: the row it left
  (\<open>None\<close> if it deleted it) is what a reload finds.
\<close>

datatype save_fault = No_fault | Version_mismatch "balance option" | Save_error

record 'h world =
  db :: database
  held :: "string list"
  clock :: int
  dbClock :: int
  uuidNext :: nat
  faults :: "save_fault list"
  hcm :: 'h

record 'h env =
  uuid :: "nat \<Rightarrow> string"
  reservationTtlDays :: int
  hcmRetryMaxAttempts :: int
  balanceLazyLoadEnabled :: bool
  sqlDatetime :: "js_date \<Rightarrow> string"
  hcm_getBalance :: "string \<Rightarrow> string \<Rightarrow> 'h \<Rightarrow> (exception + hcm_balance) \<times> 'h"
  hcm_fileTimeOff :: "hcm_command \<Rightarrow> 'h \<Rightarrow> (exception + hcm_result) \<times> 'h"
  hcm_reverseTimeOff :: "hcm_command \<Rightarrow> 'h \<Rightarrow> (exception + hcm_result) \<times> 'h"

datatype 'a outcome = Ok 'a | Raise exception | Hang

type_synonym ('a, 'h) svc = "'h world \<Rightarrow> 'a outcome \<times> 'h world"

section \<open>Combinators\<close>

definition return :: "'a \<Rightarrow> ('a, 'h) svc" where
  "return x = (\<lambda>w. (Ok x, w))"

definition throw :: "exception \<Rightarrow> ('a, 'h) svc" where
  "throw e = (\<lambda>w. (Raise e, w))"

definition andThen :: "('a, 'h) svc \<Rightarrow> ('a \<Rightarrow> ('b, 'h) svc) \<Rightarrow> ('b, 'h) svc" where
  "andThen m f = (\<lambda>w. case m w of
      (Ok x, w') \<Rightarrow> f x w'
    | (Raise e, w') \<Rightarrow> (Raise e, w')
    | (Hang, w') \<Rightarrow> (Hang, w'))"

definition try_catch :: "('a, 'h) svc \<Rightarrow> (exception \<Rightarrow> ('a, 'h) svc) \<Rightarrow> ('a, 'h) svc" where
  "try_catch m h = (\<lambda>w. case m w of
      (Ok x, w') \<Rightarrow> (Ok x, w')
    | (Raise e, w') \<Rightarrow> h e w'
    | (Hang, w') \<Rightarrow> (Hang, w'))"

text \<open>A query: reads the current database.\<close>

definition query :: "(database \<Rightarrow> 'a) \<Rightarrow> ('a, 'h) svc" where
  "query q = (\<lambda>w. (Ok (q (db w)), w))"

definition now :: "(int, 'h) svc" where
  "now = (\<lambda>w. (Ok (clock w), w))"

definition fresh_uuid :: "'h env \<Rightarrow> (string, 'h) svc" where
  "fresh_uuid E = (\<lambda>w. (Ok (uuid E (uuidNext w)), w\<lparr>uuidNext := Suc (uuidNext w)\<rparr>))"

text \<open>A call to the HCM client: it may throw, and it changes the external state either way.\<close>

definition call_hcm :: "('h \<Rightarrow> (exception + 'a) \<times> 'h) \<Rightarrow> ('a, 'h) svc" where
  "call_hcm f = (\<lambda>w. let (r, h) = f (hcm w)
     in (case r of Inl e \<Rightarrow> Raise e | Inr x \<Rightarrow> Ok x, w\<lparr>hcm := h\<rparr>))"

text \<open>
  A write: the next scripted fault decides whether it happens. Script exhausted: it succeeds.
\<close>

definition next_fault :: "'h world \<Rightarrow> save_fault" where
  "next_fault w = (case faults w of [] \<Rightarrow> No_fault | f # _ \<Rightarrow> f)"

definition drop_fault :: "'h world \<Rightarrow> 'h world" where
  "drop_fault w = w\<lparr>faults := tl (faults w)\<rparr>"

definition write_db :: "(database \<Rightarrow> database) \<Rightarrow> (unit, 'h) svc" where
  "write_db f = (\<lambda>w. case next_fault w of
      No_fault \<Rightarrow> (Ok (), (drop_fault w)\<lparr>db := f (db w)\<rparr>)
    | Version_mismatch _ \<Rightarrow> (Raise OptimisticLockVersionMismatchError, drop_fault w)
    | Save_error \<Rightarrow> (Raise QueryFailedError, drop_fault w))"

text \<open>The save of a balance row, where a version mismatch leaves the other writer's row.\<close>

definition save_balance :: "balance \<Rightarrow> (unit, 'h) svc" where
  "save_balance b = (\<lambda>w. case next_fault w of
      No_fault \<Rightarrow> (Ok (), (drop_fault w)\<lparr>db := set_balance b (db w)\<rparr>)
    | Version_mismatch row \<Rightarrow>
        (Raise OptimisticLockVersionMismatchError,
         (drop_fault w)\<lparr>db := (db w)\<lparr>balances := (balances (db w))(pk_of b := row)\<rparr>\<rparr>)
    | Save_error \<Rightarrow> (Raise QueryFailedError, drop_fault w))"

text \<open>
  The save of a request row. The column \<open>idempotencyKey\<close> is UNIQUE: a save that would give two
  rows the same key fails.
\<close>

definition key_taken :: "request \<Rightarrow> database \<Rightarrow> bool" where
  "key_taken r d =
     (\<exists>r' \<in> set (requests d). r_id r' \<noteq> r_id r \<and> idempotencyKey r' = idempotencyKey r)"

definition save_request :: "request \<Rightarrow> (unit, 'h) svc" where
  "save_request r = (\<lambda>w.
     if key_taken r (db w) then (Raise QueryFailedError, drop_fault w)
     else write_db (set_request r) w)"

definition save_outbox :: "outbox_row \<Rightarrow> (unit, 'h) svc" where
  "save_outbox row = write_db (set_outbox row)"

text \<open>\<open>dataSource.transaction\<close>: the writes of a block that does not complete are undone.\<close>

definition transaction :: "('a, 'h) svc \<Rightarrow> ('a, 'h) svc" where
  "transaction m = (\<lambda>w. case m w of
      (Ok x, w') \<Rightarrow> (Ok x, w')
    | (Raise e, w') \<Rightarrow> (Raise e, w'\<lparr>db := db w\<rparr>)
    | (Hang, w') \<Rightarrow> (Hang, w'\<lparr>db := db w\<rparr>))"

text \<open>
  \<open>runExclusive\<close> seen by one call chain: the lock is not re-entrant, so a block whose key is
  already held (by an enclosing block, or by a chain that never finished) waits for ever; any
  other way out of the block, a value or an exception, releases the key. The theory
  \<open>Balance_Lock\<close> models the promise chain behind this.
\<close>

definition runExclusive :: "string \<Rightarrow> ('a, 'h) svc \<Rightarrow> ('a, 'h) svc" where
  "runExclusive k m = (\<lambda>w.
     if k \<in> set (held w) then (Hang, w)
     else case m (w\<lparr>held := k # held w\<rparr>) of
       (Ok x, w') \<Rightarrow> (Ok x, w'\<lparr>held := remove1 k (held w')\<rparr>)
     | (Raise e, w') \<Rightarrow> (Raise e, w'\<lparr>held := remove1 k (held w')\<rparr>)
     | (Hang, w') \<Rightarrow> (Hang, w'))"

text \<open>A sequential \<open>for\<close> loop over a list.\<close>

fun for_each :: "('a \<Rightarrow> (unit, 'h) svc) \<Rightarrow> 'a list \<Rightarrow> (unit, 'h) svc" where
  "for_each f [] = return ()"
| "for_each f (x # xs) = andThen (f x) (\<lambda>_. for_each f xs)"

section \<open>Evaluation rules\<close>

lemmas svc_defs = return_def throw_def andThen_def try_catch_def query_def now_def
  fresh_uuid_def call_hcm_def write_db_def save_balance_def save_outbox_def

lemma return_apply [svc_simps]: "return x w = (Ok x, w)"
  and throw_apply [svc_simps]: "throw e w = (Raise e, w)"
  and query_apply [svc_simps]: "query q w = (Ok (q (db w)), w)"
  and now_apply [svc_simps]: "now w = (Ok (clock w), w)"
  by (simp_all add: svc_defs)

lemma andThen_Ok: "m w = (Ok x, w') \<Longrightarrow> andThen m f w = f x w'"
  and andThen_Raise: "m w = (Raise e, w') \<Longrightarrow> andThen m f w = (Raise e, w')"
  and andThen_Hang: "m w = (Hang, w') \<Longrightarrow> andThen m f w = (Hang, w')"
  by (simp_all add: andThen_def)

lemma andThen_return [svc_simps]: "andThen (return x) f = f x"
  by (simp add: fun_eq_iff svc_defs)

lemma andThen_query [svc_simps]: "andThen (query q) f w = f (q (db w)) w"
  by (simp add: svc_defs)

lemma andThen_now [svc_simps]: "andThen now f w = f (clock w) w"
  by (simp add: svc_defs)

lemma andThen_throw [svc_simps]: "andThen (throw e) f w = (Raise e, w)"
  by (simp add: svc_defs)

lemma drop_fault_simps [simp]:
  "db (drop_fault w) = db w" "held (drop_fault w) = held w" "clock (drop_fault w) = clock w"
  "dbClock (drop_fault w) = dbClock w" "uuidNext (drop_fault w) = uuidNext w"
  "hcm (drop_fault w) = hcm w"
  by (simp_all add: drop_fault_def)

end
