(* ===== verification/Svc_Spec.thy ===== *)
theory Svc_Spec
  imports Svc_Monad
begin

text \<open>
  A weakest-precondition view of the service monad. \<open>spec m Q F w\<close>: run from \<open>w\<close>, the operation
  either returns a value satisfying \<open>Q\<close> or leaves (by an exception or by never settling) a world
  satisfying \<open>F\<close>. One rule per primitive (collected in \<open>spec_rules\<close>) reduces an invariant proof of
  a whole handler to facts about the database updates on its branches, with every failing save
  and every rollback covered.
\<close>

definition spec ::
  "('a, 'h) svc \<Rightarrow> ('a \<Rightarrow> 'h world \<Rightarrow> bool) \<Rightarrow> ('h world \<Rightarrow> bool) \<Rightarrow> 'h world \<Rightarrow> bool" where
  "spec m Q F w = (case m w of (Ok x, w') \<Rightarrow> Q x w' | (Raise _, w') \<Rightarrow> F w' | (Hang, w') \<Rightarrow> F w')"

text \<open>No other process writes the balance table (the single-writer topology).\<close>

definition sole_writer :: "'h world \<Rightarrow> bool" where
  "sole_writer w = (\<forall>f \<in> set (faults w). \<forall>row. f \<noteq> Version_mismatch row)"

text \<open>An operation preserves \<open>I\<close> whether it returns, throws or hangs.\<close>

definition preserves :: "('h world \<Rightarrow> bool) \<Rightarrow> ('a, 'h) svc \<Rightarrow> bool" where
  "preserves I m = (\<forall>w. I w \<longrightarrow> I (snd (m w)))"

lemma spec_mono:
  assumes "spec m Q F w" and "\<And>x w'. Q x w' \<Longrightarrow> Q' x w'" and "\<And>w'. F w' \<Longrightarrow> F' w'"
  shows "spec m Q' F' w"
  using assms by (auto simp: spec_def split: prod.splits outcome.splits)

lemma spec_same: "spec m (\<lambda>_. I) I w \<longleftrightarrow> I (snd (m w))"
  by (cases "m w"; cases "fst (m w)") (auto simp: spec_def)

lemma preserves_spec: "preserves I m \<longleftrightarrow> (\<forall>w. I w \<longrightarrow> spec m (\<lambda>_. I) I w)"
  by (simp add: preserves_def spec_same)

lemma preserves_specD:
  "preserves I m \<Longrightarrow> I w \<Longrightarrow> (\<And>x w'. I w' \<Longrightarrow> Q x w') \<Longrightarrow> (\<And>w'. I w' \<Longrightarrow> F w') \<Longrightarrow> spec m Q F w"
  by (auto simp: preserves_spec intro: spec_mono)

lemma spec_return [spec_rules]: "Q x w \<Longrightarrow> spec (return x) Q F w"
  by (simp add: spec_def svc_defs)

lemma spec_throw [spec_rules]: "F w \<Longrightarrow> spec (throw e) Q F w"
  by (simp add: spec_def svc_defs)

lemma spec_query [spec_rules]: "Q (q (db w)) w \<Longrightarrow> spec (query q) Q F w"
  by (simp add: spec_def svc_defs)

lemma spec_now [spec_rules]: "Q (clock w) w \<Longrightarrow> spec now Q F w"
  by (simp add: spec_def svc_defs)

lemma spec_fresh_uuid [spec_rules]:
  "Q (uuid E (uuidNext w)) (w\<lparr>uuidNext := Suc (uuidNext w)\<rparr>) \<Longrightarrow> spec (fresh_uuid E) Q F w"
  by (simp add: spec_def svc_defs)

lemma spec_andThen [spec_rules]:
  "spec m (\<lambda>x. spec (f x) Q F) F w \<Longrightarrow> spec (andThen m f) Q F w"
  by (auto simp: spec_def andThen_def split: prod.splits outcome.splits)

lemma spec_try_catch [spec_rules]:
  "spec m Q F w \<Longrightarrow> (\<And>e w'. F w' \<Longrightarrow> spec (h e) Q F w') \<Longrightarrow> spec (try_catch m h) Q F w"
  by (cases "m w"; cases "fst (m w)") (auto simp: spec_def try_catch_def)

lemma spec_call_hcm [spec_rules]:
  "(\<And>x h. Q x (w\<lparr>hcm := h\<rparr>)) \<Longrightarrow> (\<And>h. F (w\<lparr>hcm := h\<rparr>)) \<Longrightarrow> spec (call_hcm f) Q F w"
  by (simp add: spec_def call_hcm_def split: prod.splits sum.splits)

lemma spec_write_db [spec_rules]:
  "Q () ((drop_fault w)\<lparr>db := f (db w)\<rparr>) \<Longrightarrow> F (drop_fault w) \<Longrightarrow> spec (write_db f) Q F w"
  by (simp add: spec_def write_db_def split: save_fault.splits)

lemma spec_save_outbox [spec_rules]:
  "Q () ((drop_fault w)\<lparr>db := set_outbox x (db w)\<rparr>) \<Longrightarrow> F (drop_fault w) \<Longrightarrow>
   spec (save_outbox x) Q F w"
  unfolding save_outbox_def by (rule spec_write_db)

lemma spec_save_request [spec_rules]:
  "(\<not> key_taken r (db w) \<Longrightarrow> Q () ((drop_fault w)\<lparr>db := set_request r (db w)\<rparr>)) \<Longrightarrow>
   F (drop_fault w) \<Longrightarrow> spec (save_request r) Q F w"
  by (simp add: spec_def save_request_def write_db_def split: save_fault.splits)

lemma next_fault_sole: "sole_writer w \<Longrightarrow> next_fault w \<noteq> Version_mismatch row"
  by (cases "faults w") (auto simp: sole_writer_def next_fault_def)

lemma spec_save_balance [spec_rules]:
  "sole_writer w \<Longrightarrow> Q () ((drop_fault w)\<lparr>db := set_balance b (db w)\<rparr>) \<Longrightarrow> F (drop_fault w) \<Longrightarrow>
   spec (save_balance b) Q F w"
  by (auto simp: spec_def save_balance_def next_fault_sole split: save_fault.splits)

lemma spec_transaction [spec_rules]:
  "spec m Q (\<lambda>w'. F (w'\<lparr>db := db w\<rparr>)) w \<Longrightarrow> spec (transaction m) Q F w"
  by (auto simp: spec_def transaction_def split: prod.splits outcome.splits)

lemma spec_runExclusive [spec_rules]:
  assumes "spec m (\<lambda>x w'. Q x (w'\<lparr>held := remove1 k (held w')\<rparr>))
             (\<lambda>w'. F w' \<and> F (w'\<lparr>held := remove1 k (held w')\<rparr>)) (w\<lparr>held := k # held w\<rparr>)"
    and "F w"
  shows "spec (runExclusive k m) Q F w"
  using assms by (auto simp: spec_def runExclusive_def split: prod.splits outcome.splits)

lemma spec_if [spec_rules]:
  "(b \<Longrightarrow> spec m Q F w) \<Longrightarrow> (\<not> b \<Longrightarrow> spec n Q F w) \<Longrightarrow> spec (if b then m else n) Q F w"
  by simp

lemma spec_option [spec_rules]:
  "(v = None \<Longrightarrow> spec m Q F w) \<Longrightarrow> (\<And>x. v = Some x \<Longrightarrow> spec (f x) Q F w) \<Longrightarrow>
   spec (case v of None \<Rightarrow> m | Some x \<Rightarrow> f x) Q F w"
  by (cases v) simp_all

lemma spec_sum [spec_rules]:
  "(\<And>x. v = Inl x \<Longrightarrow> spec (f x) Q F w) \<Longrightarrow> (\<And>x. v = Inr x \<Longrightarrow> spec (g x) Q F w) \<Longrightarrow>
   spec (case v of Inl x \<Rightarrow> f x | Inr x \<Rightarrow> g x) Q F w"
  by (cases v) simp_all

lemma spec_for_each:
  assumes "\<And>x w. x \<in> set xs \<Longrightarrow> I w \<Longrightarrow> spec (f x) (\<lambda>_. I) I w" and "I w"
  shows "spec (for_each f xs) (\<lambda>_. I) I w"
  using assms
proof (induction xs arbitrary: w)
  case Nil
  then show ?case by (simp add: spec_return)
next
  case (Cons x xs)
  show ?case
    unfolding for_each.simps
    by (rule spec_andThen, rule spec_mono[OF Cons.prems(1)]) (use Cons in auto)
qed

lemma sole_writer_simps [simp]:
  "sole_writer (w\<lparr>db := d\<rparr>) = sole_writer w" "sole_writer (w\<lparr>held := h\<rparr>) = sole_writer w"
  "sole_writer (w\<lparr>uuidNext := n\<rparr>) = sole_writer w" "sole_writer (w\<lparr>hcm := x\<rparr>) = sole_writer w"
  "sole_writer (w\<lparr>clock := t\<rparr>) = sole_writer w" "sole_writer (w\<lparr>dbClock := t\<rparr>) = sole_writer w"
  by (simp_all add: sole_writer_def)

lemma sole_writer_drop_fault [simp]: "sole_writer w \<Longrightarrow> sole_writer (drop_fault w)"
  by (cases "faults w") (auto simp: sole_writer_def drop_fault_def)

section \<open>Fault-free runs\<close>

lemma fault_free_simps [svc_simps]:
  "faults w = [] \<Longrightarrow> write_db f w = (Ok (), w\<lparr>db := f (db w)\<rparr>)"
  "faults w = [] \<Longrightarrow> save_balance b w = (Ok (), w\<lparr>db := set_balance b (db w)\<rparr>)"
  "faults w = [] \<Longrightarrow> save_outbox x w = (Ok (), w\<lparr>db := set_outbox x (db w)\<rparr>)"
  by (simp_all add: svc_defs next_fault_def drop_fault_def)

lemma save_request_fault_free [svc_simps]:
  "faults w = [] \<Longrightarrow> \<not> key_taken r (db w) \<Longrightarrow>
   save_request r w = (Ok (), w\<lparr>db := set_request r (db w)\<rparr>)"
  by (simp add: save_request_def fault_free_simps)

lemma transaction_Ok [svc_simps]: "m w = (Ok x, w') \<Longrightarrow> transaction m w = (Ok x, w')"
  and transaction_Raise: "m w = (Raise e, w') \<Longrightarrow> transaction m w = (Raise e, w'\<lparr>db := db w\<rparr>)"
  by (simp_all add: transaction_def)

text \<open>A transaction that throws leaves the database as it found it.\<close>

lemma transaction_atomic: "fst (transaction m w) = Raise e \<Longrightarrow> db (snd (transaction m w)) = db w"
  by (auto simp: transaction_def split: prod.splits outcome.splits)

end
