(* ===== verification/Balance_Service.thy ===== *)
theory Balance_Service
  imports Svc_Spec
begin

text \<open>
  \<open>src/src/balance/balance.service.ts\<close>: the balance rows, their four elementary mutations
  (reserve, release, commit, restore), the cold-read hydration of \<open>getBalance\<close>, the HCM snapshot
  and the batch reconciliation of one balance. \<open>balanceKey\<close> is the key builder of
  \<open>balance-lock.service.ts\<close>. The \<open>manager\<close> arguments of the source only select the connection
  a statement runs on; there is one database here, so they disappear.
\<close>

definition balanceKey :: "string \<Rightarrow> string \<Rightarrow> string" where
  "balanceKey employeeId locationId = employeeId @ ''::'' @ locationId"

definition MAX_OPTIMISTIC_RETRIES :: nat where
  "MAX_OPTIMISTIC_RETRIES = 5"

definition fresh_balance :: "string \<Rightarrow> string \<Rightarrow> balance" where
  "fresh_balance employeeId locationId =
     \<lparr>b_employeeId = employeeId, b_locationId = locationId, available = 0, reserved = 0,
      needsReview = False, lastHcmAsOf = None\<rparr>"

definition findOrCreate :: "string \<Rightarrow> string \<Rightarrow> (balance, 'h) svc" where
  "findOrCreate employeeId locationId =
     query (\<lambda>d. case balances d (employeeId, locationId) of
                  Some existing \<Rightarrow> existing
                | None \<Rightarrow> fresh_balance employeeId locationId)"

text \<open>
  The retry loop of \<open>saveWithRetry\<close>; the first argument counts the attempts that remain after this
  one, so the loop runs at most \<open>MAX_OPTIMISTIC_RETRIES + 1\<close> times.
\<close>

fun save_attempts :: "nat \<Rightarrow> (balance \<Rightarrow> balance) \<Rightarrow> balance \<Rightarrow> balance \<Rightarrow> (unit, 'h) svc" where
  "save_attempts 0 mutate orig current = save_balance current"
| "save_attempts (Suc n) mutate orig current = (\<lambda>w.
     case save_balance current w of
       (Raise OptimisticLockVersionMismatchError, w') \<Rightarrow>
         (case balances (db w') (pk_of orig) of
            None \<Rightarrow> throw (Generic_Error (Row_vanished (b_employeeId orig) (b_locationId orig))) w'
          | Some reloaded \<Rightarrow> save_attempts n mutate orig (mutate reloaded) w')
     | r \<Rightarrow> r)"

definition saveWithRetry :: "balance \<Rightarrow> (balance \<Rightarrow> balance) \<Rightarrow> (unit, 'h) svc" where
  "saveWithRetry b mutate = save_attempts MAX_OPTIMISTIC_RETRIES mutate b (mutate b)"

section \<open>Elementary mutations\<close>

definition mut_reserve :: "int \<Rightarrow> balance \<Rightarrow> balance" where
  "mut_reserve n b = b\<lparr>reserved := reserved b + n\<rparr>"

definition mut_release :: "int \<Rightarrow> balance \<Rightarrow> balance" where
  "mut_release n b = b\<lparr>reserved := max 0 (reserved b - n)\<rparr>"

definition mut_commit :: "int \<Rightarrow> balance \<Rightarrow> balance" where
  "mut_commit n b = b\<lparr>available := available b - n, reserved := max 0 (reserved b - n)\<rparr>"

definition mut_restore :: "int \<Rightarrow> balance \<Rightarrow> balance" where
  "mut_restore n b = b\<lparr>available := available b + n\<rparr>"

definition insufficient :: "balance \<Rightarrow> int \<Rightarrow> exception" where
  "insufficient b n =
     ConflictException
       (Insufficient_balance n (available b - reserved b) (available b) (reserved b))"

definition reserve :: "string \<Rightarrow> string \<Rightarrow> int \<Rightarrow> (unit, 'h) svc" where
  "reserve employeeId locationId n =
     andThen (findOrCreate employeeId locationId) (\<lambda>b.
     if available b - reserved b < n then throw (insufficient b n)
     else saveWithRetry b (mut_reserve n))"

definition release :: "string \<Rightarrow> string \<Rightarrow> int \<Rightarrow> (unit, 'h) svc" where
  "release employeeId locationId n =
     andThen (findOrCreate employeeId locationId) (\<lambda>b. saveWithRetry b (mut_release n))"

definition commit :: "string \<Rightarrow> string \<Rightarrow> int \<Rightarrow> (unit, 'h) svc" where
  "commit employeeId locationId n =
     andThen (findOrCreate employeeId locationId) (\<lambda>b. saveWithRetry b (mut_commit n))"

definition restore :: "string \<Rightarrow> string \<Rightarrow> int \<Rightarrow> (unit, 'h) svc" where
  "restore employeeId locationId n =
     andThen (findOrCreate employeeId locationId) (\<lambda>b. saveWithRetry b (mut_restore n))"

definition mut_snapshot :: "hcm_balance \<Rightarrow> balance \<Rightarrow> balance" where
  "mut_snapshot s b = b\<lparr>available := h_balance s, lastHcmAsOf := Some (js_Date_parse (h_asOf s))\<rparr>"

definition applyHcmSnapshot :: "hcm_balance \<Rightarrow> (unit, 'h) svc" where
  "applyHcmSnapshot snapshot =
     andThen (findOrCreate (h_employeeId snapshot) (h_locationId snapshot)) (\<lambda>b.
     saveWithRetry b (mut_snapshot snapshot))"

section \<open>Reads\<close>

text \<open>
  A balance with the \<open>degraded\<close> flag of the response; \<open>None\<close> stands for the \<open>null\<close> the last
  read of the cold path yields when HCM answered for another employee or location.
\<close>

type_synonym balance_view = "(balance \<times> bool) option"

definition is_warm :: "balance option \<Rightarrow> bool" where
  "is_warm row = (case row of None \<Rightarrow> False | Some b \<Rightarrow> lastHcmAsOf b \<noteq> None)"

definition findBalance :: "string \<Rightarrow> string \<Rightarrow> (balance option, 'h) svc" where
  "findBalance employeeId locationId = query (\<lambda>d. balances d (employeeId, locationId))"

text \<open>The block run under the balance key on a cold read.\<close>

definition hydrate :: "'h env \<Rightarrow> string \<Rightarrow> string \<Rightarrow> (balance_view, 'h) svc" where
  "hydrate E employeeId locationId =
     andThen (findBalance employeeId locationId) (\<lambda>fresh.
     if is_warm fresh then return (map_option (\<lambda>b. (b, False)) fresh)
     else
       andThen
         (try_catch
           (andThen (call_hcm (hcm_getBalance E employeeId locationId)) (\<lambda>s. return (Some s)))
           (\<lambda>e. case e of HcmUnavailableError _ \<Rightarrow> return None | _ \<Rightarrow> throw e))
         (\<lambda>snapshot. case snapshot of
            None \<Rightarrow> return (Some (fresh_balance employeeId locationId, True))
          | Some s \<Rightarrow>
              andThen (applyHcmSnapshot s) (\<lambda>_.
              andThen (findBalance employeeId locationId) (\<lambda>row.
              return (map_option (\<lambda>b. (b, False)) row)))))"

definition getBalance :: "'h env \<Rightarrow> string \<Rightarrow> string \<Rightarrow> (balance_view, 'h) svc" where
  "getBalance E employeeId locationId =
     andThen (findBalance employeeId locationId) (\<lambda>row.
     if is_warm row then return (map_option (\<lambda>b. (b, False)) row)
     else if \<not> balanceLazyLoadEnabled E then
       (case row of
          Some b \<Rightarrow> return (Some (b, False))
        | None \<Rightarrow>
            andThen (save_balance (fresh_balance employeeId locationId)) (\<lambda>_.
            return (Some (fresh_balance employeeId locationId, False))))
     else runExclusive (balanceKey employeeId locationId) (hydrate E employeeId locationId))"

definition validateAvailability :: "'h env \<Rightarrow> string \<Rightarrow> string \<Rightarrow> int \<Rightarrow> (unit, 'h) svc" where
  "validateAvailability E employeeId locationId n =
     andThen (getBalance E employeeId locationId) (\<lambda>v. case v of
       None \<Rightarrow> throw TypeError
     | Some (b, _) \<Rightarrow>
         if available b - reserved b < n then throw (insufficient b n) else return ())"

section \<open>Reconciliation of one balance\<close>

text \<open>The query parameter \<open>asOf.toISOString()\<close>; it throws on an invalid date.\<close>

definition iso_parameter :: "js_date \<Rightarrow> string" where
  "iso_parameter asOf = (case asOf of Date_at t \<Rightarrow> toISOString t | Invalid_Date \<Rightarrow> [])"

definition check_date :: "js_date \<Rightarrow> (unit, 'h) svc" where
  "check_date d = (if d = Invalid_Date then throw RangeError else return ())"

text \<open>
  Requests whose deduction the snapshot cannot contain: \<open>hcmAckAt IS NULL OR hcmAckAt > :asOf\<close>. The column
  holds the driver's text of the date and the parameter is a string, so SQLite compares two texts.
\<close>

definition unackedApprovals :: "'h env \<Rightarrow> string \<Rightarrow> string \<Rightarrow> js_date \<Rightarrow> database \<Rightarrow> request list" where
  "unackedApprovals E employeeId locationId asOf d =
     filter (\<lambda>r. r_employeeId r = employeeId \<and> r_locationId r = locationId
                 \<and> status r \<in> {RequestStatus.APPROVED, RequestStatus.PENDING_SYNC}
                 \<and> (case hcmAckAt r of None \<Rightarrow> True | Some a \<Rightarrow> str_less (iso_parameter asOf) (sqlDatetime E a)))
       (requests d)"

text \<open>
  What the driver documents: a date is kept as \<open>YYYY-MM-DD HH:MM:SS.sss\<close> in UTC. A hypothesis where it matters.
\<close>

definition stores_utc_text :: "'h env \<Rightarrow> bool" where
  "stores_utc_text E = (\<forall>t. four_digit_year (civil_of_day (t div ms_per_day)) \<longrightarrow> sqlDatetime E (Date_at t) = utc_datetime t)"

text \<open>The join of PENDING REVERSE rows with their CANCELLED requests, one entry per pair.\<close>

definition pendingReverseRows :: "string \<Rightarrow> string \<Rightarrow> database \<Rightarrow> request list" where
  "pendingReverseRows employeeId locationId d =
     concat (map (\<lambda>x. filter (\<lambda>r. r_id r = aggregateId x \<and> r_employeeId r = employeeId
                                  \<and> r_locationId r = locationId \<and> status r = RequestStatus.CANCELLED)
                        (requests d))
       (filter (\<lambda>x. operation x = REVERSE \<and> o_status x = OutboxStatus.PENDING) (outbox d)))"

definition activeReservations :: "string \<Rightarrow> string \<Rightarrow> database \<Rightarrow> request list" where
  "activeReservations employeeId locationId d =
     filter (\<lambda>r. r_employeeId r = employeeId \<and> r_locationId r = locationId
                 \<and> status r = RequestStatus.PENDING) (requests d)"

definition mut_reconcile :: "int \<Rightarrow> int \<Rightarrow> js_date \<Rightarrow> balance \<Rightarrow> balance" where
  "mut_reconcile newAvailable freshReserved asOf b =
     b\<lparr>available := newAvailable, reserved := freshReserved, lastHcmAsOf := Some asOf,
       needsReview := (if newAvailable < 0 then True else needsReview b)\<rparr>"

definition reconcileBalance :: "'h env \<Rightarrow> hcm_balance \<Rightarrow> js_date \<Rightarrow> (unit, 'h) svc" where
  "reconcileBalance E hcmEntry asOf =
     (let employeeId = h_employeeId hcmEntry; locationId = h_locationId hcmEntry;
          hcmValue = h_balance hcmEntry
      in andThen (findOrCreate employeeId locationId) (\<lambda>currentBalance.
         andThen (check_date asOf) (\<lambda>_.
         andThen (query (unackedApprovals E employeeId locationId asOf)) (\<lambda>unacked.
         andThen (query (pendingReverseRows employeeId locationId)) (\<lambda>reversals.
         andThen (query (activeReservations employeeId locationId)) (\<lambda>active.
         let localValueBefore = available currentBalance;
             unackedDeductionDays = sum_rows days unacked;
             pendingReverseDays = sum_rows days reversals;
             freshReserved = sum_rows days active;
             newAvailable = hcmValue - unackedDeductionDays + pendingReverseDays;
             hasAdjustments = (unackedDeductionDays \<noteq> 0 \<or> pendingReverseDays \<noteq> 0
               \<or> newAvailable \<noteq> localValueBefore \<or> freshReserved \<noteq> reserved currentBalance);
             event = \<lparr>e_employeeId = employeeId, e_locationId = locationId,
                      localValue = localValueBefore, e_hcmValue = hcmValue,
                      resolution = (if newAvailable < 0 then FLAGGED_NEGATIVE
                                    else if hasAdjustments then REPLAYED else NO_CHANGE)\<rparr>
         in andThen (saveWithRetry currentBalance (mut_reconcile newAvailable freshReserved asOf))
              (\<lambda>_. write_db (\<lambda>d. d\<lparr>reconEvents := reconEvents d @ [event]\<rparr>))))))))"

definition mut_clear_review :: "balance \<Rightarrow> balance" where
  "mut_clear_review b = b\<lparr>needsReview := False\<rparr>"

definition resolveReview :: "string \<Rightarrow> string \<Rightarrow> (unit, 'h) svc" where
  "resolveReview employeeId locationId =
     runExclusive (balanceKey employeeId locationId)
       (andThen (findOrCreate employeeId locationId) (\<lambda>b. saveWithRetry b mut_clear_review))"

end
