(* ===== verification/Business_Days.thy ===== *)
theory Business_Days
  imports Svc_Monad
begin

text \<open>
  The business-day calculator of \<open>time-off-request.service.ts\<close> (\<open>countBusinessDays\<close>) and the date
  validators of \<open>dto/submit-request.dto.ts\<close>. The main facts: the loop counts exactly the weekdays
  of the range that are not holidays; a week has five of them, so a range of three days or more
  has at least one; the validators accept exactly the real calendar dates and at most 365 days.
\<close>

section \<open>Reading the parts of a date string\<close>

fun split_on :: "char \<Rightarrow> string \<Rightarrow> string list" where
  "split_on sep [] = [[]]"
| "split_on sep (ch # cs) =
     (if ch = sep then [] # split_on sep cs
      else (case split_on sep cs of [] \<Rightarrow> [[ch]] | w # ws \<Rightarrow> (ch # w) # ws))"

text \<open>
  \<open>Number(s)\<close> of a part between dashes: surrounding blanks are dropped, nothing left is 0, a plus sign may
  precede the digits. Fractions, exponents, other bases and \<open>Infinity\<close>, which the pattern of the request body
  refuses, are read as \<open>NaN\<close> like every other string.
\<close>

definition is_blank :: "char \<Rightarrow> bool" where
  "is_blank ch = ((of_char ch :: nat) \<in> {9, 10, 11, 12, 13, 32, 160})"

definition trim :: "string \<Rightarrow> string" where
  "trim s = rev (dropWhile is_blank (rev (dropWhile is_blank s)))"

definition js_Number :: "string \<Rightarrow> int option" where
  "js_Number s = (case trim s of
       [] \<Rightarrow> Some 0
     | ch # cs \<Rightarrow> digits_value (if ch = CHR ''+'' then cs else ch # cs))"

text \<open>\<open>Date.UTC\<close> takes the years 0 to 99 as 1900 to 1999.\<close>

definition full_year :: "int \<Rightarrow> int" where
  "full_year y = (if 0 \<le> y \<and> y \<le> 99 then 1900 + y else y)"

definition utc_day :: "string \<Rightarrow> int option" where
  "utc_day s = (case map js_Number (split_on CHR ''-'' s) of
      Some y # Some m # Some d # _ \<Rightarrow> Some (make_day (full_year y) (m - 1) d)
    | _ \<Rightarrow> None)"

section \<open>The loop\<close>

definition is_business_day :: "string set \<Rightarrow> int \<Rightarrow> bool" where
  "is_business_day holidays d =
     (let dow = getUTCDay d; isoDate = civil_date_string (d * ms_per_day)
      in dow \<noteq> 0 \<and> dow \<noteq> 6 \<and> isoDate \<notin> holidays)"

function business_loop :: "string set \<Rightarrow> int \<Rightarrow> int \<Rightarrow> int \<Rightarrow> int" where
  "business_loop holidays cursor end_day count =
     (if cursor \<le> end_day
      then business_loop holidays (cursor + 1) end_day
             (if is_business_day holidays cursor then count + 1 else count)
      else count)"
  by pat_completeness auto
termination
  by (relation "measure (\<lambda>(_, cursor, end_day, _). nat (end_day + 1 - cursor))") auto

declare business_loop.simps [simp del]

text \<open>A comparison with an invalid date is false, so the loop does not run.\<close>

definition countBusinessDays :: "string \<Rightarrow> string \<Rightarrow> string set \<Rightarrow> exception + int" where
  "countBusinessDays startD endD holidays =
     (if str_less endD startD then Inl (UnprocessableEntityException End_before_start)
      else case (utc_day startD, utc_day endD) of
        (Some cursor, Some end_day) \<Rightarrow> Inr (business_loop holidays cursor end_day 0)
      | _ \<Rightarrow> Inr 0)"

section \<open>Validators of the submit DTO\<close>

definition MAX_REQUEST_RANGE_DAYS :: int where
  "MAX_REQUEST_RANGE_DAYS = 365"

definition is_digit :: "char \<Rightarrow> bool" where
  "is_digit ch = (digit_value ch \<noteq> None)"

text \<open>\<open>DATE_PATTERN\<close>: four digits, a month 01 to 12, a day 01 to 31.\<close>

definition date_pattern :: "string \<Rightarrow> bool" where
  "date_pattern s =
     (length s = 10 \<and> list_all is_digit (take 4 s) \<and> s ! 4 = CHR ''-'' \<and> s ! 7 = CHR ''-''
      \<and> (s ! 5 = CHR ''0'' \<and> is_digit (s ! 6) \<and> s ! 6 \<noteq> CHR ''0''
         \<or> s ! 5 = CHR ''1'' \<and> s ! 6 \<in> {CHR ''0'', CHR ''1'', CHR ''2''})
      \<and> (s ! 8 = CHR ''0'' \<and> is_digit (s ! 9) \<and> s ! 9 \<noteq> CHR ''0''
         \<or> s ! 8 \<in> {CHR ''1'', CHR ''2''} \<and> is_digit (s ! 9)
         \<or> s ! 8 = CHR ''3'' \<and> s ! 9 \<in> {CHR ''0'', CHR ''1''}))"

definition realCalendarDate :: "string \<Rightarrow> bool" where
  "realCalendarDate v =
     (if \<not> date_pattern v then False
      else case js_Date_parse (v @ ''T00:00:00Z'') of
             Date_at t \<Rightarrow> civil_date_string t = v
           | Invalid_Date \<Rightarrow> False)"

definition endDateAfterStartDate :: "string \<Rightarrow> string \<Rightarrow> bool" where
  "endDateAfterStartDate endD startD =
     (if startD = [] \<or> endD = [] then True
      else if str_less endD startD then False
      else case (js_Date_parse (startD @ ''T00:00:00Z''), js_Date_parse (endD @ ''T00:00:00Z'')) of
             (Date_at s, Date_at e) \<Rightarrow> e - s + ms_per_day \<le> MAX_REQUEST_RANGE_DAYS * ms_per_day
           | _ \<Rightarrow> False)"

definition submit_dto_valid :: "string \<Rightarrow> string \<Rightarrow> string \<Rightarrow> string \<Rightarrow> bool" where
  "submit_dto_valid employeeId locationId startD endD =
     (employeeId \<noteq> [] \<and> length employeeId \<le> 128 \<and> locationId \<noteq> [] \<and> length locationId \<le> 128
      \<and> date_pattern startD \<and> realCalendarDate startD
      \<and> date_pattern endD \<and> realCalendarDate endD
      \<and> endDateAfterStartDate endD startD)"

section \<open>The loop counts business days\<close>

definition business_days :: "string set \<Rightarrow> int \<Rightarrow> int \<Rightarrow> int set" where
  "business_days holidays s e = {d \<in> {s..e}. is_business_day holidays d}"

lemma finite_business_days [simp]: "finite (business_days holidays s e)"
  by (rule finite_subset[of _ "{s..e}"]) (auto simp: business_days_def)

lemma business_days_step:
  assumes "s \<le> e"
  shows "business_days h s e =
     (if is_business_day h s then insert s (business_days h (s + 1) e) else business_days h (s + 1) e)"
proof -
  have "{s..e} = insert s {s + 1..e}" using assms by auto
  then show ?thesis unfolding business_days_def by auto
qed

lemma business_loop_card:
  "business_loop h s e c = c + int (card (business_days h s e))"
proof (induction h s e c rule: business_loop.induct)
  case (1 h s e c)
  show ?case
  proof (cases "s \<le> e")
    case True
    have "s \<notin> business_days h (s + 1) e" by (simp add: business_days_def)
    with 1 True show ?thesis
      by (simp add: business_loop.simps[of h s e c] business_days_step[OF True])
  next
    case False
    then show ?thesis by (simp add: business_loop.simps[of h s e c] business_days_def)
  qed
qed

lemma card_business_days_split:
  assumes "s \<le> m + 1" "m \<le> e"
  shows "card (business_days h s e) = card (business_days h s m) + card (business_days h (m + 1) e)"
proof -
  have "business_days h s e = business_days h s m \<union> business_days h (m + 1) e"
    and "business_days h s m \<inter> business_days h (m + 1) e = {}"
    using assms by (auto simp: business_days_def)
  then show ?thesis by (simp add: card_Un_disjoint)
qed

lemma card_business_days_le: "s \<le> e + 1 \<Longrightarrow> int (card (business_days h s e)) \<le> e - s + 1"
proof -
  assume "s \<le> e + 1"
  have "card (business_days h s e) \<le> card {s..e}"
    by (intro card_mono) (auto simp: business_days_def)
  with \<open>s \<le> e + 1\<close> show ?thesis by simp
qed

text \<open>Seven days in a row hold five weekdays.\<close>

lemma weekday_iff: "is_business_day {} d \<longleftrightarrow> d mod 7 \<noteq> 2 \<and> d mod 7 \<noteq> 3"
  unfolding is_business_day_def getUTCDay_def Let_def by simp presburger

lemma week_residues:
  fixes s :: int
  shows "card {d \<in> {s..s+6}. d mod 7 \<noteq> 2 \<and> d mod 7 \<noteq> 3} = 5"
proof -
  let ?A = "{d \<in> {s..s + 6}. d mod 7 \<noteq> 2 \<and> d mod 7 \<noteq> 3}" and ?B = "{0, 1, 4, 5, 6 :: int}"
  have inv7: "(s + (r - s) mod 7) mod 7 = r" if "r \<in> ?B" for r
    using that by (auto simp: mod_simps)
  have "bij_betw (\<lambda>d. d mod 7) ?A ?B"
  proof (rule bij_betw_byWitness[where f' = "\<lambda>r. s + (r - s) mod 7"])
    show "\<forall>d \<in> ?A. s + (d mod 7 - s) mod 7 = d"
      by (auto simp: mod_simps mod_pos_pos_trivial)
    show "\<forall>r \<in> ?B. (s + (r - s) mod 7) mod 7 = r" using inv7 by blast
    have "d mod 7 \<in> ?B" if "d \<in> ?A" for d :: int
    proof -
      have "0 \<le> d mod 7" "d mod 7 < 7" by simp_all
      then show ?thesis using that by auto
    qed
    then show "(\<lambda>d. d mod 7) ` ?A \<subseteq> ?B" by blast
    have "s + (r - s) mod 7 \<in> ?A" if r: "r \<in> ?B" for r
    proof -
      have "0 \<le> (r - s) mod 7" "(r - s) mod 7 < 7" by simp_all
      then show ?thesis using r inv7[OF r] by auto
    qed
    then show "(\<lambda>r. s + (r - s) mod 7) ` ?B \<subseteq> ?A" by blast
  qed
  then have "card ?A = card ?B" by (rule bij_betw_same_card)
  then show ?thesis by simp
qed

lemma week_has_five: "card (business_days {} s (s + 6)) = 5"
  using week_residues[of s] by (simp add: business_days_def weekday_iff)

lemma weeks_have_five_each: "int (card (business_days {} s (s + 7 * int k - 1))) = 5 * int k"
proof (induction k arbitrary: s)
  case 0
  then show ?case by (simp add: business_days_def)
next
  case (Suc k)
  have "card (business_days {} s (s + 7 * int (Suc k) - 1)) =
        card (business_days {} s (s + 6)) + card (business_days {} (s + 7) (s + 7 + 7 * int k - 1))"
    using card_business_days_split[of s "s + 6" "s + 7 * int (Suc k) - 1" "{}"]
    by (simp add: algebra_simps)
  then show ?case using Suc.IH[of "s + 7"] by (simp add: week_has_five)
qed

lemma part_week_bounds:
  assumes "0 \<le> r" "r < 7"
  shows "r - 2 \<le> int (card (business_days {} s (s + r - 1)))
         \<and> int (card (business_days {} s (s + r - 1))) \<le> min 5 r"
proof -
  have w: "card (business_days {} s (s + 6)) =
        card (business_days {} s (s + r - 1)) + card (business_days {} (s + r) (s + 6))"
    using card_business_days_split[of s "s + r - 1" "s + 6" "{}"] assms by simp
  have "int (card (business_days {} (s + r) (s + 6))) \<le> 7 - r"
    using card_business_days_le[of "s + r" "s + 6" "{}"] assms by simp
  moreover have "int (card (business_days {} s (s + r - 1))) \<le> r"
    using card_business_days_le[of s "s + r - 1" "{}"] assms by simp
  ultimately show ?thesis using w week_has_five[of s] by linarith
qed

lemma business_days_bounds:
  assumes "s \<le> e + 1"
  defines "n \<equiv> e - s + 1"
  shows "5 * (n div 7) + max 0 (n mod 7 - 2) \<le> int (card (business_days {} s e))
         \<and> int (card (business_days {} s e)) \<le> 5 * (n div 7) + min 5 (n mod 7)"
proof -
  define k where "k = nat (n div 7)"
  define r where "r = n mod 7"
  have n: "0 \<le> n" using assms by simp
  then have k: "int k = n div 7" by (simp add: k_def pos_imp_zdiv_nonneg_iff)
  have r: "0 \<le> r" "r < 7" by (simp_all add: r_def)
  have e: "e = s + 7 * int k + r - 1"
    unfolding k r_def n_def by (simp add: algebra_simps)
  have "card (business_days {} s e) =
        card (business_days {} s (s + 7 * int k - 1)) + card (business_days {} (s + 7 * int k) e)"
    using card_business_days_split[of s "s + 7 * int k - 1" e "{}"] e r by simp
  then have "int (card (business_days {} s e)) =
        5 * int k + int (card (business_days {} (s + 7 * int k) (s + 7 * int k + r - 1)))"
    using weeks_have_five_each[of s k] e by simp
  with part_week_bounds[OF r, of "s + 7 * int k"] k show ?thesis
    unfolding r_def by linarith
qed

section \<open>Date strings\<close>

lemma split_on_no_sep: "sep \<notin> set w \<Longrightarrow> split_on sep w = [w]"
  by (induction w) auto

lemma split_on_append: "sep \<notin> set w \<Longrightarrow> split_on sep (w @ sep # rest) = w # split_on sep rest"
  by (induction w) auto

lemma digit_char_not_dash: "0 \<le> n \<Longrightarrow> n \<le> 9 \<Longrightarrow> digit_char n \<noteq> CHR ''-''"
proof
  assume n: "0 \<le> n" "n \<le> 9" and e: "digit_char n = CHR ''-''"
  have "(of_char (digit_char n) :: nat) = 45" unfolding e by simp
  with of_char_digit[OF n] show False by simp
qed

lemma two_digits_no_dash: "0 \<le> n \<Longrightarrow> n < 100 \<Longrightarrow> CHR ''-'' \<notin> set (two_digits n)"
  using two_digits_range[of n] digit_char_not_dash[of "n div 10"] digit_char_not_dash[of "n mod 10"]
  by (auto simp: two_digits_def)

lemma four_digits_no_dash: "0 \<le> n \<Longrightarrow> n < 10000 \<Longrightarrow> CHR ''-'' \<notin> set (four_digits n)"
  using four_digits_range[of n] two_digits_no_dash[of "n div 100"] two_digits_no_dash[of "n mod 100"]
  by (auto simp: four_digits_def)

lemma of_char_plus: "(of_char (CHR ''+'') :: nat) = 43"
  by simp

lemma js_Number_digits:
  assumes "s \<noteq> []" "\<forall>ch \<in> set s. \<exists>n. 0 \<le> n \<and> n \<le> 9 \<and> ch = digit_char n"
  shows "js_Number s = digits_value s"
proof -
  have c: "\<not> is_blank ch" "ch \<noteq> CHR ''+''" if "ch \<in> set s" for ch
  proof -
    obtain n where n: "0 \<le> n" "n \<le> 9" "ch = digit_char n" using assms(2) \<open>ch \<in> set s\<close> by blast
    have v: "(of_char ch :: nat) = 48 + nat n" unfolding n(3) by (rule of_char_digit[OF n(1,2)])
    show "\<not> is_blank ch" unfolding is_blank_def v using n(2) by simp
    show "ch \<noteq> CHR ''+''"
    proof
      assume "ch = CHR ''+''"
      then have "(of_char ch :: nat) = 43" by (simp only: of_char_plus)
      with v show False by simp
    qed
  qed
  have keep: "dropWhile is_blank t = t" if "set t \<subseteq> set s" for t
    using that c(1) by (cases t) auto
  have "trim s = s" by (simp add: trim_def keep)
  then show ?thesis using assms(1) c(2) by (cases s) (simp_all add: js_Number_def)
qed

lemma digits_of_two:
  assumes "0 \<le> y" "y < 100"
  shows "\<forall>ch \<in> set (two_digits y). \<exists>n. 0 \<le> n \<and> n \<le> 9 \<and> ch = digit_char n"
proof
  fix ch assume "ch \<in> set (two_digits y)"
  then have "ch = digit_char (y div 10) \<or> ch = digit_char (y mod 10)" by (simp add: two_digits_def)
  then show "\<exists>n. 0 \<le> n \<and> n \<le> 9 \<and> ch = digit_char n" using two_digits_range[OF assms] by blast
qed

lemma utc_day_iso:
  assumes "civil_valid c" "100 \<le> c_year c" "c_year c \<le> 9999"
  shows "utc_day (iso_date c) = Some (day_of_civil c)"
proof -
  have m: "0 \<le> c_month c" "c_month c < 100" "0 \<le> c_day c" "c_day c < 100"
    using assms month_length_le[of "c_year c" "c_month c"] by (auto simp: civil_valid_def)
  have s: "iso_date c = four_digits (c_year c) @ CHR ''-'' # two_digits (c_month c) @ CHR ''-''
      # two_digits (c_day c)"
    using assms by (simp add: iso_date_def iso_year_def)
  have "split_on CHR ''-'' (iso_date c)
      = [four_digits (c_year c), two_digits (c_month c), two_digits (c_day c)]"
    unfolding s using m assms
    by (simp add: split_on_append split_on_no_sep four_digits_no_dash two_digits_no_dash)
  moreover have "js_Number (two_digits y) = digits_value (two_digits y)" if "0 \<le> y" "y < 100" for y
    by (rule js_Number_digits[OF _ digits_of_two[OF that]]) (simp add: two_digits_def)
  moreover have "js_Number (four_digits y) = digits_value (four_digits y)" if "0 \<le> y" "y \<le> 9999" for y
  proof (rule js_Number_digits)
    have "0 \<le> y div 100" "y div 100 < 100" "0 \<le> y mod 100" "y mod 100 < 100" using that by auto
    from digits_of_two[OF this(1,2)] digits_of_two[OF this(3,4)]
    show "\<forall>ch \<in> set (four_digits y). \<exists>n. 0 \<le> n \<and> n \<le> 9 \<and> ch = digit_char n"
      unfolding four_digits_def set_append by blast
  qed (simp add: four_digits_def two_digits_def)
  ultimately show ?thesis
    using m assms
    by (simp add: utc_day_def digits_value_two digits_value_four full_year_def day_of_civil_def)
qed

lemma countBusinessDays_nonneg: "countBusinessDays s e h = Inr n \<Longrightarrow> 0 \<le> n"
  by (auto simp: countBusinessDays_def business_loop_card split: if_splits option.splits)

text \<open>A digit first: the string is of a four-digit year.\<close>

lemma date_pattern_year:
  assumes "date_pattern v" and "civil_date_string t = v"
  shows "four_digit_year (civil_of_day (t div ms_per_day))"
proof (rule ccontr)
  let ?y = "c_year (civil_of_day (t div ms_per_day))"
  assume "\<not> four_digit_year (civil_of_day (t div ms_per_day))"
  then have "\<not> (0 \<le> ?y \<and> ?y \<le> 9999)" by (simp add: four_digit_year_def)
  then have "v ! 0 = CHR ''-'' \<or> v ! 0 = CHR ''+''"
    unfolding assms(2)[symmetric] civil_date_string_def toISOString_def iso_date_def iso_year_def
    by (auto simp: Let_def)
  moreover have "is_digit (v ! 0)"
    using assms(1) by (cases v) (auto simp: date_pattern_def)
  ultimately show False
    by (auto simp: is_digit_def digit_value_def)
qed

lemma is_digit_digit_char: "0 \<le> n \<Longrightarrow> n \<le> 9 \<Longrightarrow> is_digit (digit_char n)"
  by (simp add: is_digit_def digit_value_digit_char)

lemma digit_char_lit:
  "digit_char 0 = CHR ''0''" "digit_char 1 = CHR ''1''" "digit_char 2 = CHR ''2''"
  "digit_char 3 = CHR ''3''"
  by code_simp+

lemma digit_char_not_0: "1 \<le> x \<Longrightarrow> x \<le> 9 \<Longrightarrow> digit_char x \<noteq> CHR ''0''"
  using digit_char_eq_iff[of x 0] by (simp add: digit_char_lit)

lemma digit_char_low:
  "0 \<le> x \<Longrightarrow> x \<le> 1 \<Longrightarrow> digit_char x \<in> {CHR ''0'', CHR ''1''}"
  "0 \<le> x \<Longrightarrow> x \<le> 2 \<Longrightarrow> digit_char x \<in> {CHR ''0'', CHR ''1'', CHR ''2''}"
proof -
  have "0 \<le> x \<Longrightarrow> x \<le> 1 \<Longrightarrow> x = 0 \<or> x = 1" "0 \<le> x \<Longrightarrow> x \<le> 2 \<Longrightarrow> x = 0 \<or> x = 1 \<or> x = 2" by arith+
  then show "0 \<le> x \<Longrightarrow> x \<le> 1 \<Longrightarrow> digit_char x \<in> {CHR ''0'', CHR ''1''}"
    "0 \<le> x \<Longrightarrow> x \<le> 2 \<Longrightarrow> digit_char x \<in> {CHR ''0'', CHR ''1'', CHR ''2''}"
    by (auto simp: digit_char_lit)
qed

lemma mod_10_range: "0 \<le> x mod 10" "x mod 10 \<le> 9" for x :: int
  by simp_all

lemma month_split:
  assumes "1 \<le> (m::int)" "m \<le> 12"
  shows "m div 10 = 0 \<and> 1 \<le> m mod 10 \<or> m div 10 = 1 \<and> m mod 10 \<le> 2"
  using assms by presburger

lemma day_split:
  assumes "1 \<le> (m::int)" "m \<le> 31"
  shows "m div 10 = 0 \<and> 1 \<le> m mod 10 \<or> m div 10 = 1 \<or> m div 10 = 2 \<or> m div 10 = 3 \<and> m mod 10 \<le> 1"
  using assms by presburger

lemma month_digits:
  assumes "1 \<le> m" "m \<le> 12"
  shows "digit_char (m div 10) = CHR ''0'' \<and> is_digit (digit_char (m mod 10))
        \<and> digit_char (m mod 10) \<noteq> CHR ''0''
      \<or> digit_char (m div 10) = CHR ''1''
        \<and> digit_char (m mod 10) \<in> {CHR ''0'', CHR ''1'', CHR ''2''}"
  using month_split[OF assms]
proof (elim disjE conjE)
  assume e: "m div 10 = 0" and "1 \<le> m mod 10"
  then show ?thesis
    unfolding e digit_char_lit using digit_char_not_0[OF _ mod_10_range(2)] is_digit_digit_char[OF mod_10_range] by blast
next
  assume "m div 10 = 1" "m mod 10 \<le> 2"
  then show ?thesis using digit_char_low(2)[OF mod_10_range(1)] by (simp add: digit_char_lit)
qed

lemma day_digits:
  assumes "1 \<le> m" "m \<le> 31"
  shows "digit_char (m div 10) = CHR ''0'' \<and> is_digit (digit_char (m mod 10))
        \<and> digit_char (m mod 10) \<noteq> CHR ''0''
      \<or> digit_char (m div 10) \<in> {CHR ''1'', CHR ''2''} \<and> is_digit (digit_char (m mod 10))
      \<or> digit_char (m div 10) = CHR ''3'' \<and> digit_char (m mod 10) \<in> {CHR ''0'', CHR ''1''}"
  using day_split[OF assms]
proof (elim disjE conjE)
  assume e: "m div 10 = 0" and "1 \<le> m mod 10"
  then show ?thesis
    unfolding e digit_char_lit using digit_char_not_0[OF _ mod_10_range(2)] is_digit_digit_char[OF mod_10_range] by blast
next
  assume "m div 10 = 3" "m mod 10 \<le> 1"
  then show ?thesis using digit_char_low(1)[OF mod_10_range(1)] by (simp add: digit_char_lit)
qed (use is_digit_digit_char[OF mod_10_range] in \<open>simp_all add: digit_char_lit\<close>)

lemma date_pattern_iso:
  assumes "civil_valid c" "four_digit_year c"
  shows "date_pattern (iso_date c)"
proof -
  have m: "1 \<le> c_month c" "c_month c \<le> 12" "1 \<le> c_day c" "c_day c \<le> 31"
    and y: "0 \<le> c_year c" "c_year c < 10000"
    using assms month_length_le[of "c_year c" "c_month c"]
    by (auto simp: civil_valid_def four_digit_year_def)
  have s: "iso_date c = four_digits (c_year c) @ CHR ''-'' # two_digits (c_month c) @ CHR ''-''
      # two_digits (c_day c)"
    using y by (simp add: iso_date_def iso_year_def)
  have dg: "list_all is_digit (four_digits (c_year c))"
    using four_digits_range[OF y] two_digits_range[of "c_year c div 100"]
      two_digits_range[of "c_year c mod 100"]
    by (simp add: four_digits_def two_digits_def is_digit_digit_char)
  have i: "iso_date c ! 4 = CHR ''-''" "iso_date c ! 7 = CHR ''-''"
    "iso_date c ! 5 = digit_char (c_month c div 10)" "iso_date c ! 6 = digit_char (c_month c mod 10)"
    "iso_date c ! 8 = digit_char (c_day c div 10)" "iso_date c ! 9 = digit_char (c_day c mod 10)"
    "take 4 (iso_date c) = four_digits (c_year c)"
    unfolding s by (simp_all add: nth_append two_digits_def)
  show ?thesis
    unfolding date_pattern_def i using dg length_iso_date[OF assms(2)] month_digits[OF m(1,2)] day_digits[OF m(3,4)] by blast
qed

lemma parse_midnight:
  assumes "civil_valid c" "four_digit_year c"
  shows "js_Date_parse (iso_date c @ ''T00:00:00Z'') = Date_at (day_of_civil c * ms_per_day)"
proof -
  have l: "length (iso_date c) = 10" by (rule length_iso_date[OF assms(2)])
  have "parse_time_part ''00:00:00'' = Some 0" by code_simp
  then show ?thesis
    by (simp add: js_Date_parse_def l nth_append parse_date_part_iso[OF assms])
qed

lemma midnight_div: "d * ms_per_day div ms_per_day = d"
  by (simp add: ms_per_day_def)

lemma civil_date_string_day:
  assumes "civil_valid c" "four_digit_year c"
  shows "civil_date_string (day_of_civil c * ms_per_day) = iso_date c"
  using assms by (simp add: civil_date_string_iso midnight_div civil_of_day_of_civil)

lemma realCalendarDate_iff:
  "realCalendarDate v \<longleftrightarrow> (\<exists>c. civil_valid c \<and> four_digit_year c \<and> v = iso_date c)"
proof
  assume "realCalendarDate v"
  then obtain t where t: "date_pattern v" "civil_date_string t = v"
    by (auto simp: realCalendarDate_def split: if_splits js_date.splits)
  from date_pattern_year[OF this] t(2) show "\<exists>c. civil_valid c \<and> four_digit_year c \<and> v = iso_date c"
    using civil_of_day_valid civil_date_string_iso by metis
next
  assume "\<exists>c. civil_valid c \<and> four_digit_year c \<and> v = iso_date c"
  then show "realCalendarDate v"
    by (auto simp: realCalendarDate_def date_pattern_iso parse_midnight civil_date_string_day)
qed

lemma endDateAfterStartDate_iso:
  assumes "civil_valid a" "four_digit_year a" "civil_valid b" "four_digit_year b"
  shows "endDateAfterStartDate (iso_date b) (iso_date a) \<longleftrightarrow>
         a \<le> b \<and> day_of_civil b - day_of_civil a + 1 \<le> MAX_REQUEST_RANGE_DAYS"
proof -
  have ne: "iso_date x \<noteq> []" for x by (simp add: iso_date_def)
  have o: "str_less (iso_date b) (iso_date a) \<longleftrightarrow> \<not> a \<le> b"
    using iso_date_less_iff[of b a] assms by auto
  show ?thesis
    using assms by (simp add: endDateAfterStartDate_def ne o parse_midnight ms_per_day_def MAX_REQUEST_RANGE_DAYS_def)
      linarith
qed

lemma countBusinessDays_iso:
  assumes "civil_valid a" "civil_valid b" "100 \<le> c_year a" "c_year a \<le> 9999" "100 \<le> c_year b"
    "c_year b \<le> 9999"
  shows "countBusinessDays (iso_date a) (iso_date b) holidays =
     (if b < a then Inl (UnprocessableEntityException End_before_start)
      else Inr (int (card (business_days holidays (day_of_civil a) (day_of_civil b)))))"
  using assms iso_date_less_iff[of b a]
  by (simp add: countBusinessDays_def four_digit_year_def utc_day_iso business_loop_card)

section \<open>What a validated submission looks like\<close>

lemma submit_dto_iff:
  "submit_dto_valid e l s d \<longleftrightarrow>
     e \<noteq> [] \<and> length e \<le> 128 \<and> l \<noteq> [] \<and> length l \<le> 128
     \<and> (\<exists>a b. civil_valid a \<and> four_digit_year a \<and> civil_valid b \<and> four_digit_year b
          \<and> s = iso_date a \<and> d = iso_date b \<and> a \<le> b
          \<and> day_of_civil b - day_of_civil a + 1 \<le> MAX_REQUEST_RANGE_DAYS)"
proof -
  have "date_pattern v" if "realCalendarDate v" for v
    using that by (simp add: realCalendarDate_def split: if_splits)
  then have "submit_dto_valid e l s d \<longleftrightarrow> e \<noteq> [] \<and> length e \<le> 128 \<and> l \<noteq> [] \<and> length l \<le> 128
      \<and> realCalendarDate s \<and> realCalendarDate d \<and> endDateAfterStartDate d s"
    unfolding submit_dto_valid_def by blast
  then show ?thesis
    unfolding realCalendarDate_iff using endDateAfterStartDate_iso by blast
qed

text \<open>C32: The validators of a submission accept exactly non-empty identifiers of at most 128 characters with two real calendar dates in YYYY-MM-DD form, the end not before the start and at most 365 days in all.\<close>

theorem submit_dto_accepts_real_ranges:
  "submit_dto_valid e l s d \<longleftrightarrow>
     e \<noteq> [] \<and> length e \<le> 128 \<and> l \<noteq> [] \<and> length l \<le> 128
     \<and> (\<exists>a b. civil_valid a \<and> four_digit_year a \<and> civil_valid b \<and> four_digit_year b
          \<and> s = iso_date a \<and> d = iso_date b \<and> a \<le> b
          \<and> day_of_civil b - day_of_civil a + 1 \<le> MAX_REQUEST_RANGE_DAYS)"
  by (rule submit_dto_iff)

lemma iso_date_day: "civil_valid a \<Longrightarrow> civil_valid b \<Longrightarrow> a \<le> b \<Longrightarrow> day_of_civil a \<le> day_of_civil b"
  using day_of_civil_less_iff[of b a] by (meson not_le)

text \<open>For a validated submission (from the year 100 on) the day count is the number of Mondays to Fridays in the range, both ends included; it is at most 261, and at least one when the range has three days.\<close>

lemma validated_days_are_counted:
  assumes "submit_dto_valid e l s d" "str_le ''0100-01-01'' s"
  shows "\<exists>a b n. civil_valid a \<and> civil_valid b \<and> s = iso_date a \<and> d = iso_date b
    \<and> countBusinessDays s d {} = Inr n
    \<and> n = int (card {x \<in> {day_of_civil a..day_of_civil b}. getUTCDay x \<noteq> 0 \<and> getUTCDay x \<noteq> 6})
    \<and> n \<le> 261 \<and> (day_of_civil a + 2 \<le> day_of_civil b \<longrightarrow> 1 \<le> n)"
proof -
  obtain a b where ab: "civil_valid a" "four_digit_year a" "civil_valid b" "four_digit_year b"
    "s = iso_date a" "d = iso_date b" "a \<le> b" "day_of_civil b - day_of_civil a + 1 \<le> MAX_REQUEST_RANGE_DAYS"
    using assms(1) unfolding submit_dto_iff by blast
  have "iso_date (Civil 100 1 1) = ''0100-01-01''" by code_simp
  moreover have c: "civil_valid (Civil 100 1 1)" "four_digit_year (Civil 100 1 1)" by code_simp+
  ultimately have "\<not> a < Civil 100 1 1"
    using assms(2) iso_date_less_iff[OF ab(1) c(1) ab(2) c(2)] ab(5) by (simp add: str_le_def)
  then have ya: "100 \<le> c_year a" by (cases a) (auto simp: less_civil_def)
  moreover have "c_year a \<le> c_year b" using ab(7) by (auto simp: less_eq_civil_def less_civil_def)
  ultimately have years: "100 \<le> c_year a" "c_year a \<le> 9999" "100 \<le> c_year b" "c_year b \<le> 9999"
    using ab(2,4) by (simp_all add: four_digit_year_def)
  let ?A = "day_of_civil a" and ?B = "day_of_civil b"
  have le: "?A \<le> ?B" by (rule iso_date_day[OF ab(1,3,7)])
  have "countBusinessDays s d {} = Inr (int (card (business_days {} ?A ?B)))"
    using countBusinessDays_iso[OF ab(1,3) years, of "{}"] ab(5-7) by auto
  moreover have "business_days {} ?A ?B = {x \<in> {?A..?B}. getUTCDay x \<noteq> 0 \<and> getUTCDay x \<noteq> 6}"
    by (simp add: business_days_def is_business_day_def Let_def)
  moreover have "int (card (business_days {} ?A ?B)) \<le> 261 \<and> (?A + 2 \<le> ?B \<longrightarrow> 1 \<le> int (card (business_days {} ?A ?B)))"
  proof -
    define n where "n = ?B - ?A + 1"
    have "5 * (n div 7) + max 0 (n mod 7 - 2) \<le> int (card (business_days {} ?A ?B))"
      "int (card (business_days {} ?A ?B)) \<le> 5 * (n div 7) + min 5 (n mod 7)"
      using business_days_bounds[of ?A ?B] le unfolding n_def by simp_all
    moreover have "1 \<le> n" "n \<le> 365" using le ab(8) by (simp_all add: n_def MAX_REQUEST_RANGE_DAYS_def)
    moreover have "5 * (n div 7) + min 5 (n mod 7) \<le> 261" using calculation(3,4) by (simp add: min_def) presburger
    moreover have "3 \<le> n \<longrightarrow> 1 \<le> 5 * (n div 7) + max 0 (n mod 7 - 2)"
      using calculation(3) by (simp add: max_def) presburger
    ultimately show ?thesis unfolding n_def by linarith
  qed
  ultimately show ?thesis using ab(1,3,5,6) by auto
qed

end
