(* ===== verification/Time_Off_Request.thy ===== *)
theory Time_Off_Request
  imports Balance_Service Business_Days
begin

text \<open>
  \<open>src/src/time-off-request/time-off-request.service.ts\<close>: the request life cycle. Each public
  method is the composition the source writes (pre-warm read, lock, critical section); the
  critical sections are definitions of their own (\<open>submit_locked\<close> and so on), since they are the
  units that the per-key lock serialises.
\<close>

section \<open>Payloads and outbox rows\<close>

definition buildFileCommand :: "request \<Rightarrow> hcm_command" where
  "buildFileCommand req =
     \<lparr>c_employeeId = r_employeeId req, c_locationId = r_locationId req, c_days = days req,
      c_startDate = startDate req, c_endDate = endDate req,
      c_idempotencyKey = hcmIdempotencyKey req @ '':FILE''\<rparr>"

definition buildReverseCommand :: "request \<Rightarrow> hcm_command" where
  "buildReverseCommand req =
     \<lparr>c_employeeId = r_employeeId req, c_locationId = r_locationId req, c_days = days req,
      c_startDate = startDate req, c_endDate = endDate req,
      c_idempotencyKey = hcmIdempotencyKey req @ '':REVERSE''\<rparr>"

definition operation_name :: "OutboxOperation \<Rightarrow> string" where
  "operation_name op = (case op of FILE \<Rightarrow> ''FILE'' | REVERSE \<Rightarrow> ''REVERSE'')"

text \<open>The row as created; \<open>o_id\<close> and \<open>o_createdAt\<close> are filled in when it is saved.\<close>

definition buildOutboxRow :: "request \<Rightarrow> OutboxOperation \<Rightarrow> outbox_row" where
  "buildOutboxRow req op =
     \<lparr>o_id = [], aggregateId = r_id req, operation = op,
      payload = (case op of FILE \<Rightarrow> buildFileCommand req | REVERSE \<Rightarrow> buildReverseCommand req),
      o_idempotencyKey = hcmIdempotencyKey req @ '':'' @ operation_name op,
      o_status = OutboxStatus.PENDING, attempts = 0, o_createdAt = 0\<rparr>"

text \<open>Saving a new row: the generated id and the database's creation time.\<close>

definition insert_outbox :: "'h env \<Rightarrow> outbox_row \<Rightarrow> (unit, 'h) svc" where
  "insert_outbox E row =
     andThen (fresh_uuid E) (\<lambda>i w. save_outbox (row\<lparr>o_id := i, o_createdAt := dbClock w\<rparr>) w)"

definition void_row :: "outbox_row \<Rightarrow> outbox_row" where
  "void_row row = row\<lparr>o_status := VOIDED\<rparr>"

definition voids :: "string \<Rightarrow> outbox_row \<Rightarrow> bool" where
  "voids requestId row =
     (aggregateId row = requestId \<and> operation row = FILE \<and> o_status row = OutboxStatus.PENDING)"

definition void_files :: "string \<Rightarrow> database \<Rightarrow> database" where
  "void_files requestId d = d\<lparr>outbox := update_where (voids requestId) void_row (outbox d)\<rparr>"

definition voidPendingFileRows :: "string \<Rightarrow> (unit, 'h) svc" where
  "voidPendingFileRows requestId = write_db (void_files requestId)"

section \<open>Queries\<close>

definition findRequest :: "string \<Rightarrow> (request option, 'h) svc" where
  "findRequest requestId = query (\<lambda>d. List.find (\<lambda>r. r_id r = requestId) (requests d))"

definition findById :: "string \<Rightarrow> (request option, 'h) svc" where
  "findById requestId = findRequest requestId"

definition findByIdempotencyKey :: "string \<Rightarrow> (request option, 'h) svc" where
  "findByIdempotencyKey k = query (\<lambda>d. List.find (\<lambda>r. idempotencyKey r = k) (requests d))"

definition overlaps :: "string \<Rightarrow> string \<Rightarrow> string \<Rightarrow> string \<Rightarrow> request \<Rightarrow> bool" where
  "overlaps employeeId locationId startD endD r =
     (r_employeeId r = employeeId \<and> r_locationId r = locationId \<and> status r \<notin> TERMINAL_STATUSES
      \<and> str_le (startDate r) endD \<and> str_le startD (endDate r))"

definition findOverlapping ::
  "string \<Rightarrow> string \<Rightarrow> string \<Rightarrow> string \<Rightarrow> (request option, 'h) svc" where
  "findOverlapping employeeId locationId startD endD =
     query (\<lambda>d. List.find (overlaps employeeId locationId startD endD) (requests d))"

section \<open>submit\<close>

definition ttlMs :: "'h env \<Rightarrow> int" where
  "ttlMs E = reservationTtlDays E * 24 * 60 * 60 * 1000"

definition new_request ::
  "'h env \<Rightarrow> string \<Rightarrow> string \<Rightarrow> string \<Rightarrow> string \<Rightarrow> string \<Rightarrow> int \<Rightarrow> int \<Rightarrow> string \<Rightarrow> request" where
  "new_request E employeeId locationId startD endD key n t hcmKey =
     \<lparr>r_id = [], r_employeeId = employeeId, r_locationId = locationId, startDate = startD,
      endDate = endD, days = n, status = RequestStatus.PENDING, idempotencyKey = key,
      hcmIdempotencyKey = hcmKey, expiresAt = t + ttlMs E, committedAt = None, hcmAckAt = None\<rparr>"

text \<open>
  \<open>manager.update(TimeOffRequest, \<dots>)\<close>: a terminal request gives its idempotency key up so that
  the UNIQUE column does not block the new row.
\<close>

definition terminal_key :: "request \<Rightarrow> string" where
  "terminal_key r = idempotencyKey r @ '':terminal:'' @ r_id r"

definition rename_key :: "request \<Rightarrow> database \<Rightarrow> database" where
  "rename_key r d = d\<lparr>requests := update_where (\<lambda>x. r_id x = r_id r)
                        (\<lambda>x. x\<lparr>idempotencyKey := terminal_key r\<rparr>) (requests d)\<rparr>"

definition free_terminal_key :: "request \<Rightarrow> (unit, 'h) svc" where
  "free_terminal_key r = (\<lambda>w.
     if key_taken (r\<lparr>idempotencyKey := terminal_key r\<rparr>) (db w)
     then (Raise QueryFailedError, drop_fault w)
     else write_db (rename_key r) w)"

text \<open>Steps 4 and 5 of the source, one transaction.\<close>

definition create_and_reserve :: "'h env \<Rightarrow> request option \<Rightarrow> request \<Rightarrow> (request, 'h) svc" where
  "create_and_reserve E existing req =
     transaction
       (andThen (case existing of
                   None \<Rightarrow> return ()
                 | Some old \<Rightarrow> if status old \<in> TERMINAL_STATUSES then free_terminal_key old
                                else return ()) (\<lambda>_.
        andThen (fresh_uuid E) (\<lambda>i.
        andThen (save_request (req\<lparr>r_id := i\<rparr>)) (\<lambda>_.
        andThen (reserve (r_employeeId req) (r_locationId req) (days req)) (\<lambda>_.
        return (req\<lparr>r_id := i\<rparr>))))))"

definition lift_result :: "exception + 'a \<Rightarrow> ('a, 'h) svc" where
  "lift_result r = (case r of Inl e \<Rightarrow> throw e | Inr x \<Rightarrow> return x)"

definition same_body :: "request \<Rightarrow> string \<Rightarrow> string \<Rightarrow> string \<Rightarrow> string \<Rightarrow> bool" where
  "same_body r employeeId locationId startD endD =
     (r_employeeId r = employeeId \<and> r_locationId r = locationId \<and> startDate r = startD
      \<and> endDate r = endD)"

text \<open>From the overlap check on: the part of \<open>submit\<close> that creates a request.\<close>

definition submit_fresh ::
  "'h env \<Rightarrow> string \<Rightarrow> string \<Rightarrow> string \<Rightarrow> string \<Rightarrow> string \<Rightarrow> request option \<Rightarrow> (request, 'h) svc" where
  "submit_fresh E employeeId locationId startD endD key existing =
     andThen (findOverlapping employeeId locationId startD endD) (\<lambda>overlapping.
     case overlapping of
       Some r \<Rightarrow> throw (ConflictException (Range_overlaps (r_id r)))
     | None \<Rightarrow>
         andThen (lift_result (countBusinessDays startD endD {})) (\<lambda>n.
         if n = 0 then throw (BadRequestException No_business_days)
         else
           andThen now (\<lambda>t.
           if str_less endD (civil_date_string t) then throw (BadRequestException End_in_past)
           else
             andThen (validateAvailability E employeeId locationId n) (\<lambda>_.
             andThen now (\<lambda>t2.
             andThen (fresh_uuid E) (\<lambda>hcmKey.
             andThen (create_and_reserve E existing
                        (new_request E employeeId locationId startD endD key n t2 hcmKey)) (\<lambda>req.
             andThen (findRequest (r_id req)) (\<lambda>saved.
             return (case saved of Some s \<Rightarrow> s | None \<Rightarrow> req))))))))) "

definition submit_locked ::
  "'h env \<Rightarrow> string \<Rightarrow> string \<Rightarrow> string \<Rightarrow> string \<Rightarrow> string \<Rightarrow> (request, 'h) svc" where
  "submit_locked E employeeId locationId startD endD key =
     andThen (findByIdempotencyKey key) (\<lambda>existing.
     case existing of
       Some r \<Rightarrow>
         if status r \<in> ACTIVE_STATUSES
         then (if same_body r employeeId locationId startD endD then return r
               else throw (UnprocessableEntityException Idempotency_body_mismatch))
         else submit_fresh E employeeId locationId startD endD key (Some r)
     | None \<Rightarrow> submit_fresh E employeeId locationId startD endD key None)"

definition submit ::
  "'h env \<Rightarrow> string \<Rightarrow> string \<Rightarrow> string \<Rightarrow> string \<Rightarrow> string \<Rightarrow> (request, 'h) svc" where
  "submit E employeeId locationId startD endD key =
     andThen (getBalance E employeeId locationId) (\<lambda>_.
     runExclusive (balanceKey employeeId locationId)
       (submit_locked E employeeId locationId startD endD key))"

section \<open>approve\<close>

text \<open>A transaction that releases the reservation and rejects the request.\<close>

definition release_and_reject :: "request \<Rightarrow> (request, 'h) svc" where
  "release_and_reject req =
     transaction
       (andThen (release (r_employeeId req) (r_locationId req) (days req)) (\<lambda>_.
        andThen (save_request (req\<lparr>status := RequestStatus.REJECTED\<rparr>)) (\<lambda>_.
        return (req\<lparr>status := RequestStatus.REJECTED\<rparr>))))"

text \<open>The refresh of step 3: \<open>Some\<close> of the rejected request, or \<open>None\<close> to go on.\<close>

definition refresh_from_hcm :: "'h env \<Rightarrow> request \<Rightarrow> (request option, 'h) svc" where
  "refresh_from_hcm E req =
     try_catch
       (andThen (call_hcm (hcm_getBalance E (r_employeeId req) (r_locationId req))) (\<lambda>snapshot.
        andThen (applyHcmSnapshot snapshot) (\<lambda>_.
        andThen (getBalance E (r_employeeId req) (r_locationId req)) (\<lambda>v. case v of
          None \<Rightarrow> throw TypeError
        | Some (b, _) \<Rightarrow>
            if available b - reserved b < days req
            then andThen (release_and_reject req) (\<lambda>r. return (Some r))
            else return None))))
       (\<lambda>e. case e of HcmUnavailableError _ \<Rightarrow> return None | _ \<Rightarrow> throw e)"

definition commit_and_enqueue :: "'h env \<Rightarrow> request \<Rightarrow> int \<Rightarrow> (request, 'h) svc" where
  "commit_and_enqueue E req t =
     (let req' = req\<lparr>committedAt := Some t, status := RequestStatus.PENDING_SYNC\<rparr>
      in transaction
           (andThen (commit (r_employeeId req) (r_locationId req) (days req)) (\<lambda>_.
            andThen (insert_outbox E (buildOutboxRow req' FILE)) (\<lambda>_.
            andThen (save_request req') (\<lambda>_.
            return req')))))"

definition approve_locked :: "'h env \<Rightarrow> string \<Rightarrow> (request, 'h) svc" where
  "approve_locked E requestId =
     andThen (findRequest requestId) (\<lambda>found. case found of
       None \<Rightarrow> throw (NotFoundException (Not_found requestId))
     | Some req \<Rightarrow>
         if status req \<noteq> RequestStatus.PENDING
         then throw (BadRequestException (Cannot_approve (status req)))
         else
           andThen now (\<lambda>t.
           if str_less (startDate req) (civil_date_string t) then release_and_reject req
           else
             andThen (refresh_from_hcm E req) (\<lambda>r. case r of
               Some rejected \<Rightarrow> return rejected
             | None \<Rightarrow> andThen now (\<lambda>t2. commit_and_enqueue E req t2))))"

text \<open>The common frame of approve, reject and cancel: load, pre-warm, lock.\<close>

definition with_request_lock ::
  "'h env \<Rightarrow> string \<Rightarrow> (request, 'h) svc \<Rightarrow> (request, 'h) svc" where
  "with_request_lock E requestId body =
     andThen (findRequest requestId) (\<lambda>preload. case preload of
       None \<Rightarrow> throw (NotFoundException (Not_found requestId))
     | Some p \<Rightarrow>
         andThen (getBalance E (r_employeeId p) (r_locationId p)) (\<lambda>_.
         runExclusive (balanceKey (r_employeeId p) (r_locationId p)) body))"

definition approve :: "'h env \<Rightarrow> string \<Rightarrow> (request, 'h) svc" where
  "approve E requestId = with_request_lock E requestId (approve_locked E requestId)"

section \<open>reject, cancel, expire\<close>

text \<open>Undoing a request that never filed: PENDING releases the hold, PENDING_SYNC gives the days
  back and voids the FILE row.\<close>

definition restore_and_void :: "request \<Rightarrow> (unit, 'h) svc" where
  "restore_and_void req =
     andThen (restore (r_employeeId req) (r_locationId req) (days req)) (\<lambda>_.
     voidPendingFileRows (r_id req))"

definition reject_locked :: "string \<Rightarrow> (request, 'h) svc" where
  "reject_locked requestId =
     andThen (findRequest requestId) (\<lambda>found. case found of
       None \<Rightarrow> throw (NotFoundException (Not_found requestId))
     | Some req \<Rightarrow>
         if status req \<noteq> RequestStatus.PENDING \<and> status req \<noteq> RequestStatus.PENDING_SYNC
         then throw (BadRequestException (Cannot_reject (status req)))
         else
           transaction
             (andThen (if status req = RequestStatus.PENDING
                       then release (r_employeeId req) (r_locationId req) (days req)
                       else restore_and_void req) (\<lambda>_.
              andThen (save_request (req\<lparr>status := RequestStatus.REJECTED\<rparr>)) (\<lambda>_.
              return (req\<lparr>status := RequestStatus.REJECTED\<rparr>)))))"

definition reject :: "'h env \<Rightarrow> string \<Rightarrow> (request, 'h) svc" where
  "reject E requestId = with_request_lock E requestId (reject_locked requestId)"

definition restore_and_reverse :: "'h env \<Rightarrow> request \<Rightarrow> (unit, 'h) svc" where
  "restore_and_reverse E req =
     andThen (restore (r_employeeId req) (r_locationId req) (days req)) (\<lambda>_.
     insert_outbox E (buildOutboxRow req REVERSE))"

definition findFileRow :: "string \<Rightarrow> (outbox_row option, 'h) svc" where
  "findFileRow requestId =
     query (\<lambda>d. List.find (\<lambda>x. aggregateId x = requestId \<and> operation x = FILE) (outbox d))"

definition cancel_effect :: "'h env \<Rightarrow> request \<Rightarrow> (unit, 'h) svc" where
  "cancel_effect E req =
     (if status req = RequestStatus.PENDING then
        andThen (voidPendingFileRows (r_id req)) (\<lambda>_.
        release (r_employeeId req) (r_locationId req) (days req))
      else if status req = RequestStatus.PENDING_SYNC then
        andThen (findFileRow (r_id req)) (\<lambda>fileRow.
        let fileSent = (case fileRow of None \<Rightarrow> False | Some x \<Rightarrow> o_status x = SENT)
        in if \<not> fileSent then
             andThen (voidPendingFileRows (r_id req)) (\<lambda>_.
             restore (r_employeeId req) (r_locationId req) (days req))
           else restore_and_reverse E req)
      else restore_and_reverse E req)"

definition cancel_locked :: "'h env \<Rightarrow> string \<Rightarrow> (request, 'h) svc" where
  "cancel_locked E requestId =
     andThen (findRequest requestId) (\<lambda>found. case found of
       None \<Rightarrow> throw (NotFoundException (Not_found requestId))
     | Some req \<Rightarrow>
         if status req = RequestStatus.CANCELLED then return req
         else if status req \<noteq> RequestStatus.PENDING \<and> status req \<noteq> RequestStatus.PENDING_SYNC
                 \<and> status req \<noteq> RequestStatus.APPROVED
         then throw (BadRequestException (Cannot_cancel (status req)))
         else
           transaction
             (andThen (cancel_effect E req) (\<lambda>_.
              andThen (save_request (req\<lparr>status := RequestStatus.CANCELLED\<rparr>)) (\<lambda>_.
              return (req\<lparr>status := RequestStatus.CANCELLED\<rparr>)))))"

definition cancel :: "'h env \<Rightarrow> string \<Rightarrow> (request, 'h) svc" where
  "cancel E requestId = with_request_lock E requestId (cancel_locked E requestId)"

text \<open>\<open>expire\<close> takes no lock: the reaper calls it inside its own.\<close>

definition expire :: "string \<Rightarrow> (request, 'h) svc" where
  "expire requestId =
     andThen (findRequest requestId) (\<lambda>found. case found of
       None \<Rightarrow> throw (NotFoundException (Not_found requestId))
     | Some req \<Rightarrow>
         if status req \<noteq> RequestStatus.PENDING \<and> status req \<noteq> RequestStatus.PENDING_SYNC
         then throw (BadRequestException (Cannot_expire (status req)))
         else
           transaction
             (andThen (if status req = RequestStatus.PENDING
                       then andThen (release (r_employeeId req) (r_locationId req) (days req))
                              (\<lambda>_. voidPendingFileRows (r_id req))
                       else restore_and_void req) (\<lambda>_.
              andThen (save_request (req\<lparr>status := RequestStatus.EXPIRED\<rparr>)) (\<lambda>_.
              return (req\<lparr>status := RequestStatus.EXPIRED\<rparr>)))))"

end
