(* ===== verification/System_Inv.thy ===== *)
theory System_Inv
  imports Time_Off_Request
begin

text \<open>
  The invariant of the database that every actor relies on, and the three ways it is kept: one
  request (with its outbox rows and its balance) makes a transition, a request is inserted, or
  balance rows change without their reservations. The handlers are proved to preserve it in the
  theories that follow.
\<close>

section \<open>The invariant\<close>

definition reserved_of :: "database \<Rightarrow> balance_pk \<Rightarrow> int" where
  "reserved_of d k = (case balances d k of None \<Rightarrow> 0 | Some b \<Rightarrow> reserved b)"

definition pending_days :: "request \<Rightarrow> int" where
  "pending_days r = (if status r = RequestStatus.PENDING then days r else 0)"

definition pending_sum :: "database \<Rightarrow> balance_pk \<Rightarrow> int" where
  "pending_sum d k = sum_list (map (\<lambda>r. if key_of r = k then pending_days r else 0) (requests d))"

definition rows_of :: "string \<Rightarrow> database \<Rightarrow> outbox_row list" where
  "rows_of i d = filter (\<lambda>x. aggregateId x = i) (outbox d)"

definition shape :: "outbox_row list \<Rightarrow> (OutboxOperation \<times> OutboxStatus) list" where
  "shape rows = map (\<lambda>x. (operation x, o_status x)) rows"

text \<open>
  Which outbox rows a request of a given status has, in the order they were written. DRAFT is
  never stored.
\<close>

definition status_shape ::
  "RequestStatus \<Rightarrow> (OutboxOperation \<times> OutboxStatus) list \<Rightarrow> bool" where
  "status_shape s rows = (case s of
      RequestStatus.DRAFT \<Rightarrow> False
    | RequestStatus.PENDING \<Rightarrow> rows = []
    | RequestStatus.PENDING_SYNC \<Rightarrow> rows = [(FILE, OutboxStatus.PENDING)]
    | RequestStatus.APPROVED \<Rightarrow> rows = [(FILE, SENT)]
    | RequestStatus.REJECTED \<Rightarrow> rows = [] \<or> rows = [(FILE, VOIDED)]
        \<or> rows \<in> {[(FILE, FAILED), (REVERSE, OutboxStatus.PENDING)],
                   [(FILE, FAILED), (REVERSE, SENT)], [(FILE, FAILED), (REVERSE, FAILED)]}
    | RequestStatus.CANCELLED \<Rightarrow> rows = [] \<or> rows = [(FILE, VOIDED)]
        \<or> rows \<in> {[(FILE, SENT), (REVERSE, OutboxStatus.PENDING)],
                   [(FILE, SENT), (REVERSE, SENT)], [(FILE, SENT), (REVERSE, FAILED)]}
    | RequestStatus.EXPIRED \<Rightarrow> rows = [] \<or> rows = [(FILE, VOIDED)])"

definition row_matches :: "request \<Rightarrow> outbox_row \<Rightarrow> bool" where
  "row_matches r x =
     (payload x = (case operation x of FILE \<Rightarrow> buildFileCommand r | REVERSE \<Rightarrow> buildReverseCommand r)
      \<and> o_idempotencyKey x = c_idempotencyKey (payload x))"

definition stamps_ok :: "request \<Rightarrow> bool" where
  "stamps_ok r =
     ((status r \<in> {RequestStatus.PENDING, RequestStatus.PENDING_SYNC} \<longrightarrow> hcmAckAt r = None)
      \<and> (status r = RequestStatus.APPROVED \<longrightarrow> hcmAckAt r \<noteq> None)
      \<and> (status r = RequestStatus.PENDING \<longrightarrow> committedAt r = None)
      \<and> (status r \<in> {RequestStatus.PENDING_SYNC, RequestStatus.APPROVED} \<longrightarrow> committedAt r \<noteq> None))"

definition request_ok :: "request \<Rightarrow> outbox_row list \<Rightarrow> bool" where
  "request_ok r rows =
     (0 < days r \<and> countBusinessDays (startDate r) (endDate r) {} = Inr (days r)
      \<and> str_le (startDate r) (endDate r) \<and> stamps_ok r
      \<and> status_shape (status r) (shape rows) \<and> (\<forall>x \<in> set rows. row_matches r x))"

definition disjoint_ranges :: "request \<Rightarrow> request \<Rightarrow> bool" where
  "disjoint_ranges r s =
     (\<not> (str_le (startDate r) (endDate s) \<and> str_le (startDate s) (endDate r)))"

definition no_overlap :: "request list \<Rightarrow> bool" where
  "no_overlap rs = (\<forall>r \<in> set rs. \<forall>s \<in> set rs.
     r_id r \<noteq> r_id s \<and> key_of r = key_of s \<and> status r \<in> ACTIVE_STATUSES \<and> status s \<in> ACTIVE_STATUSES
     \<longrightarrow> disjoint_ranges r s)"

definition balances_keyed :: "database \<Rightarrow> bool" where
  "balances_keyed d = (\<forall>k b. balances d k = Some b \<longrightarrow> pk_of b = k)"

definition ids_below :: "'h env \<Rightarrow> nat \<Rightarrow> database \<Rightarrow> bool" where
  "ids_below E n d =
     ((\<forall>r \<in> set (requests d). r_id r \<in> uuid E ` {..<n} \<and> hcmIdempotencyKey r \<in> uuid E ` {..<n})
      \<and> (\<forall>x \<in> set (outbox d). o_id x \<in> uuid E ` {..<n}))"

definition keys_distinct :: "database \<Rightarrow> bool" where
  "keys_distinct d =
     (distinct (map r_id (requests d)) \<and> distinct (map idempotencyKey (requests d))
      \<and> distinct (map hcmIdempotencyKey (requests d)) \<and> distinct (map o_id (outbox d)))"

definition no_orphans :: "database \<Rightarrow> bool" where
  "no_orphans d = (aggregateId ` set (outbox d) \<subseteq> r_id ` set (requests d))"

definition db_inv :: "'h env \<Rightarrow> nat \<Rightarrow> database \<Rightarrow> bool" where
  "db_inv E n d =
     (balances_keyed d \<and> keys_distinct d \<and> ids_below E n d \<and> no_orphans d
      \<and> (\<forall>k. reserved_of d k = pending_sum d k)
      \<and> (\<forall>r \<in> set (requests d). request_ok r (rows_of (r_id r) d))
      \<and> no_overlap (requests d))"

definition world_inv :: "'h env \<Rightarrow> 'h world \<Rightarrow> bool" where
  "world_inv E w = (db_inv E (uuidNext w) (db w) \<and> sole_writer w)"

section \<open>Elementary consequences\<close>

lemma ids_below_mono: "ids_below E m d \<Longrightarrow> m \<le> n \<Longrightarrow> ids_below E n d"
  unfolding ids_below_def by (meson image_mono lessThan_subset_iff subsetD)

lemma db_inv_mono: "db_inv E m d \<Longrightarrow> m \<le> n \<Longrightarrow> db_inv E n d"
  using ids_below_mono by (auto simp: db_inv_def)

lemma db_inv_empty: "db_inv E n empty_db"
  by (simp add: db_inv_def empty_db_def balances_keyed_def keys_distinct_def ids_below_def
      no_orphans_def reserved_of_def pending_sum_def no_overlap_def)

lemma db_invD:
  assumes "db_inv E n d"
  shows "balances_keyed d" "keys_distinct d" "ids_below E n d" "no_orphans d"
    "\<And>k. reserved_of d k = pending_sum d k"
    "\<And>r. r \<in> set (requests d) \<Longrightarrow> request_ok r (rows_of (r_id r) d)"
    "no_overlap (requests d)"
  using assms unfolding db_inv_def by blast+

lemma reserved_is_pending:
  assumes "db_inv E n d"
  shows "reserved_of d k = sum_list (map days (filter (\<lambda>r. key_of r = k \<and> status r = RequestStatus.PENDING) (requests d)))"
proof -
  have "(if key_of r = k \<and> status r = RequestStatus.PENDING then days r else 0)
      = (if key_of r = k then pending_days r else 0)" for r
    by (simp add: pending_days_def)
  then show ?thesis
    using db_invD(5)[OF assms, of k] by (simp add: sum_filter_eq pending_sum_def)
qed

lemma pending_days_nonneg: "db_inv E n d \<Longrightarrow> r \<in> set (requests d) \<Longrightarrow> 0 \<le> pending_days r"
  using db_invD(6) by (fastforce simp: request_ok_def pending_days_def)

lemma pending_sum_nonneg: "db_inv E n d \<Longrightarrow> 0 \<le> pending_sum d k"
  unfolding pending_sum_def
  by (intro sum_list_map_nonneg) (simp add: pending_days_nonneg)

lemma pending_days_le_reserved:
  assumes "db_inv E n d" and "r \<in> set (requests d)"
  shows "pending_days r \<le> reserved_of d (key_of r)"
proof -
  have "(if key_of r = key_of r then pending_days r else 0) \<le> pending_sum d (key_of r)"
    unfolding pending_sum_def using assms
    by (intro member_le_sum_list_map) (auto simp: pending_days_nonneg)
  with db_invD(5)[OF assms(1)] show ?thesis by simp
qed

lemma rows_of_absent:
  assumes "no_orphans d" "i \<notin> r_id ` set (requests d)"
  shows "rows_of i d = []"
proof -
  have "aggregateId x \<noteq> i" if "x \<in> set (outbox d)" for x
    using assms that imageI[OF that, of aggregateId] unfolding no_orphans_def by blast
  then show ?thesis by (auto simp: rows_of_def filter_empty_conv)
qed

lemma fresh_id:
  assumes "inj (uuid E)" and "db_inv E n d"
  shows "uuid E n \<notin> r_id ` set (requests d)" "uuid E n \<notin> o_id ` set (outbox d)"
    "uuid E n \<notin> hcmIdempotencyKey ` set (requests d)" "rows_of (uuid E n) d = []"
proof -
  have f: "uuid E n \<notin> uuid E ` {..<n}"
    using assms(1) by (auto dest: injD)
  then show r: "uuid E n \<notin> r_id ` set (requests d)" and "uuid E n \<notin> o_id ` set (outbox d)"
    and "uuid E n \<notin> hcmIdempotencyKey ` set (requests d)"
    using assms(2) by (auto simp: db_inv_def ids_below_def)
  show "rows_of (uuid E n) d = []"
    using rows_of_absent[OF db_invD(4)[OF assms(2)] r] .
qed

section \<open>One request makes a transition\<close>

text \<open>
  The fields of a request that never change once it is stored.
\<close>

definition same_identity :: "request \<Rightarrow> request \<Rightarrow> bool" where
  "same_identity r r' =
     (r_id r' = r_id r \<and> key_of r' = key_of r \<and> startDate r' = startDate r \<and> endDate r' = endDate r
      \<and> days r' = days r \<and> hcmIdempotencyKey r' = hcmIdempotencyKey r)"

lemma replace_request_set:
  assumes "distinct (map r_id rs)" "r \<in> set rs"
  shows "set (update_where (\<lambda>y. r_id y = r_id r) (\<lambda>_. r') rs) = insert r' (set rs - {r})"
proof -
  have "set (update_where (\<lambda>y. r_id y = r_id r) (\<lambda>_. r') rs)
        = (\<lambda>y. if r_id y = r_id r then r' else y) ` set rs"
    by (simp add: update_where_def)
  also have "\<dots> = (\<lambda>y. if y = r then r' else y) ` set rs"
    using key_unique[OF assms(1) _ assms(2)] by (intro image_cong) auto
  also have "\<dots> = insert r' (set rs - {r})"
    using assms(2) by (auto simp: image_iff)
  finally show ?thesis .
qed

lemma map_replace_request:
  assumes "distinct (map r_id rs)" "r \<in> set rs" "g r' = g r"
  shows "map g (update_where (\<lambda>y. r_id y = r_id r) (\<lambda>_. r') rs) = map g rs"
proof (rule map_update_where_same)
  fix x assume "x \<in> set rs" "r_id x = r_id r"
  then have "x = r" using key_unique[OF assms(1) _ assms(2)] by metis
  then show "g r' = g x" using assms(3) by simp
qed

lemma upsert_existing:
  assumes "r \<in> set rs" "key r' = key r"
  shows "upsert_by key r' rs = update_where (\<lambda>y. key y = key r) (\<lambda>_. r') rs"
  using assms by (auto simp: upsert_by_def)

lemma upsert_new: "key x \<notin> key ` set rs \<Longrightarrow> upsert_by key x rs = rs @ [x]"
  unfolding upsert_by_def by (metis imageI)

lemma pending_sum_replace:
  assumes "distinct (map r_id (requests d))" "r \<in> set (requests d)" "key_of r' = key_of r"
    and "requests d' = update_where (\<lambda>y. r_id y = r_id r) (\<lambda>_. r') (requests d)"
  shows "pending_sum d' k =
         pending_sum d k + (if key_of r = k then pending_days r' - pending_days r else 0)"
  unfolding pending_sum_def assms(4)
  using sum_update_by_key[OF assms(1,2), of "\<lambda>x. if key_of x = k then pending_days x else 0" r']
    assms(3) by simp

lemma replace_keys_distinct:
  assumes inv: "keys_distinct d" and r: "r \<in> set (requests d)" and id: "same_identity r r'"
    and key: "idempotencyKey r' = idempotencyKey r \<or> idempotencyKey r' \<notin> idempotencyKey ` set (requests d)"
    and rs: "requests d' = update_where (\<lambda>y. r_id y = r_id r) (\<lambda>_. r') (requests d)"
    and ox: "distinct (map o_id (outbox d'))"
  shows "keys_distinct d'" "r_id ` set (requests d') = r_id ` set (requests d)"
proof -
  have dist: "distinct (map r_id (requests d))" "distinct (map idempotencyKey (requests d))"
    "distinct (map hcmIdempotencyKey (requests d))"
    using inv by (simp_all add: keys_distinct_def)
  have same: "map r_id (requests d') = map r_id (requests d)"
    "map hcmIdempotencyKey (requests d') = map hcmIdempotencyKey (requests d)"
    unfolding rs using id by (simp_all add: map_replace_request[OF dist(1) r] same_identity_def)
  show "r_id ` set (requests d') = r_id ` set (requests d)"
    using same(1) by (metis list.set_map)
  have "distinct (map idempotencyKey (requests d'))"
  proof (cases "idempotencyKey r' = idempotencyKey r")
    case True
    then have "map idempotencyKey (requests d') = map idempotencyKey (requests d)"
      unfolding rs by (simp add: map_replace_request[OF dist(1) r])
    with dist show ?thesis by simp
  next
    case False
    with key have new: "idempotencyKey r' \<notin> idempotencyKey ` set (requests d)" by simp
    have "inj_on idempotencyKey (set (requests d) - {r})"
      using dist(2) by (metis distinct_map inj_on_subset Diff_subset)
    then have "inj_on idempotencyKey (set (requests d'))"
      unfolding rs replace_request_set[OF dist(1) r] using new by (simp only: inj_on_insert) blast
    moreover have "distinct (requests d')"
      using same(1) dist(1) by (metis distinct_map)
    ultimately show ?thesis by (simp add: distinct_map)
  qed
  then show "keys_distinct d'"
    using dist ox same by (simp add: keys_distinct_def)
qed

lemma replace_ids_below:
  assumes ids: "ids_below E n d" and r: "r \<in> set (requests d)" and id: "same_identity r r'"
    and set': "set (requests d') = insert r' (set (requests d) - {r})"
    and ox: "\<forall>x \<in> set (outbox d'). o_id x \<in> uuid E ` {..<n}"
  shows "ids_below E n d'"
proof -
  have old: "r_id x \<in> uuid E ` {..<n} \<and> hcmIdempotencyKey x \<in> uuid E ` {..<n}"
    if "x \<in> set (requests d)" for x
    using ids that unfolding ids_below_def by blast
  have "r_id s \<in> uuid E ` {..<n} \<and> hcmIdempotencyKey s \<in> uuid E ` {..<n}"
    if "s \<in> set (requests d')" for s
  proof -
    have "s = r' \<or> s \<in> set (requests d)" using that set' by blast
    then show ?thesis using old[of s] old[OF r] id by (auto simp only: same_identity_def)
  qed
  then show ?thesis
    using ox unfolding ids_below_def by blast
qed

lemma replace_no_overlap:
  assumes inv: "no_overlap (requests d)" and r: "r \<in> set (requests d)" and id: "same_identity r r'"
    and set': "set (requests d') = insert r' (set (requests d) - {r})"
    and act: "status r' \<in> ACTIVE_STATUSES \<Longrightarrow> status r \<in> ACTIVE_STATUSES"
  shows "no_overlap (requests d')"
  unfolding no_overlap_def
proof (intro ballI impI)
  fix x y
  assume xy: "x \<in> set (requests d')" "y \<in> set (requests d')"
    and h: "r_id x \<noteq> r_id y \<and> key_of x = key_of y \<and> status x \<in> ACTIVE_STATUSES
            \<and> status y \<in> ACTIVE_STATUSES"
  have old: "\<exists>x0 \<in> set (requests d). r_id x0 = r_id x \<and> key_of x0 = key_of x \<and> startDate x0 = startDate x
      \<and> endDate x0 = endDate x \<and> status x0 \<in> ACTIVE_STATUSES"
    if "x \<in> set (requests d')" "status x \<in> ACTIVE_STATUSES" for x
    using that set' r act id by (auto simp: same_identity_def)
  obtain x0 y0 where "x0 \<in> set (requests d)" "y0 \<in> set (requests d)"
    "r_id x0 = r_id x" "key_of x0 = key_of x" "startDate x0 = startDate x" "endDate x0 = endDate x"
    "r_id y0 = r_id y" "key_of y0 = key_of y" "startDate y0 = startDate y" "endDate y0 = endDate y"
    "status x0 \<in> ACTIVE_STATUSES" "status y0 \<in> ACTIVE_STATUSES"
    using old[OF xy(1)] old[OF xy(2)] h by blast
  with inv h show "disjoint_ranges x y"
    unfolding no_overlap_def disjoint_ranges_def by metis
qed

lemma db_inv_transition:
  assumes inv: "db_inv E n d" and r: "r \<in> set (requests d)"
    and id: "same_identity r r'"
    and key: "idempotencyKey r' = idempotencyKey r \<or> idempotencyKey r' \<notin> idempotencyKey ` set (requests d)"
    and rs: "requests d' = update_where (\<lambda>y. r_id y = r_id r) (\<lambda>_. r') (requests d)"
    and ox: "\<And>i. i \<noteq> r_id r \<Longrightarrow> rows_of i d' = rows_of i d"
      "distinct (map o_id (outbox d'))" "\<forall>x \<in> set (outbox d'). o_id x \<in> uuid E ` {..<n}"
      "aggregateId ` set (outbox d') \<subseteq> r_id ` set (requests d)"
    and bal: "balances_keyed d'"
      "\<And>k. reserved_of d' k =
         reserved_of d k + (if key_of r = k then pending_days r' - pending_days r else 0)"
    and ok: "request_ok r' (rows_of (r_id r) d')"
    and act: "status r' \<in> ACTIVE_STATUSES \<Longrightarrow> status r \<in> ACTIVE_STATUSES"
  shows "db_inv E n d'"
proof -
  have dist: "distinct (map r_id (requests d))"
    using db_invD(2)[OF inv] by (simp add: keys_distinct_def)
  note set' = replace_request_set[OF dist r, of r', folded rs]
  note kd = replace_keys_distinct[OF db_invD(2)[OF inv] r id key rs ox(2)]
  have no: "no_orphans d'"
    using ox(4) kd(2) by (simp add: no_orphans_def)
  have res: "\<forall>k. reserved_of d' k = pending_sum d' k"
    using db_invD(5)[OF inv] bal(2) pending_sum_replace[OF dist r _ rs] id
    by (simp add: same_identity_def)
  have "request_ok s (rows_of (r_id s) d')" if s: "s \<in> set (requests d')" for s
  proof (cases "s = r'")
    case True
    with ok id show ?thesis by (simp add: same_identity_def)
  next
    case False
    with s set' have s': "s \<in> set (requests d)" "s \<noteq> r" by auto
    then have "r_id s \<noteq> r_id r" using key_unique[OF dist _ r] by blast
    with ox(1) db_invD(6)[OF inv s'(1)] show ?thesis by simp
  qed
  then show ?thesis
    using kd(1) replace_ids_below[OF db_invD(3)[OF inv] r id set' ox(3)]
      replace_no_overlap[OF db_invD(7)[OF inv] r id set' act] no res bal(1) unfolding db_inv_def by blast
qed

section \<open>A request is inserted\<close>

lemma db_inv_insert:
  assumes inv: "db_inv E n d" and rid: "r_id r \<notin> r_id ` set (requests d)"
    and hk: "hcmIdempotencyKey r \<notin> hcmIdempotencyKey ` set (requests d)"
    and ik: "idempotencyKey r \<notin> idempotencyKey ` set (requests d)"
    and ib: "r_id r \<in> uuid E ` {..<n}" "hcmIdempotencyKey r \<in> uuid E ` {..<n}"
    and st: "status r = RequestStatus.PENDING" "hcmAckAt r = None" "committedAt r = None"
      "0 < days r" "countBusinessDays (startDate r) (endDate r) {} = Inr (days r)"
      "str_le (startDate r) (endDate r)"
    and ov: "\<And>s. s \<in> set (requests d) \<Longrightarrow> key_of s = key_of r \<Longrightarrow> status s \<in> ACTIVE_STATUSES \<Longrightarrow>
               disjoint_ranges s r"
    and rs: "requests d' = requests d @ [r]" and ox: "outbox d' = outbox d"
    and bal: "balances_keyed d'"
      "\<And>k. reserved_of d' k = reserved_of d k + (if key_of r = k then days r else 0)"
  shows "db_inv E n d'"
proof -
  have rows: "rows_of i d' = rows_of i d" for i using ox by (simp add: rows_of_def)
  have "rows_of (r_id r) d = []"
    by (rule rows_of_absent[OF db_invD(4)[OF inv] rid])
  then have ok: "\<forall>s \<in> set (requests d'). request_ok s (rows_of (r_id s) d')"
    using db_invD(6)[OF inv] st rs
    by (auto simp: rows request_ok_def stamps_ok_def status_shape_def shape_def)
  have sums: "pending_sum d' k = pending_sum d k + (if key_of r = k then days r else 0)" for k
    using st(1) by (simp add: pending_sum_def rs pending_days_def)
  have sym: "disjoint_ranges x y \<longleftrightarrow> disjoint_ranges y x" for x y
    by (auto simp: disjoint_ranges_def)
  have "no_overlap (requests d')"
    unfolding no_overlap_def
  proof (intro ballI impI)
    fix x y
    assume "x \<in> set (requests d')" "y \<in> set (requests d')"
      and h: "r_id x \<noteq> r_id y \<and> key_of x = key_of y \<and> status x \<in> ACTIVE_STATUSES
              \<and> status y \<in> ACTIVE_STATUSES"
    then consider "x \<in> set (requests d)" "y \<in> set (requests d)" | "x = r" "y \<in> set (requests d)"
      | "y = r" "x \<in> set (requests d)"
      unfolding rs by auto
    then show "disjoint_ranges x y"
      by cases (use db_invD(7)[OF inv] ov sym h in \<open>unfold no_overlap_def, metis+\<close>)
  qed
  moreover have "keys_distinct d'" "no_orphans d'" "ids_below E n d'"
    using db_invD(2-4)[OF inv] rid hk ik ib
    by (auto simp: keys_distinct_def ids_below_def no_orphans_def rs ox)
  ultimately show ?thesis
    using db_invD(5)[OF inv] bal ok sums unfolding db_inv_def by simp
qed

section \<open>Only balance rows change\<close>

lemma db_inv_balances:
  assumes "db_inv E n d" "requests d' = requests d" "outbox d' = outbox d" "balances_keyed d'"
    and "\<And>k. reserved_of d' k = reserved_of d k"
  shows "db_inv E n d'"
  using assms unfolding db_inv_def keys_distinct_def ids_below_def no_orphans_def rows_of_def
    pending_sum_def by simp

end
