(* ===== verification/Leave_Account.thy ===== *)
theory Leave_Account
  imports System_Inv
begin

text \<open>
  What the service promises, without its machinery: an account of leave. It knows the available and
  reserved days per balance and, of every request, its balance, days and status. Asking for leave
  needs enough free days and reserves them; a request moves along the edges of the status machine,
  and each status says what the request keeps reserved or deducted; HCM may tell a new number of
  available days. Outbox, locks, retries, keys and dates are not part of it. \<open>Lifecycle\<close> makes
  the run of this machine part of the contract that every operation is proved to keep.
\<close>

section \<open>The abstract machine\<close>

record leave_account =
  acc_available :: "balance_pk \<Rightarrow> int"
  acc_reserved :: "balance_pk \<Rightarrow> int"
  acc_requests :: "string \<Rightarrow> (balance_pk \<times> int \<times> RequestStatus) option"

definition reserved_in :: "RequestStatus \<Rightarrow> int \<Rightarrow> int" where
  "reserved_in s n = (if s = RequestStatus.PENDING then n else 0)"

definition deducted_in :: "RequestStatus \<Rightarrow> int \<Rightarrow> int" where
  "deducted_in s n = (if s \<in> {RequestStatus.PENDING_SYNC, RequestStatus.APPROVED} then n else 0)"

definition status_edge :: "RequestStatus \<Rightarrow> RequestStatus \<Rightarrow> bool" where
  "status_edge s s' = (case s of
      RequestStatus.PENDING \<Rightarrow> s' \<in> {RequestStatus.PENDING_SYNC, RequestStatus.REJECTED,
                                 RequestStatus.CANCELLED, RequestStatus.EXPIRED}
    | RequestStatus.PENDING_SYNC \<Rightarrow> s' \<in> {RequestStatus.APPROVED, RequestStatus.REJECTED,
                                 RequestStatus.CANCELLED, RequestStatus.EXPIRED}
    | RequestStatus.APPROVED \<Rightarrow> s' = RequestStatus.CANCELLED
    | _ \<Rightarrow> False)"

lemma status_edge_simps [simp]:
  "status_edge RequestStatus.PENDING RequestStatus.PENDING_SYNC"
  "status_edge RequestStatus.PENDING_SYNC RequestStatus.APPROVED"
  "status_edge RequestStatus.APPROVED RequestStatus.CANCELLED"
  "s \<in> TERMINAL_STATUSES \<Longrightarrow> status_edge RequestStatus.PENDING s"
  "s \<in> TERMINAL_STATUSES \<Longrightarrow> status_edge RequestStatus.PENDING_SYNC s"
  by (auto simp: status_edge_def TERMINAL_STATUSES_def)

text \<open>
  What can happen to an account: leave is asked for, a request moves to another status, HCM tells a number of
  available days. \<open>act\<close> is the account afterwards, \<open>None\<close> when the action is not allowed.
\<close>

datatype action = Ask string balance_pk int | Move string RequestStatus | Tell balance_pk int

fun act :: "action \<Rightarrow> leave_account \<Rightarrow> leave_account option" where
  "act (Ask i k n) a =
     (if acc_requests a i = None \<and> 0 < n \<and> n \<le> acc_available a k - acc_reserved a k
      then Some (a\<lparr>acc_reserved := (acc_reserved a)(k := acc_reserved a k + n),
             acc_requests := (acc_requests a)(i \<mapsto> (k, n, RequestStatus.PENDING))\<rparr>)
      else None)"
| "act (Move i s') a =
     (case acc_requests a i of
        None \<Rightarrow> None
      | Some (k, n, s) \<Rightarrow>
          if status_edge s s'
          then Some (a\<lparr>
             acc_available := (acc_available a)(k := acc_available a k + deducted_in s n - deducted_in s' n),
             acc_reserved := (acc_reserved a)(k := acc_reserved a k + reserved_in s' n - reserved_in s n),
             acc_requests := (acc_requests a)(i \<mapsto> (k, n, s'))\<rparr>)
          else None)"
| "act (Tell k v) a = Some (a\<lparr>acc_available := (acc_available a)(k := v)\<rparr>)"

text \<open>One action; \<open>closed\<close>: HCM is not listened to, so days are only moved.\<close>

definition tells :: "action \<Rightarrow> bool" where
  "tells x = (case x of Tell _ _ \<Rightarrow> True | _ \<Rightarrow> False)"

definition account_step :: "bool \<Rightarrow> leave_account \<Rightarrow> leave_account \<Rightarrow> bool" where
  "account_step closed a b = (\<exists>x. act x a = Some b \<and> (closed \<longrightarrow> \<not> tells x))"

lemma account_stepI: "act x a = Some b \<Longrightarrow> \<not> tells x \<Longrightarrow> account_step closed a b"
  "act x a = Some b \<Longrightarrow> \<not> closed \<Longrightarrow> account_step closed a b"
  by (auto simp: account_step_def)

definition account_run :: "bool \<Rightarrow> leave_account \<Rightarrow> leave_account \<Rightarrow> bool" where
  "account_run closed = rtranclp (account_step closed)"

lemma account_run_refl [simp]: "account_run closed a a"
  by (simp add: account_run_def)

lemma account_run_trans: "account_run closed a b \<Longrightarrow> account_run closed b d \<Longrightarrow> account_run closed a d"
  unfolding account_run_def by (rule rtranclp_trans)

lemma account_run_step: "account_step closed a b \<Longrightarrow> account_run closed a b"
  by (simp add: account_run_def)

section \<open>The account kept by a database\<close>

definition available_of :: "database \<Rightarrow> balance_pk \<Rightarrow> int" where
  "available_of d k = (case balances d k of None \<Rightarrow> 0 | Some b \<Rightarrow> available b)"

definition account_of :: "database \<Rightarrow> leave_account" where
  "account_of d =
     \<lparr>acc_available = available_of d, acc_reserved = reserved_of d,
      acc_requests = (\<lambda>i. map_option (\<lambda>r. (key_of r, days r, status r))
                            (List.find (\<lambda>r. r_id r = i) (requests d)))\<rparr>"

definition committed_days :: "request \<Rightarrow> int" where
  "committed_days r =
     (if status r \<in> {RequestStatus.PENDING_SYNC, RequestStatus.APPROVED} then days r else 0)"

lemma days_in: "pending_days r = reserved_in (status r) (days r)" "committed_days r = deducted_in (status r) (days r)"
  by (simp_all add: pending_days_def reserved_in_def committed_days_def deducted_in_def)

lemma find_replaced:
  assumes "r \<in> set rs" "r_id r' = r_id r"
  shows "List.find (\<lambda>x. r_id x = i) (update_where (\<lambda>y. r_id y = r_id r) (\<lambda>_. r') rs) =
     (if i = r_id r then Some r' else List.find (\<lambda>x. r_id x = i) rs)"
proof (cases "i = r_id r")
  case True
  have "List.find (\<lambda>x. r_id x = r_id r) (map (\<lambda>y. if r_id y = r_id r then r' else y) rs) = Some r'"
    using assms by (induction rs) auto
  with True show ?thesis by (simp add: update_where_def)
next
  case False
  have "List.find (\<lambda>x. r_id x = i) (map (\<lambda>y. if r_id y = r_id r then r' else y) rs) = List.find (\<lambda>x. r_id x = i) rs"
    using False assms(2) by (induction rs) simp_all
  with False show ?thesis by (simp add: update_where_def)
qed

lemma find_appended:
  "List.find P (xs @ [x]) = (case List.find P xs of Some y \<Rightarrow> Some y | None \<Rightarrow> if P x then Some x else None)"
  by (induction xs) auto

text \<open>The account depends on these columns only.\<close>

lemma account_of_cong:
  assumes "available_of d' = available_of d" "reserved_of d' = reserved_of d" "requests d' = requests d"
  shows "account_of d' = account_of d"
  using assms by (simp add: account_of_def)

lemma account_move:
  assumes dist: "distinct (map r_id (requests d))" and r: "r \<in> set (requests d)"
    and id: "r_id r' = r_id r" "key_of r' = key_of r" "days r' = days r"
    and edge: "status r' = status r \<or> status_edge (status r) (status r')"
    and rs: "requests d' = update_where (\<lambda>y. r_id y = r_id r) (\<lambda>_. r') (requests d)"
    and res: "\<And>k. reserved_of d' k =
         reserved_of d k + (if key_of r = k then pending_days r' - pending_days r else 0)"
    and av: "\<And>k. available_of d' k =
         available_of d k - (if key_of r = k then committed_days r' - committed_days r else 0)"
  shows "account_run closed (account_of d) (account_of d')"
proof -
  have found: "List.find (\<lambda>x. r_id x = r_id r) (requests d) = Some r"
    using find_key_eq[OF dist r] by simp
  let ?a = "account_of d" and ?k = "key_of r" and ?n = "days r"
  have rq: "acc_requests (account_of d') = (acc_requests ?a)(r_id r \<mapsto> (?k, ?n, status r'))"
    using find_replaced[OF r id(1)] id(2,3) by (auto simp: account_of_def rs)
  have a: "acc_available (account_of d') = (acc_available ?a)(?k := acc_available ?a ?k
      + deducted_in (status r) ?n - deducted_in (status r') ?n)"
    using av by (auto simp: account_of_def fun_eq_iff days_in id(3))
  have q: "acc_reserved (account_of d') = (acc_reserved ?a)(?k := acc_reserved ?a ?k
      + reserved_in (status r') ?n - reserved_in (status r) ?n)"
    using res by (auto simp: account_of_def fun_eq_iff days_in id(3))
  have i: "acc_requests ?a (r_id r) = Some (?k, ?n, status r)"
    using found by (simp add: account_of_def)
  have d': "account_of d' = ?a\<lparr>
      acc_available := (acc_available ?a)(?k := acc_available ?a ?k + deducted_in (status r) ?n - deducted_in (status r') ?n),
      acc_reserved := (acc_reserved ?a)(?k := acc_reserved ?a ?k + reserved_in (status r') ?n - reserved_in (status r) ?n),
      acc_requests := (acc_requests ?a)(r_id r \<mapsto> (?k, ?n, status r'))\<rparr>"
    by (rule leave_account.equality) (simp_all add: a q rq)
  show ?thesis
  proof (cases "status r' = status r")
    case True
    then have "account_of d' = ?a"
      unfolding d' using i by (simp add: fun_upd_idem)
    then show ?thesis by simp
  next
    case False
    then show ?thesis
      using edge i account_stepI(1)[of "Move (r_id r) (status r')" ?a] unfolding d'
      by (intro account_run_step) (simp add: tells_def)
  qed
qed

lemma account_ask:
  assumes new: "r_id r \<notin> r_id ` set (requests d)" and rs: "requests d' = requests d @ [r]"
    and st: "status r = RequestStatus.PENDING" "0 < days r"
    and free: "days r \<le> available_of d (key_of r) - reserved_of d (key_of r)"
    and res: "\<And>k. reserved_of d' k = reserved_of d k + (if key_of r = k then days r else 0)"
    and av: "\<And>k. available_of d' k = available_of d k"
  shows "account_run closed (account_of d) (account_of d')"
proof -
  let ?a = "account_of d" and ?k = "key_of r"
  have none: "List.find (\<lambda>x. r_id x = r_id r) (requests d) = None"
    using new unfolding find_None_iff by (metis imageI)
  then have i: "acc_requests ?a (r_id r) = None" by (simp add: account_of_def)
  have "account_of d' = ?a\<lparr>acc_reserved := (acc_reserved ?a)(?k := acc_reserved ?a ?k + days r),
      acc_requests := (acc_requests ?a)(r_id r \<mapsto> (?k, days r, RequestStatus.PENDING))\<rparr>"
    using res av none st(1)
    by (intro leave_account.equality)
      (auto simp: account_of_def rs fun_eq_iff find_appended split: option.splits)
  then show ?thesis
    using i st(2) free account_stepI(1)[of "Ask (r_id r) ?k (days r)" ?a]
    by (intro account_run_step) (simp add: tells_def, simp add: account_of_def)
qed

lemma account_observe:
  assumes "requests d' = requests d" "\<And>k. reserved_of d' k = reserved_of d k"
    and "\<And>k'. k' \<noteq> k \<Longrightarrow> available_of d' k' = available_of d k'"
    and "closed \<Longrightarrow> available_of d' k = available_of d k"
  shows "account_run closed (account_of d) (account_of d')"
proof -
  let ?a = "account_of d"
  have d': "account_of d' = ?a\<lparr>acc_available := (acc_available ?a)(k := available_of d' k)\<rparr>"
    using assms(1-3) by (intro leave_account.equality) (auto simp: account_of_def fun_eq_iff)
  show ?thesis
  proof (cases closed)
    case True
    then show ?thesis unfolding d' using assms(4) by (simp add: account_of_def)
  next
    case False
    then show ?thesis
      unfolding d' by (intro account_run_step account_stepI(2)[of "Tell k (available_of d' k)"]) simp_all
  qed
qed

end
