(* ===== verification/Lifecycle.thy ===== *)
theory Lifecycle
  imports Leave_Account
begin

text \<open>
  How the database may evolve: requests move only along the edges of the status machine and keep
  their identity, outbox rows keep their payload and leave PENDING at most once, the two logs only
  grow. Together with the invariant and the conservation of days this is the contract \<open>safe\<close> that
  every operation is proved to keep.
\<close>

section \<open>Evolution of single rows\<close>

definition reaches :: "RequestStatus \<Rightarrow> RequestStatus \<Rightarrow> bool" where
  "reaches s s' = (s = s' \<or> (case s of
      RequestStatus.PENDING \<Rightarrow> s' \<noteq> RequestStatus.DRAFT
    | RequestStatus.PENDING_SYNC \<Rightarrow>
        s' \<in> {RequestStatus.APPROVED, RequestStatus.REJECTED, RequestStatus.CANCELLED,
              RequestStatus.EXPIRED}
    | RequestStatus.APPROVED \<Rightarrow> s' = RequestStatus.CANCELLED
    | _ \<Rightarrow> False))"

definition request_evolves :: "request \<Rightarrow> request \<Rightarrow> bool" where
  "request_evolves r r' =
     (same_identity r r' \<and> expiresAt r' = expiresAt r \<and> reaches (status r) (status r'))"

definition row_evolves :: "outbox_row \<Rightarrow> outbox_row \<Rightarrow> bool" where
  "row_evolves x x' =
     (o_id x' = o_id x \<and> aggregateId x' = aggregateId x \<and> operation x' = operation x
      \<and> payload x' = payload x \<and> o_idempotencyKey x' = o_idempotencyKey x
      \<and> o_createdAt x' = o_createdAt x \<and> attempts x \<le> attempts x'
      \<and> (o_status x = OutboxStatus.PENDING \<or> o_status x' = o_status x))"

definition all_evolve :: "('a \<Rightarrow> 'a \<Rightarrow> bool) \<Rightarrow> 'a list \<Rightarrow> 'a list \<Rightarrow> bool" where
  "all_evolve R xs ys = (\<forall>x \<in> set xs. \<exists>y \<in> set ys. R x y)"

definition lifecycle :: "database \<Rightarrow> database \<Rightarrow> bool" where
  "lifecycle d d' =
     (all_evolve request_evolves (requests d) (requests d')
      \<and> all_evolve row_evolves (outbox d) (outbox d')
      \<and> (\<exists>es. reconEvents d' = reconEvents d @ es)
      \<and> sequence ` set (batchSyncLog d) \<subseteq> sequence ` set (batchSyncLog d'))"

lemma reaches_refl [simp]: "reaches s s"
  by (simp add: reaches_def)

lemma reaches_trans: "reaches a b \<Longrightarrow> reaches b c \<Longrightarrow> reaches a c"
  by (cases a; cases b; cases c) (simp_all add: reaches_def)

lemma reaches_terminal: "reaches s s' \<Longrightarrow> s \<in> TERMINAL_STATUSES \<Longrightarrow> s' = s"
  by (cases s) (simp_all add: reaches_def)

lemma same_identity_trans: "same_identity a b \<Longrightarrow> same_identity b c \<Longrightarrow> same_identity a c"
  by (simp add: same_identity_def)

lemma request_evolves_refl [simp]: "request_evolves r r"
  by (simp add: request_evolves_def same_identity_def)

lemma request_evolves_trans:
  "request_evolves a b \<Longrightarrow> request_evolves b c \<Longrightarrow> request_evolves a c"
  unfolding request_evolves_def using same_identity_trans reaches_trans by metis

lemma row_evolves_refl [simp]: "row_evolves x x"
  by (simp add: row_evolves_def)

lemma row_evolves_trans: "row_evolves a b \<Longrightarrow> row_evolves b c \<Longrightarrow> row_evolves a c"
  by (auto simp: row_evolves_def)

lemma all_evolve_refl: "(\<And>x. R x x) \<Longrightarrow> all_evolve R xs xs"
  unfolding all_evolve_def by blast

lemma all_evolve_trans:
  assumes "all_evolve R xs ys" "all_evolve R ys zs" and "\<And>a b c. R a b \<Longrightarrow> R b c \<Longrightarrow> R a c"
  shows "all_evolve R xs zs"
  using assms unfolding all_evolve_def by meson

lemma all_evolve_append: "(\<And>x. R x x) \<Longrightarrow> all_evolve R xs (xs @ ys)"
  unfolding all_evolve_def by auto

lemma all_evolve_update:
  assumes "\<And>x. R x x" and "\<And>x. x \<in> set xs \<Longrightarrow> p x \<Longrightarrow> R x (f x)"
  shows "all_evolve R xs (update_where p f xs)"
  unfolding all_evolve_def
proof
  fix x assume "x \<in> set xs"
  then have "(if p x then f x else x) \<in> set (update_where p f xs)"
    unfolding in_set_update_where by blast
  moreover have "R x (if p x then f x else x)"
    using assms(1) assms(2)[OF \<open>x \<in> set xs\<close>] by simp
  ultimately show "\<exists>y \<in> set (update_where p f xs). R x y" by blast
qed

lemma requests_evolve_trans:
  "all_evolve request_evolves a b \<Longrightarrow> all_evolve request_evolves b c \<Longrightarrow> all_evolve request_evolves a c"
  by (rule all_evolve_trans) (assumption, assumption, rule request_evolves_trans)

lemma rows_evolve_trans:
  "all_evolve row_evolves a b \<Longrightarrow> all_evolve row_evolves b c \<Longrightarrow> all_evolve row_evolves a c"
  by (rule all_evolve_trans) (assumption, assumption, rule row_evolves_trans)

lemma lifecycle_refl [simp]: "lifecycle d d"
  by (simp add: lifecycle_def all_evolve_refl)

lemma lifecycle_trans: "lifecycle a b \<Longrightarrow> lifecycle b c \<Longrightarrow> lifecycle a c"
  unfolding lifecycle_def using requests_evolve_trans rows_evolve_trans
  by (elim conjE exE, intro conjI) (blast, blast, simp, blast)

section \<open>Conservation of days\<close>

definition committed_sum :: "database \<Rightarrow> balance_pk \<Rightarrow> int" where
  "committed_sum d k =
     sum_list (map (\<lambda>r. if key_of r = k then committed_days r else 0) (requests d))"

text \<open>The days of a balance before any approved request was deducted.\<close>

definition ledger :: "database \<Rightarrow> balance_pk \<Rightarrow> int" where
  "ledger d k = available_of d k + committed_sum d k"

text \<open>
  \<open>evolves c d d'\<close>: the rows evolve as above, the account makes a run of the abstract machine and,
  when \<open>c\<close> (the step reads nothing from HCM), every ledger is unchanged.
\<close>

definition evolves :: "bool \<Rightarrow> database \<Rightarrow> database \<Rightarrow> bool" where
  "evolves c d d' = (lifecycle d d' \<and> (c \<longrightarrow> (\<forall>k. ledger d' k = ledger d k))
     \<and> account_run c (account_of d) (account_of d'))"

definition safe :: "'h env \<Rightarrow> bool \<Rightarrow> database \<Rightarrow> 'h world \<Rightarrow> bool" where
  "safe E c d0 w = (world_inv E w \<and> evolves c d0 (db w))"

lemma evolves_refl [simp]: "evolves c d d"
  by (simp add: evolves_def)

lemma evolves_trans: "evolves c a b \<Longrightarrow> evolves c b d \<Longrightarrow> evolves c a d"
  unfolding evolves_def using lifecycle_trans account_run_trans by metis

lemma committed_sum_replace:
  assumes "distinct (map r_id (requests d))" "r \<in> set (requests d)" "key_of r' = key_of r"
    and "requests d' = update_where (\<lambda>y. r_id y = r_id r) (\<lambda>_. r') (requests d)"
  shows "committed_sum d' k =
         committed_sum d k + (if key_of r = k then committed_days r' - committed_days r else 0)"
  unfolding committed_sum_def assms(4)
  using sum_update_by_key[OF assms(1,2), of "\<lambda>x. if key_of x = k then committed_days x else 0" r']
    assms(3) by simp

section \<open>Changes to the outbox of one request\<close>

definition with_aggregate :: "string \<Rightarrow> outbox_row list \<Rightarrow> outbox_row list" where
  "with_aggregate i xs = filter (\<lambda>x. aggregateId x = i) xs"

lemma rows_of_aggregate: "rows_of i d = with_aggregate i (outbox d)"
  by (simp add: rows_of_def with_aggregate_def)

text \<open>\<open>xs\<close> becomes \<open>ys\<close> by changing or adding rows of request \<open>i\<close> only.\<close>

definition outbox_step :: "'h env \<Rightarrow> nat \<Rightarrow> string \<Rightarrow> outbox_row list \<Rightarrow> outbox_row list \<Rightarrow> bool" where
  "outbox_step E n i xs ys =
     ((\<forall>j. j \<noteq> i \<longrightarrow> with_aggregate j ys = with_aggregate j xs)
      \<and> distinct (map o_id ys) \<and> (\<forall>y \<in> set ys. o_id y \<in> uuid E ` {..<n})
      \<and> aggregateId ` set ys \<subseteq> insert i (aggregateId ` set xs)
      \<and> all_evolve row_evolves xs ys)"

lemma outbox_stepD:
  assumes "outbox_step E n i xs ys"
  shows "\<And>j. j \<noteq> i \<Longrightarrow> with_aggregate j ys = with_aggregate j xs" "distinct (map o_id ys)"
    "\<forall>y \<in> set ys. o_id y \<in> uuid E ` {..<n}"
    "aggregateId ` set ys \<subseteq> insert i (aggregateId ` set xs)" "all_evolve row_evolves xs ys"
  using assms unfolding outbox_step_def by blast+

lemma outbox_stepI:
  assumes "\<And>j. j \<noteq> i \<Longrightarrow> with_aggregate j ys = with_aggregate j xs" "distinct (map o_id ys)"
    "\<And>y. y \<in> set ys \<Longrightarrow> o_id y \<in> uuid E ` {..<n}"
    "aggregateId ` set ys \<subseteq> insert i (aggregateId ` set xs)" "all_evolve row_evolves xs ys"
  shows "outbox_step E n i xs ys"
  using assms unfolding outbox_step_def by blast

lemma outbox_step_trans:
  assumes "outbox_step E n i xs ys" "outbox_step E m i ys zs"
  shows "outbox_step E m i xs zs"
proof (rule outbox_stepI)
  show "with_aggregate j zs = with_aggregate j xs" if "j \<noteq> i" for j
    using outbox_stepD(1)[OF assms(1) that] outbox_stepD(1)[OF assms(2) that] by simp
  show "aggregateId ` set zs \<subseteq> insert i (aggregateId ` set xs)"
    using outbox_stepD(4)[OF assms(1)] outbox_stepD(4)[OF assms(2)] by blast
  show "all_evolve row_evolves xs zs"
    by (rule rows_evolve_trans[OF outbox_stepD(5)[OF assms(1)] outbox_stepD(5)[OF assms(2)]])
qed (use outbox_stepD(2,3)[OF assms(2)] in blast)+

lemma outbox_step_refl: "db_inv E n d \<Longrightarrow> outbox_step E n i (outbox d) (outbox d)"
  using db_invD(2,3)[of E n d]
  by (auto simp: outbox_step_def keys_distinct_def ids_below_def intro: all_evolve_refl)

lemma outbox_step_mono: "outbox_step E n i xs ys \<Longrightarrow> n \<le> m \<Longrightarrow> outbox_step E m i xs ys"
  unfolding outbox_step_def by (meson image_mono lessThan_subset_iff subsetD)

lemma filter_update_where:
  "(\<And>x. x \<in> set xs \<Longrightarrow> q x \<Longrightarrow> p (f x) = p x) \<Longrightarrow>
   filter p (update_where q f xs) = update_where q f (filter p xs)"
  by (induction xs) auto

lemma outbox_step_update:
  assumes "distinct (map o_id xs)" "\<forall>y \<in> set xs. o_id y \<in> uuid E ` {..<n}"
    and "\<And>x. x \<in> set xs \<Longrightarrow> q x \<Longrightarrow> aggregateId x = i \<and> row_evolves x (f x)"
  shows "outbox_step E n i xs (update_where q f xs)"
    "with_aggregate i (update_where q f xs) = update_where q f (with_aggregate i xs)"
proof -
  have agg: "with_aggregate j (update_where q f xs) = update_where q f (with_aggregate j xs)" for j
    unfolding with_aggregate_def using assms(3)
    by (intro filter_update_where) (simp add: row_evolves_def)
  then show "with_aggregate i (update_where q f xs) = update_where q f (with_aggregate i xs)" .
  have "with_aggregate j (update_where q f xs) = with_aggregate j xs" if "j \<noteq> i" for j
    unfolding agg using assms(3) that
    by (intro update_where_none) (auto simp: with_aggregate_def)
  moreover have "map o_id (update_where q f xs) = map o_id xs"
    using assms(3) by (intro map_update_where_same) (simp add: row_evolves_def)
  moreover have "map aggregateId (update_where q f xs) = map aggregateId xs"
    using assms(3) by (intro map_update_where_same) (simp add: row_evolves_def)
  moreover have "o_id ` set (update_where q f xs) = o_id ` set xs"
    using calculation(2) by (metis list.set_map)
  moreover have "aggregateId ` set (update_where q f xs) = aggregateId ` set xs"
    using calculation(3) by (metis list.set_map)
  moreover have "all_evolve row_evolves xs (update_where q f xs)"
    using assms(3) by (intro all_evolve_update) simp_all
  moreover have "o_id y \<in> uuid E ` {..<n}" if "y \<in> set (update_where q f xs)" for y
    using assms(2) imageI[OF that, of o_id] unfolding calculation(4) by auto
  ultimately show "outbox_step E n i xs (update_where q f xs)"
    using assms(1) by (intro outbox_stepI) (simp_all, blast)
qed

lemma outbox_step_append:
  assumes "distinct (map o_id xs)" "\<forall>y \<in> set xs. o_id y \<in> uuid E ` {..<n}"
    and "o_id x = uuid E n" "inj (uuid E)" "aggregateId x = i"
  shows "outbox_step E (Suc n) i xs (xs @ [x])"
    "with_aggregate i (xs @ [x]) = with_aggregate i xs @ [x]"
proof -
  have "uuid E n \<notin> uuid E ` {..<n}"
    using assms(4) by (auto dest: injD)
  then have "uuid E n \<notin> o_id ` set xs"
    using assms(2) by auto
  moreover have "uuid E ` {..<n} \<subseteq> uuid E ` {..<Suc n}" "uuid E n \<in> uuid E ` {..<Suc n}"
    by auto
  ultimately show "outbox_step E (Suc n) i xs (xs @ [x])"
    unfolding outbox_step_def using assms
    by (auto simp: with_aggregate_def intro!: all_evolve_append)
  show "with_aggregate i (xs @ [x]) = with_aggregate i xs @ [x]"
    using assms(5) by (simp add: with_aggregate_def)
qed

section \<open>A transition of one request\<close>

lemma transition:
  assumes inv: "db_inv E n d" and r: "r \<in> set (requests d)" and nm: "n \<le> m"
    and id: "request_evolves r r'" "idempotencyKey r' = idempotencyKey r"
    and edge: "status r' = status r \<or> status_edge (status r) (status r')"
    and rs: "requests d' = upsert_by r_id r' (requests d)"
    and ox: "outbox_step E m (r_id r) (outbox d) (outbox d')"
    and logs: "reconEvents d' = reconEvents d" "batchSyncLog d' = batchSyncLog d"
    and bal: "balances_keyed d'"
      "\<And>k. reserved_of d' k =
         reserved_of d k + (if key_of r = k then pending_days r' - pending_days r else 0)"
      "\<And>k. available_of d' k =
         available_of d k - (if key_of r = k then committed_days r' - committed_days r else 0)"
    and ok: "request_ok r' (with_aggregate (r_id r) (outbox d'))"
    and act: "status r' \<in> ACTIVE_STATUSES \<Longrightarrow> status r \<in> ACTIVE_STATUSES"
  shows "db_inv E m d' \<and> evolves c d d'"
proof -
  have ident: "same_identity r r'" "r_id r' = r_id r" "key_of r' = key_of r"
    using id by (simp_all add: request_evolves_def same_identity_def)
  have dist: "distinct (map r_id (requests d))"
    using db_invD(2)[OF inv] by (simp add: keys_distinct_def)
  have rs': "requests d' = update_where (\<lambda>y. r_id y = r_id r) (\<lambda>_. r') (requests d)"
    unfolding rs by (rule upsert_existing[OF r ident(2)])
  have oxs: "\<And>i. i \<noteq> r_id r \<Longrightarrow> rows_of i d' = rows_of i d" "distinct (map o_id (outbox d'))"
    "\<forall>x \<in> set (outbox d'). o_id x \<in> uuid E ` {..<m}"
    unfolding rows_of_aggregate using outbox_stepD[OF ox] by blast+
  have "r_id r \<in> r_id ` set (requests d)"
    using r by (rule imageI)
  then have agg: "aggregateId ` set (outbox d') \<subseteq> r_id ` set (requests d)"
    using outbox_stepD(4)[OF ox] db_invD(4)[OF inv] unfolding no_orphans_def
    by (meson insert_subset order_trans)
  have "db_inv E m d'"
  proof (rule db_inv_transition[OF db_inv_mono[OF inv nm] r ident(1) _ rs' oxs agg bal(1,2) _ act])
    show "idempotencyKey r' = idempotencyKey r \<or> idempotencyKey r' \<notin> idempotencyKey ` set (requests d)"
      using id(2) by simp
    show "request_ok r' (rows_of (r_id r) d')"
      using ok by (simp only: rows_of_aggregate)
  qed
  moreover have "all_evolve request_evolves (requests d) (requests d')"
    unfolding rs'
  proof (rule all_evolve_update)
    fix x assume "x \<in> set (requests d)" "r_id x = r_id r"
    then have "x = r" using key_unique[OF dist _ r] by metis
    then show "request_evolves x r'" using id(1) by simp
  qed simp
  moreover have "all_evolve row_evolves (outbox d) (outbox d')"
    using ox by (simp add: outbox_step_def)
  moreover have "ledger d' k = ledger d k" for k
    using bal(3)[of k] committed_sum_replace[OF dist r ident(3) rs', of k] by (simp add: ledger_def)
  moreover have "account_run c (account_of d) (account_of d')"
    by (rule account_move[OF dist r ident(2,3) _ edge rs' bal(2,3)])
      (use id(1) in \<open>simp add: request_evolves_def same_identity_def\<close>)
  ultimately show ?thesis
    using logs by (simp add: evolves_def lifecycle_def)
qed

end
