(* ===== verification/Balance_Rules.thy ===== *)
theory Balance_Rules
  imports Lifecycle
begin

text \<open>
  The balance operations as database updates: with a single writer \<open>saveWithRetry\<close> is one save, so
  each elementary mutation is \<open>change_balance\<close> of one row or a failure that writes nothing. The
  \<open>spec\<close> rules proved here let the handler proofs step over a balance call as over a primitive.
\<close>

section \<open>Change of one row\<close>

text \<open>The row a service call works on: the stored one, or the fresh zero row.\<close>

definition bal :: "database \<Rightarrow> balance_pk \<Rightarrow> balance" where
  "bal d k = (case balances d k of Some b \<Rightarrow> b | None \<Rightarrow> fresh_balance (fst k) (snd k))"

definition change_balance :: "(balance \<Rightarrow> balance) \<Rightarrow> balance_pk \<Rightarrow> database \<Rightarrow> database" where
  "change_balance f k d = set_balance (f (bal d k)) d"

definition keeps_pk :: "(balance \<Rightarrow> balance) \<Rightarrow> bool" where
  "keeps_pk f = (\<forall>b. pk_of (f b) = pk_of b)"

lemma keeps_pk_muts [simp]:
  "keeps_pk (mut_reserve n)" "keeps_pk (mut_release n)" "keeps_pk (mut_commit n)"
  "keeps_pk (mut_restore n)" "keeps_pk (mut_snapshot s)" "keeps_pk (mut_reconcile a q t)"
  "keeps_pk mut_clear_review"
  by (simp_all add: keeps_pk_def pk_of_def mut_reserve_def mut_release_def mut_commit_def
      mut_restore_def mut_snapshot_def mut_reconcile_def mut_clear_review_def)

lemma pk_of_bal: "balances_keyed d \<Longrightarrow> pk_of (bal d k) = k"
  unfolding balances_keyed_def bal_def
  by (cases k; cases "balances d k") (simp_all add: fresh_balance_def pk_of_def)

lemma pk_of_changed: "balances_keyed d \<Longrightarrow> keeps_pk f \<Longrightarrow> pk_of (f (bal d k)) = k"
  by (simp add: keeps_pk_def pk_of_bal)

lemma change_balance_simps [simp]:
  "requests (change_balance f k d) = requests d" "outbox (change_balance f k d) = outbox d"
  "batchSyncLog (change_balance f k d) = batchSyncLog d"
  "reconEvents (change_balance f k d) = reconEvents d"
  by (simp_all add: change_balance_def)

lemma balances_change:
  "balances_keyed d \<Longrightarrow> keeps_pk f \<Longrightarrow>
   balances (change_balance f k d) = (balances d)(k := Some (f (bal d k)))"
  by (simp add: change_balance_def pk_of_changed)

lemma balances_keyed_change: "balances_keyed d \<Longrightarrow> keeps_pk f \<Longrightarrow> balances_keyed (change_balance f k d)"
  using pk_of_changed[of d f k] by (simp add: balances_keyed_def balances_change del: split_paired_All)

lemma of_bal: "reserved (bal d k) = reserved_of d k" "available (bal d k) = available_of d k"
  by (simp_all add: bal_def reserved_of_def available_of_def fresh_balance_def split: option.splits)

lemma of_change:
  assumes "balances_keyed d" "keeps_pk f"
  shows "reserved_of (change_balance f k d) k' = (if k = k' then reserved (f (bal d k)) else reserved_of d k')"
    "available_of (change_balance f k d) k' = (if k = k' then available (f (bal d k)) else available_of d k')"
  using assms by (simp_all add: reserved_of_def available_of_def balances_change)

section \<open>saveWithRetry\<close>

lemma save_balance_sole:
  "sole_writer w \<Longrightarrow> fst (save_balance b w) \<noteq> Raise OptimisticLockVersionMismatchError"
  by (auto simp: save_balance_def next_fault_sole split: save_fault.splits)

lemma save_attempts_sole:
  assumes "sole_writer w"
  shows "save_attempts n f orig b w = save_balance b w"
  using save_balance_sole[OF assms, of b]
  by (cases n) (auto split: prod.splits outcome.splits exception.splits)

lemma saveWithRetry_sole: "sole_writer w \<Longrightarrow> saveWithRetry b f w = save_balance (f b) w"
  by (simp add: saveWithRetry_def save_attempts_sole)

lemma spec_saveWithRetry [spec_rules]:
  assumes "sole_writer w" "Q () ((drop_fault w)\<lparr>db := set_balance (f b) (db w)\<rparr>)" "F (drop_fault w)"
  shows "spec (saveWithRetry b f) Q F w"
proof -
  have "spec (save_balance (f b)) Q F w"
    using assms by (rule spec_save_balance)
  then show ?thesis by (simp add: spec_def saveWithRetry_sole assms(1))
qed

lemma findOrCreate_apply [svc_simps]: "findOrCreate e l w = (Ok (bal (db w) (e, l)), w)"
  by (auto simp: findOrCreate_def query_apply bal_def split: option.splits)

lemma andThen_findOrCreate [svc_simps]: "andThen (findOrCreate e l) f w = f (bal (db w) (e, l)) w"
  by (simp add: andThen_def findOrCreate_apply)

lemma spec_findOrCreate [spec_rules]: "Q (bal (db w) (e, l)) w \<Longrightarrow> spec (findOrCreate e l) Q F w"
  by (simp add: spec_def findOrCreate_apply)

section \<open>Rules for the balance operations\<close>

lemma spec_change:
  assumes "sole_writer w" "Q () ((drop_fault w)\<lparr>db := change_balance f (e, l) (db w)\<rparr>)"
    "F (drop_fault w)"
  shows "spec (andThen (findOrCreate e l) (\<lambda>b. saveWithRetry b f)) Q F w"
  using assms by (intro spec_rules) (simp_all add: change_balance_def)

lemmas spec_release [spec_rules] = spec_change[of _ _ "mut_release n" for n, folded release_def]
lemmas spec_commit [spec_rules] = spec_change[of _ _ "mut_commit n" for n, folded commit_def]
lemmas spec_restore [spec_rules] = spec_change[of _ _ "mut_restore n" for n, folded restore_def]

lemma spec_reserve [spec_rules]:
  assumes "sole_writer w"
    "n \<le> available_of (db w) (e, l) - reserved_of (db w) (e, l) \<Longrightarrow>
       Q () ((drop_fault w)\<lparr>db := change_balance (mut_reserve n) (e, l) (db w)\<rparr>)"
    "F (drop_fault w)" "F w"
  shows "spec (reserve e l n) Q F w"
  unfolding reserve_def using assms
  by (intro spec_rules) (simp_all add: change_balance_def of_bal)

lemma spec_applyHcmSnapshot [spec_rules]:
  assumes "sole_writer w"
    "Q () ((drop_fault w)\<lparr>db := change_balance (mut_snapshot s) (h_employeeId s, h_locationId s) (db w)\<rparr>)"
    "F (drop_fault w)"
  shows "spec (applyHcmSnapshot s) Q F w"
  unfolding applyHcmSnapshot_def using assms by (rule spec_change)

lemma spec_resolve:
  assumes "sole_writer w" "Q () ((drop_fault w)\<lparr>db := change_balance mut_clear_review (e, l) (db w)\<rparr>)"
    "F (drop_fault w)"
  shows "spec (andThen (findOrCreate e l) (\<lambda>b. saveWithRetry b mut_clear_review)) Q F w"
  using assms by (rule spec_change)

section \<open>A change of balance rows alone\<close>

lemma balance_change_safe:
  assumes inv: "db_inv E n d" and pk: "keeps_pk f" and res: "reserved (f (bal d k)) = reserved_of d k"
    and av: "c \<Longrightarrow> available (f (bal d k)) = available_of d k"
  shows "db_inv E n (change_balance f k d) \<and> evolves c d (change_balance f k d)"
proof -
  note keyed = db_invD(1)[OF inv]
  have r: "reserved_of (change_balance f k d) k' = reserved_of d k'" for k'
    using res by (cases "k = k'") (simp_all add: of_change[OF keyed pk])
  have a: "c \<Longrightarrow> available_of (change_balance f k d) k' = available_of d k'" for k'
    using av by (cases "k = k'") (simp_all add: of_change[OF keyed pk])
  have "db_inv E n (change_balance f k d)"
    by (rule db_inv_balances[OF inv]) (simp_all add: r balances_keyed_change[OF keyed pk])
  moreover have "committed_sum (change_balance f k d) k' = committed_sum d k'" for k'
    by (simp add: committed_sum_def)
  moreover have "account_run c (account_of d) (account_of (change_balance f k d))"
    by (rule account_observe[where k = k], simp, rule r, simp add: of_change[OF keyed pk], rule a)
  ultimately show ?thesis
    by (simp add: evolves_def lifecycle_def all_evolve_refl ledger_def a del: split_paired_All)
qed

end
