(* ===== verification/Transitions.thy ===== *)
theory Transitions
  imports Balance_Rules
begin

text \<open>
  The database transitions of the request life cycle, one lemma per edge of the status machine:
  what the bodies of the transactions write, as pure updates, keeps the invariant and evolves the
  database (\<open>Lifecycle\<close>). The handler proofs are applications of these lemmas.
\<close>

section \<open>Outbox rows of one request\<close>

lemma request_rows:
  assumes "db_inv E n d" "r \<in> set (requests d)"
  shows "request_ok r (with_aggregate (r_id r) (outbox d))"
  using db_invD(6)[OF assms] by (simp add: rows_of_aggregate)

lemma pending_no_rows:
  assumes "db_inv E n d" "r \<in> set (requests d)" "status r = RequestStatus.PENDING"
  shows "with_aggregate (r_id r) (outbox d) = []"
  using request_rows[OF assms(1,2)] assms(3) by (simp add: request_ok_def status_shape_def shape_def)

lemma shape_single:
  "shape rows = [(op, s)] \<longleftrightarrow> (\<exists>x. rows = [x] \<and> operation x = op \<and> o_status x = s)"
  by (cases rows) (auto simp: shape_def)

lemma shape_double:
  "shape rows = [(op, s), (op', s')] \<longleftrightarrow>
     (\<exists>x y. rows = [x, y] \<and> operation x = op \<and> o_status x = s \<and> operation y = op' \<and> o_status y = s')"
  by (cases rows; cases "tl rows") (auto simp: shape_def)

lemma sync_row:
  assumes "db_inv E n d" "r \<in> set (requests d)" "status r = RequestStatus.PENDING_SYNC"
  obtains x where "with_aggregate (r_id r) (outbox d) = [x]" "operation x = FILE"
    "o_status x = OutboxStatus.PENDING" "row_matches r x"
  using request_rows[OF assms(1,2)] assms(3)
  by (auto simp: request_ok_def status_shape_def shape_single)

lemma approved_row:
  assumes "db_inv E n d" "r \<in> set (requests d)" "status r = RequestStatus.APPROVED"
  obtains x where "with_aggregate (r_id r) (outbox d) = [x]" "operation x = FILE"
    "o_status x = SENT" "row_matches r x"
  using request_rows[OF assms(1,2)] assms(3)
  by (auto simp: request_ok_def status_shape_def shape_single)

lemma in_with_aggregate: "x \<in> set xs \<Longrightarrow> aggregateId x = i \<Longrightarrow> x \<in> set (with_aggregate i xs)"
  by (simp add: with_aggregate_def)

text \<open>The request of a row that is still to be sent.\<close>

lemma pending_file_row:
  assumes "db_inv E n d" "r \<in> set (requests d)" "x \<in> set (outbox d)" "aggregateId x = r_id r"
    "o_status x = OutboxStatus.PENDING" "operation x = FILE"
  shows "status r = RequestStatus.PENDING_SYNC" "with_aggregate (r_id r) (outbox d) = [x]"
  using request_rows[OF assms(1,2)] in_with_aggregate[OF assms(3,4)] assms(5,6)
  by (cases "status r"; auto simp: request_ok_def status_shape_def shape_single shape_double shape_def)+

lemma pending_reverse_row:
  assumes "db_inv E n d" "r \<in> set (requests d)" "x \<in> set (outbox d)" "aggregateId x = r_id r"
    "o_status x = OutboxStatus.PENDING" "operation x = REVERSE"
  obtains y where "with_aggregate (r_id r) (outbox d) = [y, x]" "operation y = FILE"
    "(status r = RequestStatus.REJECTED \<and> o_status y = FAILED)
     \<or> (status r = RequestStatus.CANCELLED \<and> o_status y = SENT)"
  using request_rows[OF assms(1,2)] in_with_aggregate[OF assms(3,4)] assms(5,6)
  by (cases "status r"; auto simp: request_ok_def status_shape_def shape_single shape_double shape_def)

section \<open>Balance effects of a transition\<close>

lemma release_reserved:
  assumes "db_inv E n d" "r \<in> set (requests d)" "status r = RequestStatus.PENDING"
  shows "max 0 (reserved_of d (key_of r) - days r) = reserved_of d (key_of r) - days r"
  using pending_days_le_reserved[OF assms(1,2)] assms(3) by (simp add: pending_days_def)

lemma release_effect:
  assumes "db_inv E n d" "r \<in> set (requests d)" "status r = RequestStatus.PENDING"
  shows "reserved_of (change_balance (mut_release (days r)) (key_of r) d) k
           = reserved_of d k - (if key_of r = k then days r else 0)"
    "available_of (change_balance (mut_release (days r)) (key_of r) d) k = available_of d k"
  using release_reserved[OF assms]
  by (cases "key_of r = k"; force simp: of_change[OF db_invD(1)[OF assms(1)]] mut_release_def of_bal)+

lemma commit_effect:
  assumes "db_inv E n d" "r \<in> set (requests d)" "status r = RequestStatus.PENDING"
  shows "reserved_of (change_balance (mut_commit (days r)) (key_of r) d) k
           = reserved_of d k - (if key_of r = k then days r else 0)"
    "available_of (change_balance (mut_commit (days r)) (key_of r) d) k
           = available_of d k - (if key_of r = k then days r else 0)"
  using release_reserved[OF assms]
  by (cases "key_of r = k"; force simp: of_change[OF db_invD(1)[OF assms(1)]] mut_commit_def of_bal)+

lemma restore_effect:
  assumes "balances_keyed d"
  shows "reserved_of (change_balance (mut_restore n) k0 d) k = reserved_of d k"
    "available_of (change_balance (mut_restore n) k0 d) k
       = available_of d k + (if k0 = k then n else 0)"
  by (simp_all add: of_change[OF assms] mut_restore_def of_bal)

lemma reserve_effect:
  assumes "balances_keyed d"
  shows "reserved_of (change_balance (mut_reserve n) k0 d) k
       = reserved_of d k + (if k0 = k then n else 0)"
    "available_of (change_balance (mut_reserve n) k0 d) k = available_of d k"
  by (simp_all add: of_change[OF assms] mut_reserve_def of_bal)

lemma keyed_simps [simp]:
  "balances_keyed (set_request r d) = balances_keyed d"
  "balances_keyed (set_outbox x d) = balances_keyed d"
  "balances_keyed (void_files i d) = balances_keyed d"
  by (simp_all add: balances_keyed_def void_files_def)

lemma of_simps [simp]:
  "reserved_of (set_request r d) = reserved_of d" "available_of (set_request r d) = available_of d"
  "reserved_of (set_outbox x d) = reserved_of d" "available_of (set_outbox x d) = available_of d"
  "reserved_of (void_files i d) = reserved_of d" "available_of (void_files i d) = available_of d"
  by (simp_all add: fun_eq_iff reserved_of_def available_of_def void_files_def)

lemma void_files_simps [simp]:
  "requests (void_files i d) = requests d" "balances (void_files i d) = balances d"
  "batchSyncLog (void_files i d) = batchSyncLog d" "reconEvents (void_files i d) = reconEvents d"
  "outbox (void_files i d) = update_where (voids i) void_row (outbox d)"
  by (simp_all add: void_files_def)

lemma void_files_change: "void_files i (change_balance f k d) = change_balance f k (void_files i d)"
  by (simp add: void_files_def change_balance_def set_balance_def bal_def)

lemma void_files_none:
  assumes "with_aggregate i (outbox d) = []"
  shows "void_files i d = d"
proof -
  have "update_where (voids i) void_row (outbox d) = outbox d"
    using assms by (intro update_where_none) (auto simp: voids_def with_aggregate_def filter_empty_conv)
  then show ?thesis by (simp add: void_files_def)
qed

lemma request_evolves_status:
  "reaches (status r) s \<Longrightarrow> request_evolves r (r\<lparr>status := s\<rparr>)"
  by (simp add: request_evolves_def same_identity_def)

lemma row_matches_status [simp]: "row_matches (r\<lparr>status := s\<rparr>) x = row_matches r x"
  by (simp add: row_matches_def buildFileCommand_def buildReverseCommand_def split: OutboxOperation.splits)

lemma row_matches_hcmAckAt [simp]: "row_matches (r\<lparr>hcmAckAt := a\<rparr>) x = row_matches r x"
  by (simp add: row_matches_def buildFileCommand_def buildReverseCommand_def split: OutboxOperation.splits)

lemma row_matches_committedAt [simp]: "row_matches (r\<lparr>committedAt := a\<rparr>) x = row_matches r x"
  by (simp add: row_matches_def buildFileCommand_def buildReverseCommand_def split: OutboxOperation.splits)

text \<open>The payload of a row is what \<open>row_matches\<close> looks at, not its status or attempts.\<close>

lemma row_matches_row [simp]:
  "row_matches r (x\<lparr>o_status := s\<rparr>) = row_matches r x"
  "row_matches r (x\<lparr>attempts := a\<rparr>) = row_matches r x"
  by (simp_all add: row_matches_def)

lemma row_matches_void: "row_matches r (void_row x) = row_matches r x"
  by (simp add: void_row_def)

lemma row_matches_key [simp]: "row_matches (r\<lparr>idempotencyKey := k\<rparr>) x = row_matches r x"
  by (simp add: row_matches_def buildFileCommand_def buildReverseCommand_def split: OutboxOperation.splits)

section \<open>Leaving PENDING and PENDING_SYNC without approval\<close>

lemma settle_pending:
  assumes inv: "db_inv E n d" and r: "r \<in> set (requests d)" "status r = RequestStatus.PENDING"
    and s: "s \<in> TERMINAL_STATUSES"
    and d': "d' = set_request (r\<lparr>status := s\<rparr>) (change_balance (mut_release (days r)) (key_of r) d)"
  shows "db_inv E n d' \<and> evolves c d d'"
proof (rule transition[OF inv r(1) order_refl])
  show "request_evolves r (r\<lparr>status := s\<rparr>)"
    using s r(2) by (intro request_evolves_status) (auto simp: reaches_def TERMINAL_STATUSES_def)
  show "outbox_step E n (r_id r) (outbox d) (outbox d')"
    by (simp add: d' outbox_step_refl[OF inv])
  show "balances_keyed d'"
    by (simp add: d' balances_keyed_change db_invD(1)[OF inv])
  show "request_ok (r\<lparr>status := s\<rparr>) (with_aggregate (r_id r) (outbox d'))"
    using request_rows[OF inv r(1)] pending_no_rows[OF inv r] s
    by (auto simp: d' request_ok_def stamps_ok_def status_shape_def shape_def TERMINAL_STATUSES_def)
  show "status (r\<lparr>status := s\<rparr>) = status r \<or> status_edge (status r) (status (r\<lparr>status := s\<rparr>))"
    using s r(2) by simp
qed (use s r(2) in \<open>auto simp: d' release_effect[OF inv r] pending_days_def committed_days_def
      terminal_not_active TERMINAL_STATUSES_def\<close>)

lemma db_inv_outbox_ids:
  assumes "db_inv E n d"
  shows "distinct (map o_id (outbox d))" "\<forall>y \<in> set (outbox d). o_id y \<in> uuid E ` {..<n}"
  using db_invD(2,3)[OF assms] by (simp_all add: keys_distinct_def ids_below_def)

lemma void_evolves: "voids i x \<Longrightarrow> aggregateId x = i \<and> row_evolves x (void_row x)"
  by (simp add: voids_def void_row_def row_evolves_def)

lemma void_step:
  assumes inv: "db_inv E n d"
  shows "outbox_step E n i (outbox d) (update_where (voids i) void_row (outbox d))"
    "with_aggregate i (update_where (voids i) void_row (outbox d))
       = update_where (voids i) void_row (with_aggregate i (outbox d))"
  using outbox_step_update[OF db_inv_outbox_ids[OF inv], of "voids i" i void_row]
    void_evolves by blast+

lemma settle_sync:
  assumes inv: "db_inv E n d" and r: "r \<in> set (requests d)" "status r = RequestStatus.PENDING_SYNC"
    and s: "s \<in> TERMINAL_STATUSES"
    and d': "d' = set_request (r\<lparr>status := s\<rparr>)
                    (change_balance (mut_restore (days r)) (key_of r) (void_files (r_id r) d))"
  shows "db_inv E n d' \<and> evolves c d d'"
proof (rule transition[OF inv r(1) order_refl])
  note keyed = db_invD(1)[OF inv]
  obtain x where x: "with_aggregate (r_id r) (outbox d) = [x]" "operation x = FILE"
    "o_status x = OutboxStatus.PENDING" "row_matches r x"
    by (rule sync_row[OF inv r])
  have ax: "aggregateId x = r_id r"
    using x(1) by (auto simp: with_aggregate_def filter_eq_Cons_iff)
  show "request_evolves r (r\<lparr>status := s\<rparr>)"
    using s r(2) by (intro request_evolves_status) (auto simp: reaches_def TERMINAL_STATUSES_def)
  show "outbox_step E n (r_id r) (outbox d) (outbox d')"
    by (simp add: d' void_step[OF inv])
  show "balances_keyed d'"
    by (simp add: d' balances_keyed_change keyed)
  have "with_aggregate (r_id r) (outbox d') = [void_row x]"
    using ax x by (simp add: d' void_step(2)[OF inv] voids_def)
  then show "request_ok (r\<lparr>status := s\<rparr>) (with_aggregate (r_id r) (outbox d'))"
    using request_rows[OF inv r(1)] s x(2) row_matches_void[of r x] x(4)
    by (auto simp: request_ok_def stamps_ok_def status_shape_def shape_def TERMINAL_STATUSES_def
        void_row_def)
  show "reserved_of d' k = reserved_of d k
          + (if key_of r = k then pending_days (r\<lparr>status := s\<rparr>) - pending_days r else 0)" for k
    using s r(2) by (auto simp: d' restore_effect keyed pending_days_def TERMINAL_STATUSES_def)
  show "available_of d' k = available_of d k
          - (if key_of r = k then committed_days (r\<lparr>status := s\<rparr>) - committed_days r else 0)" for k
    using s r(2) by (auto simp: d' restore_effect keyed committed_days_def TERMINAL_STATUSES_def)
qed (use s r(2) in \<open>simp_all add: d' terminal_not_active\<close>)

section \<open>Saving one outbox row\<close>

lemma replace_row:
  assumes inv: "db_inv E n d" and x: "x \<in> set (outbox d)" "aggregateId x = i"
    and ev: "row_evolves x x'"
  shows "outbox_step E n i (outbox d) (outbox (set_outbox x' d))"
    "with_aggregate i (outbox (set_outbox x' d))
       = update_where (\<lambda>y. o_id y = o_id x) (\<lambda>_. x') (with_aggregate i (outbox d))"
proof -
  note ids = db_inv_outbox_ids[OF inv]
  have "o_id x' = o_id x" using ev by (simp add: row_evolves_def)
  then have eq: "outbox (set_outbox x' d) = update_where (\<lambda>y. o_id y = o_id x) (\<lambda>_. x') (outbox d)"
    using upsert_existing[OF x(1), of o_id x'] by simp
  have "aggregateId y = i \<and> row_evolves y x'" if "y \<in> set (outbox d)" "o_id y = o_id x" for y
    using key_unique[OF ids(1) that(1) x(1) that(2)] x(2) ev by simp
  then show "outbox_step E n i (outbox d) (outbox (set_outbox x' d))"
    "with_aggregate i (outbox (set_outbox x' d))
       = update_where (\<lambda>y. o_id y = o_id x) (\<lambda>_. x') (with_aggregate i (outbox d))"
    unfolding eq using outbox_step_update[OF ids, of "\<lambda>y. o_id y = o_id x" i "\<lambda>_. x'"] by blast+
qed

lemma new_row:
  assumes ids: "distinct (map o_id xs)" "\<forall>y \<in> set xs. o_id y \<in> uuid E ` {..<n}" and inj: "inj (uuid E)"
    and x: "o_id x = uuid E n" "aggregateId x = i"
  shows "outbox_step E (Suc n) i xs (upsert_by o_id x xs)"
    "with_aggregate i (upsert_by o_id x xs) = with_aggregate i xs @ [x]"
proof -
  have "uuid E n \<notin> uuid E ` {..<n}"
    using inj by (auto dest: injD)
  then have "o_id x \<notin> o_id ` set xs"
    using ids(2) x(1) by auto
  then have eq: "upsert_by o_id x xs = xs @ [x]"
    by (rule upsert_new)
  show "outbox_step E (Suc n) i xs (upsert_by o_id x xs)"
    unfolding eq by (rule outbox_step_append(1)[OF ids x(1) inj x(2)])
  show "with_aggregate i (upsert_by o_id x xs) = with_aggregate i xs @ [x]"
    unfolding eq by (rule outbox_step_append(2)[OF ids x(1) inj x(2)])
qed

lemma built_row:
  "aggregateId (buildOutboxRow r op) = r_id r" "operation (buildOutboxRow r op) = op"
  "o_status (buildOutboxRow r op) = OutboxStatus.PENDING" "row_matches r (buildOutboxRow r op)"
  by (simp_all add: buildOutboxRow_def row_matches_def buildFileCommand_def buildReverseCommand_def
      operation_name_def split: OutboxOperation.splits)

lemma row_matches_id [simp]: "row_matches r (x\<lparr>o_id := i, o_createdAt := t\<rparr>) = row_matches r x"
  by (simp add: row_matches_def)

section \<open>Approval\<close>

lemma commit_pending:
  assumes inv: "db_inv E n d" and r: "r \<in> set (requests d)" "status r = RequestStatus.PENDING"
    and inj: "inj (uuid E)"
    and r': "r' = r\<lparr>committedAt := Some t, status := RequestStatus.PENDING_SYNC\<rparr>"
    and x: "x = (buildOutboxRow r' FILE)\<lparr>o_id := uuid E n, o_createdAt := u\<rparr>"
    and d': "d' = set_request r' (set_outbox x (change_balance (mut_commit (days r)) (key_of r) d))"
  shows "db_inv E (Suc n) d' \<and> evolves c d d'"
proof (rule transition[OF inv r(1) le_SucI[OF order_refl]])
  have id: "o_id x = uuid E n" "aggregateId x = r_id r" "operation x = FILE"
    "o_status x = OutboxStatus.PENDING" "row_matches r' x"
    using built_row[of r' FILE] by (simp_all add: x) (simp add: r')
  note row = new_row[OF db_inv_outbox_ids[OF inv] inj id(1,2)]
  show "request_evolves r r'"
    using r(2) by (simp add: r' request_evolves_def same_identity_def reaches_def)
  show "outbox_step E (Suc n) (r_id r) (outbox d) (outbox d')"
    using row(1) by (simp add: d')
  show "balances_keyed d'"
    by (simp add: d' balances_keyed_change db_invD(1)[OF inv])
  show "request_ok r' (with_aggregate (r_id r) (outbox d'))"
    using request_rows[OF inv r(1)] pending_no_rows[OF inv r] row(2) id r(2)
    by (simp add: d' request_ok_def stamps_ok_def status_shape_def shape_def) (simp add: r')
qed (use r(2) in \<open>simp_all add: d' r' commit_effect[OF inv r] pending_days_def committed_days_def\<close>)

lemma ack_file:
  assumes inv: "db_inv E n d" and r: "r \<in> set (requests d)"
    and x: "x \<in> set (outbox d)" "aggregateId x = r_id r" "o_status x = OutboxStatus.PENDING"
      "operation x = FILE"
    and r': "r' = r\<lparr>hcmAckAt := Some a, status := RequestStatus.APPROVED\<rparr>"
    and d': "d' = set_request r' (set_outbox (x\<lparr>o_status := SENT\<rparr>) d)"
  shows "db_inv E n d' \<and> evolves c d d'"
proof (rule transition[OF inv r order_refl])
  note sync = pending_file_row[OF inv r x]
  have ev: "row_evolves x (x\<lparr>o_status := SENT\<rparr>)"
    using x(3) by (simp add: row_evolves_def)
  note row = replace_row[OF inv x(1,2) ev]
  show "request_evolves r r'"
    using sync(1) by (simp add: r' request_evolves_def same_identity_def reaches_def)
  show "outbox_step E n (r_id r) (outbox d) (outbox d')"
    using row(1) by (simp add: d')
  show "balances_keyed d'"
    using db_invD(1)[OF inv] by (simp add: d')
  show "request_ok r' (with_aggregate (r_id r) (outbox d'))"
    using request_rows[OF inv r] row(2) sync x(4)
    by (simp add: d' request_ok_def stamps_ok_def status_shape_def shape_def) (simp add: r')
qed (use pending_file_row(1)[OF inv r x] in
    \<open>simp_all add: d' r' pending_days_def committed_days_def\<close>)

lemma ack_reverse:
  assumes inv: "db_inv E n d" and r: "r \<in> set (requests d)"
    and x: "x \<in> set (outbox d)" "aggregateId x = r_id r" "o_status x = OutboxStatus.PENDING"
      "operation x = REVERSE"
    and r': "r' = r\<lparr>hcmAckAt := Some a\<rparr>"
    and d': "d' = set_request r' (set_outbox (x\<lparr>o_status := SENT\<rparr>) d)"
  shows "db_inv E n d' \<and> evolves c d d'"
proof (rule transition[OF inv r order_refl])
  obtain y where y: "with_aggregate (r_id r) (outbox d) = [y, x]" "operation y = FILE"
    and st: "(status r = RequestStatus.REJECTED \<and> o_status y = FAILED)
     \<or> (status r = RequestStatus.CANCELLED \<and> o_status y = SENT)"
    by (rule pending_reverse_row[OF inv r x])
  have ev: "row_evolves x (x\<lparr>o_status := SENT\<rparr>)"
    using x(3) by (simp add: row_evolves_def)
  note row = replace_row[OF inv x(1,2) ev]
  have "o_id y \<noteq> o_id x"
    using key_unique[OF db_inv_outbox_ids(1)[OF inv] _ x(1), of y] y x(4)
    by (metis OutboxOperation.distinct(1) filter_is_subset list.set_intros(1) subsetD with_aggregate_def)
  then have "with_aggregate (r_id r) (outbox d') = [y, x\<lparr>o_status := SENT\<rparr>]"
    using row(2) y(1) by (simp add: d')
  then show "request_ok r' (with_aggregate (r_id r) (outbox d'))"
    using request_rows[OF inv r] y st x(3,4)
    by (auto simp: r' request_ok_def stamps_ok_def status_shape_def shape_def)
  show "request_evolves r r'"
    by (simp add: r' request_evolves_def same_identity_def)
  show "outbox_step E n (r_id r) (outbox d) (outbox d')"
    using row(1) by (simp add: d')
  show "balances_keyed d'"
    using db_invD(1)[OF inv] by (simp add: d')
qed (simp_all add: d' r' pending_days_def committed_days_def key_of_def)

section \<open>Cancelling an approved request\<close>

lemma cancel_approved:
  assumes inv: "db_inv E n d" and r: "r \<in> set (requests d)" "status r = RequestStatus.APPROVED"
    and inj: "inj (uuid E)"
    and r': "r' = r\<lparr>status := RequestStatus.CANCELLED\<rparr>"
    and x: "x = (buildOutboxRow r REVERSE)\<lparr>o_id := uuid E n, o_createdAt := u\<rparr>"
    and d': "d' = set_request r' (set_outbox x (change_balance (mut_restore (days r)) (key_of r) d))"
  shows "db_inv E (Suc n) d' \<and> evolves c d d'"
proof (rule transition[OF inv r(1) le_SucI[OF order_refl]])
  have id: "o_id x = uuid E n" "aggregateId x = r_id r" "operation x = REVERSE"
    "o_status x = OutboxStatus.PENDING" "row_matches r x"
    using built_row[of r REVERSE] by (simp_all add: x)
  note row = new_row[OF db_inv_outbox_ids[OF inv] inj id(1,2)]
  obtain y where y: "with_aggregate (r_id r) (outbox d) = [y]" "operation y = FILE"
    "o_status y = SENT" "row_matches r y"
    by (rule approved_row[OF inv r])
  show "request_evolves r r'"
    using r(2) by (simp add: r' request_evolves_def same_identity_def reaches_def)
  show "outbox_step E (Suc n) (r_id r) (outbox d) (outbox d')"
    using row(1) by (simp add: d')
  show "balances_keyed d'"
    by (simp add: d' balances_keyed_change db_invD(1)[OF inv])
  show "request_ok r' (with_aggregate (r_id r) (outbox d'))"
    using request_rows[OF inv r(1)] row(2) id r(2) y
    by (simp add: d' r' request_ok_def stamps_ok_def status_shape_def shape_def)
qed (use r(2) in \<open>simp_all add: d' r' restore_effect[OF db_invD(1)[OF inv]] pending_days_def
      committed_days_def\<close>)

section \<open>Failed dispatches\<close>

text \<open>Saving the row of an attempt, or giving a REVERSE row up: only the outbox changes.\<close>

lemma same_request_transition:
  assumes inv: "db_inv E n d" and r: "r \<in> set (requests d)"
    and d': "requests d' = requests d" "balances d' = balances d" "reconEvents d' = reconEvents d"
      "batchSyncLog d' = batchSyncLog d"
    and ox: "outbox_step E n (r_id r) (outbox d) (outbox d')"
    and ok: "request_ok r (with_aggregate (r_id r) (outbox d'))"
  shows "db_inv E n d' \<and> evolves c d d'"
proof (rule transition[OF inv r order_refl])
  have dist: "distinct (map r_id (requests d))"
    using db_invD(2)[OF inv] by (simp add: keys_distinct_def)
  have "update_where (\<lambda>y. r_id y = r_id r) (\<lambda>_. r) (requests d) = map id (requests d)"
    unfolding update_where_def
    by (rule map_cong[OF refl]) (metis id_apply key_unique[OF dist _ r])
  then show "requests d' = upsert_by r_id r (requests d)"
    using d'(1) upsert_existing[OF r, of r_id r] by simp
  show "balances_keyed d'"
    using db_invD(1)[OF inv] by (simp add: balances_keyed_def d'(2))
qed (use ox ok d' in \<open>simp_all add: reserved_of_def available_of_def\<close>)

lemma count_attempt:
  assumes inv: "db_inv E n d" and r: "r \<in> set (requests d)"
    and x: "x \<in> set (outbox d)" "aggregateId x = r_id r" and a: "attempts x \<le> a"
    and d': "d' = set_outbox (x\<lparr>attempts := a\<rparr>) d"
  shows "db_inv E n d' \<and> evolves c d d'"
proof (rule same_request_transition[OF inv r])
  have ev: "row_evolves x (x\<lparr>attempts := a\<rparr>)"
    using a by (simp add: row_evolves_def)
  note row = replace_row[OF inv x ev]
  show "outbox_step E n (r_id r) (outbox d) (outbox d')"
    using row(1) by (simp add: d')
  let ?ys = "with_aggregate (r_id r) (outbox d)"
  have eq: "y = x" if "y \<in> set ?ys" "o_id y = o_id x" for y
    using key_unique[OF db_inv_outbox_ids(1)[OF inv] _ x(1) that(2)] that(1)
    by (simp add: with_aggregate_def)
  have "shape (with_aggregate (r_id r) (outbox d')) = shape ?ys"
    unfolding d' shape_def row(2) by (rule map_update_where_same) (auto dest: eq)
  moreover have "row_matches r y" if "y \<in> set (with_aggregate (r_id r) (outbox d'))" for y
    using that row(2) eq request_rows[OF inv r] in_with_aggregate[OF x]
    unfolding d' request_ok_def by (auto simp: in_set_update_where split: if_splits)
  ultimately show "request_ok r (with_aggregate (r_id r) (outbox d'))"
    using request_rows[OF inv r] by (simp add: request_ok_def)
qed (simp_all add: d')

lemma fail_reverse:
  assumes inv: "db_inv E n d" and r: "r \<in> set (requests d)"
    and x: "x \<in> set (outbox d)" "aggregateId x = r_id r" "o_status x = OutboxStatus.PENDING"
      "operation x = REVERSE"
    and d': "d' = set_outbox (x\<lparr>o_status := FAILED\<rparr>) d"
  shows "db_inv E n d' \<and> evolves c d d'"
proof (rule same_request_transition[OF inv r])
  obtain y where y: "with_aggregate (r_id r) (outbox d) = [y, x]" "operation y = FILE"
    and st: "(status r = RequestStatus.REJECTED \<and> o_status y = FAILED)
     \<or> (status r = RequestStatus.CANCELLED \<and> o_status y = SENT)"
    by (rule pending_reverse_row[OF inv r x])
  have ev: "row_evolves x (x\<lparr>o_status := FAILED\<rparr>)"
    using x(3) by (simp add: row_evolves_def)
  note row = replace_row[OF inv x(1,2) ev]
  show "outbox_step E n (r_id r) (outbox d) (outbox d')"
    using row(1) by (simp add: d')
  have "o_id y \<noteq> o_id x"
    using key_unique[OF db_inv_outbox_ids(1)[OF inv] _ x(1), of y] y x(4)
    by (metis OutboxOperation.distinct(1) filter_is_subset list.set_intros(1) subsetD with_aggregate_def)
  then have "with_aggregate (r_id r) (outbox d') = [y, x\<lparr>o_status := FAILED\<rparr>]"
    using row(2) y(1) by (simp add: d')
  then show "request_ok r (with_aggregate (r_id r) (outbox d'))"
    using request_rows[OF inv r] y st x(3,4)
    by (auto simp: request_ok_def stamps_ok_def status_shape_def shape_def)
qed (simp_all add: d')

lemma fail_file:
  assumes inv: "db_inv E n d" and r: "r \<in> set (requests d)" and inj: "inj (uuid E)"
    and x: "x \<in> set (outbox d)" "aggregateId x = r_id r" "o_status x = OutboxStatus.PENDING"
      "operation x = FILE"
    and r': "r' = r\<lparr>status := RequestStatus.REJECTED\<rparr>"
    and z: "z = (buildOutboxRow r REVERSE)\<lparr>o_id := uuid E n, o_createdAt := u\<rparr>"
    and d': "d' = set_outbox z (set_request r' (set_outbox (x\<lparr>o_status := FAILED\<rparr>)
                   (change_balance (mut_restore (days r)) (key_of r) d)))"
  shows "db_inv E (Suc n) d' \<and> evolves c d d'"
proof (rule transition[OF inv r le_SucI[OF order_refl]])
  note sync = pending_file_row[OF inv r x]
  have ev: "row_evolves x (x\<lparr>o_status := FAILED\<rparr>)"
    using x(3) by (simp add: row_evolves_def)
  note row = replace_row[OF inv x(1,2) ev]
  have id: "o_id z = uuid E n" "aggregateId z = r_id r" "operation z = REVERSE"
    "o_status z = OutboxStatus.PENDING" "row_matches r z"
    using built_row[of r REVERSE] by (simp_all add: z)
  note new = new_row[OF outbox_stepD(2,3)[OF row(1)] inj id(1,2)]
  show "outbox_step E (Suc n) (r_id r) (outbox d) (outbox d')"
    using outbox_step_trans[OF row(1)] new(1) by (simp add: d')
  show "request_ok r' (with_aggregate (r_id r) (outbox d'))"
    using request_rows[OF inv r] row(2) new(2) sync x(4) id
    by (simp add: d' request_ok_def stamps_ok_def status_shape_def shape_def) (simp add: r')
  show "request_evolves r r'"
    using sync(1) by (simp add: r' request_evolves_def same_identity_def reaches_def)
  show "balances_keyed d'"
    by (simp add: d' balances_keyed_change db_invD(1)[OF inv])
qed (use pending_file_row(1)[OF inv r x] in
    \<open>simp_all add: d' r' restore_effect[OF db_invD(1)[OF inv]] pending_days_def committed_days_def\<close>)

section \<open>Creating a request\<close>

text \<open>The idempotency key of a request is replaced by one no other request has.\<close>

lemma rekey:
  assumes inv: "db_inv E n d" and r: "r \<in> set (requests d)"
    and key: "\<not> key_taken (r\<lparr>idempotencyKey := k\<rparr>) d"
    and rs: "requests d' = update_where (\<lambda>y. r_id y = r_id r) (\<lambda>_. r\<lparr>idempotencyKey := k\<rparr>) (requests d)"
    and same: "balances d' = balances d" "outbox d' = outbox d" "reconEvents d' = reconEvents d"
      "batchSyncLog d' = batchSyncLog d"
  shows "db_inv E n d' \<and> evolves c d d'"
proof -
  let ?r = "r\<lparr>idempotencyKey := k\<rparr>"
  have dist: "distinct (map r_id (requests d))"
    using db_invD(2)[OF inv] by (simp add: keys_distinct_def)
  have ident: "same_identity r ?r" "pending_days ?r = pending_days r" "committed_days ?r = committed_days r"
    by (simp_all add: same_identity_def pending_days_def committed_days_def)
  have rows: "rows_of i d' = rows_of i d" for i by (simp add: rows_of_def same)
  have keys: "k \<noteq> idempotencyKey s \<or> s = r" if "s \<in> set (requests d)" for s
    using key that key_unique[OF dist that r] by (auto simp: key_taken_def)
  have "db_inv E n d'"
  proof (rule db_inv_transition[OF inv r ident(1) _ rs rows])
    show "idempotencyKey ?r = idempotencyKey r \<or> idempotencyKey ?r \<notin> idempotencyKey ` set (requests d)"
      using keys by auto
    show "aggregateId ` set (outbox d') \<subseteq> r_id ` set (requests d)"
      using db_invD(4)[OF inv] by (simp add: same no_orphans_def)
    show "balances_keyed d'"
      using db_invD(1)[OF inv] by (simp add: balances_keyed_def same)
    show "request_ok ?r (rows_of (r_id r) d')"
      using db_invD(6)[OF inv r]
      by (simp add: rows request_ok_def stamps_ok_def)
  qed (use db_inv_outbox_ids[OF inv] in \<open>simp_all add: same ident reserved_of_def\<close>)
  moreover have "all_evolve request_evolves (requests d) (requests d')"
    unfolding rs
  proof (rule all_evolve_update)
    fix x assume "x \<in> set (requests d)" "r_id x = r_id r"
    then have "x = r" using key_unique[OF dist _ r] by metis
    then show "request_evolves x ?r" using ident(1) by (simp add: request_evolves_def)
  qed simp
  moreover have "ledger d' k' = ledger d k'" for k'
    using committed_sum_replace[OF dist r _ rs, of k'] ident
    by (simp add: ledger_def available_of_def same)
  moreover have "account_run c (account_of d) (account_of d')"
    by (rule account_move[OF dist r _ _ _ _ rs])
      (simp_all add: key_of_def ident reserved_of_def available_of_def same)
  ultimately show ?thesis
    by (simp add: evolves_def lifecycle_def same all_evolve_refl)
qed

text \<open>
  A terminal request gives up its idempotency key for a fresh one. The handler's copy \<open>r\<close> of the
  request may be older than the stored row \<open>r0\<close>.
\<close>

lemma rename_terminal:
  assumes inv: "db_inv E n d" and r: "r0 \<in> set (requests d)" "r_id r0 = r_id r"
    and key: "\<not> key_taken (r\<lparr>idempotencyKey := terminal_key r\<rparr>) d"
  shows "db_inv E n (rename_key r d) \<and> evolves c d (rename_key r d)"
proof (rule rekey[OF inv r(1)])
  have dist: "distinct (map r_id (requests d))"
    using db_invD(2)[OF inv] by (simp add: keys_distinct_def)
  show "requests (rename_key r d) = update_where (\<lambda>y. r_id y = r_id r0)
      (\<lambda>_. r0\<lparr>idempotencyKey := terminal_key r\<rparr>) (requests d)"
    unfolding rename_key_def update_where_def r(2)
    by (simp, intro ballI impI) (metis key_unique[OF dist _ r(1)] r(2))
  show "\<not> key_taken (r0\<lparr>idempotencyKey := terminal_key r\<rparr>) d"
    using key by (simp add: key_taken_def r(2))
qed (simp_all add: rename_key_def)

lemma create_request:
  assumes inv: "db_inv E n d" and inj: "inj (uuid E)" and rid: "r_id r = uuid E n"
    and hk: "hcmIdempotencyKey r \<in> uuid E ` {..<n}"
      "hcmIdempotencyKey r \<notin> hcmIdempotencyKey ` set (requests d)"
    and ik: "\<not> key_taken r d"
    and st: "status r = RequestStatus.PENDING" "hcmAckAt r = None" "committedAt r = None"
      "0 < days r" "countBusinessDays (startDate r) (endDate r) {} = Inr (days r)"
      "str_le (startDate r) (endDate r)"
    and ov: "\<And>s. s \<in> set (requests d) \<Longrightarrow> key_of s = key_of r \<Longrightarrow> status s \<in> ACTIVE_STATUSES \<Longrightarrow>
               disjoint_ranges s r"
    and free: "days r \<le> available_of d (key_of r) - reserved_of d (key_of r)"
    and d': "d' = change_balance (mut_reserve (days r)) (key_of r) (set_request r d)"
  shows "db_inv E (Suc n) d' \<and> evolves c d d'"
proof -
  note keyed = db_invD(1)[OF inv]
  have new: "r_id r \<notin> r_id ` set (requests d)"
    unfolding rid by (rule fresh_id(1)[OF inj inv])
  then have rs: "requests d' = requests d @ [r]"
    using upsert_new[OF new] by (simp add: d')
  have "idempotencyKey r \<notin> idempotencyKey ` set (requests d)"
  proof
    assume "idempotencyKey r \<in> idempotencyKey ` set (requests d)"
    then obtain s where s: "s \<in> set (requests d)" "idempotencyKey r = idempotencyKey s" by blast
    have "r_id s \<noteq> r_id r"
    proof
      assume e: "r_id s = r_id r"
      have "r_id s \<in> r_id ` set (requests d)" using s(1) by (rule imageI)
      with new show False unfolding e by blast
    qed
    with s ik show False by (auto simp: key_taken_def)
  qed
  then have "db_inv E (Suc n) d'"
    by (rule db_inv_insert[OF db_inv_mono[OF inv le_SucI[OF order_refl]] new hk(2) _ _ _ st ov rs])
      (use hk(1) rid keyed in \<open>auto simp: d' reserve_effect balances_keyed_change less_Suc_eq\<close>)
  moreover have "ledger d' k = ledger d k" for k
    using st(1) by (simp add: ledger_def committed_sum_def rs committed_days_def)
      (simp add: d' reserve_effect keyed)
  moreover have "account_run c (account_of d) (account_of d')"
    by (rule account_ask[OF new rs st(1,4) free]) (simp_all add: d' reserve_effect keyed)
  ultimately show ?thesis
    using all_evolve_append[of request_evolves "requests d" "[r]"] all_evolve_refl[of row_evolves "outbox d"]
    by (simp add: evolves_def lifecycle_def rs) (simp add: d')
qed

end
