(* ===== verification/Service_Inv.thy ===== *)
theory Service_Inv
  imports Transitions
begin

text \<open>
  Every operation of the balance and time-off services keeps the contract \<open>safe\<close>, on every branch:
  the normal return, each thrown exception, each failing save (the transaction rolls back) and the
  call that never returns. With \<open>c = True\<close> the statement includes that no ledger changes; it is
  available for the operations that read nothing from HCM.
\<close>

section \<open>Moving safe along\<close>

lemma safe_upd [simp]:
  "safe E c d0 (w\<lparr>held := h\<rparr>) = safe E c d0 w" "safe E c d0 (w\<lparr>hcm := x\<rparr>) = safe E c d0 w"
  "safe E c d0 (w\<lparr>clock := t\<rparr>) = safe E c d0 w" "safe E c d0 (w\<lparr>dbClock := t\<rparr>) = safe E c d0 w"
  by (simp_all add: safe_def world_inv_def)

lemma safe_drop_fault [simp]: "safe E c d0 w \<Longrightarrow> safe E c d0 (drop_fault w)"
  by (simp add: safe_def world_inv_def)

lemma safe_uuid [simp]: "safe E c d0 w \<Longrightarrow> safe E c d0 (w\<lparr>uuidNext := Suc (uuidNext w)\<rparr>)"
  by (simp add: safe_def world_inv_def db_inv_mono[OF _ le_SucI[OF order_refl]])

lemma safeD:
  assumes "safe E c d0 w"
  shows "sole_writer w" "db_inv E (uuidNext w) (db w)"
  using assms by (simp_all add: safe_def world_inv_def)

lemma safe_step:
  assumes "safe E c d0 w" "sole_writer w'" "db_inv E (uuidNext w') (db w') \<and> evolves c (db w) (db w')"
  shows "safe E c d0 w'"
  using assms evolves_trans by (auto simp: safe_def world_inv_def)

lemma safe_rollback:
  assumes "safe E c d0 w" "sole_writer w'" "uuidNext w \<le> uuidNext w'"
  shows "safe E c d0 (w'\<lparr>db := db w\<rparr>)"
  using assms db_inv_mono by (auto simp: safe_def world_inv_def)

text \<open>A transaction: the body makes one transition of the database, or fails and is undone.\<close>

lemma spec_tx:
  assumes "safe E c d0 w"
    and "spec m (\<lambda>x w'. sole_writer w' \<and> db_inv E (uuidNext w') (db w') \<and> evolves c (db w) (db w') \<and> R x w')
           (\<lambda>w'. sole_writer w' \<and> uuidNext w \<le> uuidNext w') w"
  shows "spec (transaction m) (\<lambda>x w'. safe E c d0 w' \<and> R x w') (\<lambda>w'. safe E c d0 w' \<and> db w' = db w) w"
  by (rule spec_transaction, rule spec_mono[OF assms(2)])
    (use safe_step[OF assms(1)] safe_rollback[OF assms(1)] in auto)

lemma spec_tx':
  assumes "safe E c d0 w"
    and "spec m (\<lambda>x w'. sole_writer w' \<and> db_inv E (uuidNext w') (db w') \<and> evolves c (db w) (db w'))
           (\<lambda>w'. sole_writer w' \<and> uuidNext w \<le> uuidNext w') w"
  shows "spec (transaction m) (\<lambda>_. safe E c d0) (safe E c d0) w"
  by (rule spec_mono[OF spec_tx[OF assms(1), of m "\<lambda>_ _. True"]]) (use assms(2) in simp_all)

lemma spec_prod [spec_rules]:
  "(\<And>x y. v = (x, y) \<Longrightarrow> spec (f x y) Q F w) \<Longrightarrow> spec (case v of (x, y) \<Rightarrow> f x y) Q F w"
  by (cases v) simp

lemma spec_unavailable [spec_rules]:
  "Q None w \<Longrightarrow> F w \<Longrightarrow>
   spec (case e of HcmUnavailableError _ \<Rightarrow> return None | _ \<Rightarrow> throw e) Q F w"
  by (cases e) (simp_all add: spec_return spec_throw)

lemma spec_findBalance [spec_rules]: "Q (balances (db w) (e, l)) w \<Longrightarrow> spec (findBalance e l) Q F w"
  by (simp add: findBalance_def spec_query)

lemma spec_findRequest [spec_rules]:
  assumes "List.find (\<lambda>r. r_id r = i) (requests (db w)) = None \<Longrightarrow> Q None w"
    and "\<And>r. r \<in> set (requests (db w)) \<Longrightarrow> r_id r = i \<Longrightarrow> Q (Some r) w"
  shows "spec (findRequest i) Q F w"
  unfolding findRequest_def
  by (rule spec_query, cases "List.find (\<lambda>r. r_id r = i) (requests (db w))")
    (use assms find_Some_in in fastforce)+

section \<open>Reading a balance\<close>

text \<open>What a read may change: one balance row, or the row of the pair HCM answered for.\<close>

definition only_balances :: "'h world \<Rightarrow> 'h world \<Rightarrow> bool" where
  "only_balances w w' =
     (requests (db w') = requests (db w) \<and> outbox (db w') = outbox (db w)
      \<and> uuidNext w' = uuidNext w \<and> clock w' = clock w)"

lemma only_balances_refl [simp]: "only_balances w w"
  by (simp add: only_balances_def)

lemma only_balances_trans: "only_balances a b \<Longrightarrow> only_balances b c \<Longrightarrow> only_balances a c"
  by (simp add: only_balances_def)

text \<open>A save of one balance row that moves the available days at most.\<close>

lemma balance_safe:
  assumes "safe E c d0 w" and "db w' = change_balance f k (db w)" "sole_writer w'"
    "uuidNext w' = uuidNext w" "keeps_pk f" "reserved (f (bal (db w) k)) = reserved_of (db w) k"
    "c \<Longrightarrow> available (f (bal (db w) k)) = available_of (db w) k"
  shows "safe E c d0 w'"
  by (rule safe_step[OF assms(1,3)])
    (use balance_change_safe[OF safeD(2)[OF assms(1)] assms(5-7)] in \<open>simp add: assms(2,4)\<close>)

lemma snapshot_safe:
  assumes "safe E False d0 w" and "db w' = change_balance (mut_snapshot s) k (db w)" "sole_writer w'"
    "uuidNext w' = uuidNext w"
  shows "safe E False d0 w'"
  by (rule balance_safe[OF assms]) (simp_all add: mut_snapshot_def of_bal)

lemma spec_hydrate:
  assumes "safe E False d0 w"
  shows "spec (hydrate E e l) (\<lambda>v w'. safe E False d0 w' \<and> only_balances w w')
           (\<lambda>w'. safe E False d0 w' \<and> only_balances w w') w"
  unfolding hydrate_def using assms safeD[OF assms]
  by (intro spec_rules) (auto intro: snapshot_safe[OF assms] simp: only_balances_def)

lemma spec_exclusive:
  assumes "spec m Q F (w\<lparr>held := k # held w\<rparr>)" "F w"
    and "\<And>x w' h. Q x w' \<Longrightarrow> Q x (w'\<lparr>held := h\<rparr>)" "\<And>w' h. F w' \<Longrightarrow> F (w'\<lparr>held := h\<rparr>)"
  shows "spec (runExclusive k m) Q F w"
  by (rule spec_runExclusive, rule spec_mono[OF assms(1)]) (use assms(2-4) in auto)

lemma only_balances_held [simp]:
  "only_balances (w\<lparr>held := h\<rparr>) w' = only_balances w w'"
  "only_balances w (w'\<lparr>held := h\<rparr>) = only_balances w w'"
  by (simp_all add: only_balances_def)

lemma fresh_row_safe:
  assumes "safe E c d0 w" "balances (db w) (e, l) = None"
  shows "safe E c d0 ((drop_fault w)\<lparr>db := set_balance (fresh_balance e l) (db w)\<rparr>)"
proof -
  have "bal (db w) (e, l) = fresh_balance e l"
    using assms(2) by (simp add: bal_def)
  then show ?thesis
    using safeD[OF assms(1)]
    by (intro balance_safe[OF assms(1), of _ "\<lambda>b. b" "(e, l)"])
      (simp_all add: change_balance_def keeps_pk_def flip: of_bal)
qed

lemma spec_getBalance:
  assumes "safe E False d0 w"
  shows "spec (getBalance E e l) (\<lambda>v w'. safe E False d0 w' \<and> only_balances w w')
           (\<lambda>w'. safe E False d0 w' \<and> only_balances w w') w"
  unfolding getBalance_def
proof (intro spec_andThen spec_findBalance spec_if)
  show "spec (return (map_option (\<lambda>b. (b, False)) (balances (db w) (e, l))))
          (\<lambda>v w'. safe E False d0 w' \<and> only_balances w w') (\<lambda>w'. safe E False d0 w' \<and> only_balances w w') w"
    using assms by (simp add: spec_return)
next
  assume "\<not> balanceLazyLoadEnabled E"
  show "spec (case balances (db w) (e, l) of
          None \<Rightarrow> andThen (save_balance (fresh_balance e l)) (\<lambda>_. return (Some (fresh_balance e l, False)))
        | Some b \<Rightarrow> return (Some (b, False)))
          (\<lambda>v w'. safe E False d0 w' \<and> only_balances w w') (\<lambda>w'. safe E False d0 w' \<and> only_balances w w') w"
    using assms safeD[OF assms]
    by (intro spec_rules) (simp_all add: fresh_row_safe only_balances_def)
next
  show "spec (runExclusive (balanceKey e l) (hydrate E e l))
          (\<lambda>v w'. safe E False d0 w' \<and> only_balances w w') (\<lambda>w'. safe E False d0 w' \<and> only_balances w w') w"
    by (rule spec_exclusive, rule spec_mono[OF spec_hydrate]) (use assms in auto)
qed

lemma spec_validateAvailability:
  assumes "safe E False d0 w"
  shows "spec (validateAvailability E e l n) (\<lambda>v w'. safe E False d0 w' \<and> only_balances w w')
           (\<lambda>w'. safe E False d0 w' \<and> only_balances w w') w"
  unfolding validateAvailability_def
  by (rule spec_andThen, rule spec_mono[OF spec_getBalance[OF assms]])
    (auto intro!: spec_rules split: option.splits prod.splits)

section \<open>Settling a request\<close>

lemma spec_release_and_reject:
  assumes "safe E c d0 w" "r \<in> set (requests (db w))" "status r = RequestStatus.PENDING"
  shows "spec (release_and_reject r) (\<lambda>_. safe E c d0) (\<lambda>w'. safe E c d0 w' \<and> db w' = db w) w"
proof -
  have "spec (release_and_reject r) (\<lambda>_ w'. safe E c d0 w' \<and> True)
          (\<lambda>w'. safe E c d0 w' \<and> db w' = db w) w"
    unfolding release_and_reject_def
    by (rule spec_tx[OF assms(1)], (intro spec_rules)) (use safeD[OF assms(1)] in
      \<open>simp_all add: settle_pending[OF safeD(2)[OF assms(1)] assms(2,3) _ refl] flip: key_of_def\<close>)
  then show ?thesis by simp
qed

lemma spec_voidPendingFileRows [spec_rules]:
  "Q () ((drop_fault w)\<lparr>db := void_files i (db w)\<rparr>) \<Longrightarrow> F (drop_fault w) \<Longrightarrow>
   spec (voidPendingFileRows i) Q F w"
  unfolding voidPendingFileRows_def by (rule spec_write_db)

lemma void_pending:
  assumes "safe E c d0 w" "r \<in> set (requests (db w))" "status r = RequestStatus.PENDING"
  shows "void_files (r_id r) (db w) = db w"
  by (rule void_files_none[OF pending_no_rows[OF safeD(2)[OF assms(1)] assms(2,3)]])

text \<open>The two bodies that settle a request with a terminal status.\<close>

lemma spec_settle_pending:
  assumes "safe E c d0 w" "r \<in> set (requests (db w))" "status r = RequestStatus.PENDING"
    "s \<in> TERMINAL_STATUSES"
  shows "spec (andThen (release (r_employeeId r) (r_locationId r) (days r)) (\<lambda>_.
              andThen (save_request (r\<lparr>status := s\<rparr>)) (\<lambda>_. return (r\<lparr>status := s\<rparr>))))
     (\<lambda>x w'. sole_writer w' \<and> db_inv E (uuidNext w') (db w') \<and> evolves c (db w) (db w'))
     (\<lambda>w'. sole_writer w' \<and> uuidNext w \<le> uuidNext w') w"
  by (intro spec_rules) (use safeD[OF assms(1)] in
    \<open>simp_all add: settle_pending[OF safeD(2)[OF assms(1)] assms(2-4) refl] flip: key_of_def\<close>)

lemma spec_settle_sync:
  assumes "safe E c d0 w" "r \<in> set (requests (db w))" "status r = RequestStatus.PENDING_SYNC"
    "s \<in> TERMINAL_STATUSES"
  shows "spec (andThen (restore_and_void r) (\<lambda>_.
              andThen (save_request (r\<lparr>status := s\<rparr>)) (\<lambda>_. return (r\<lparr>status := s\<rparr>))))
     (\<lambda>x w'. sole_writer w' \<and> db_inv E (uuidNext w') (db w') \<and> evolves c (db w) (db w'))
     (\<lambda>w'. sole_writer w' \<and> uuidNext w \<le> uuidNext w') w"
  unfolding restore_and_void_def
  by (intro spec_rules) (use safeD[OF assms(1)] in
    \<open>simp_all add: void_files_change settle_sync[OF safeD(2)[OF assms(1)] assms(2-4) refl]
       flip: key_of_def\<close>)

text \<open>The frame "load the request, 404 if it is absent".\<close>

lemma spec_found:
  assumes "F w" and "\<And>r. r \<in> set (requests (db w)) \<Longrightarrow> r_id r = i \<Longrightarrow> spec (f r) Q F w"
  shows "spec (andThen (findRequest i) (\<lambda>found. case found of None \<Rightarrow> throw e | Some r \<Rightarrow> f r)) Q F w"
  using assms by (intro spec_andThen spec_findRequest) (simp_all add: spec_throw)

lemma spec_guard:
  assumes "F w" and "\<not> b \<Longrightarrow> spec m Q F w"
  shows "spec (if b then throw e else m) Q F w"
  using assms by (simp add: spec_throw)

lemma spec_reject_tx:
  assumes s: "safe E c d0 w" and r: "r \<in> set (requests (db w))"
    and st: "status r = RequestStatus.PENDING \<or> status r = RequestStatus.PENDING_SYNC"
  shows "spec (transaction (andThen (if status r = RequestStatus.PENDING
            then release (r_employeeId r) (r_locationId r) (days r) else restore_and_void r)
          (\<lambda>_. andThen (save_request (r\<lparr>status := RequestStatus.REJECTED\<rparr>))
                (\<lambda>_. return (r\<lparr>status := RequestStatus.REJECTED\<rparr>)))))
      (\<lambda>_. safe E c d0) (safe E c d0) w"
  by (rule spec_tx'[OF s])
    (use st spec_settle_pending[OF s r] spec_settle_sync[OF s r] in
      \<open>cases "status r = RequestStatus.PENDING"; simp\<close>)

lemma spec_reject_locked:
  assumes "safe E c d0 w"
  shows "spec (reject_locked i) (\<lambda>_. safe E c d0) (safe E c d0) w"
  unfolding reject_locked_def
  by (intro spec_found spec_guard spec_reject_tx assms) auto

lemma spec_expire_tx:
  assumes s: "safe E c d0 w" and r: "r \<in> set (requests (db w))"
    and st: "status r = RequestStatus.PENDING \<or> status r = RequestStatus.PENDING_SYNC"
  shows "spec (transaction (andThen (if status r = RequestStatus.PENDING
            then andThen (release (r_employeeId r) (r_locationId r) (days r))
                   (\<lambda>_. voidPendingFileRows (r_id r))
            else restore_and_void r)
          (\<lambda>_. andThen (save_request (r\<lparr>status := RequestStatus.EXPIRED\<rparr>))
                (\<lambda>_. return (r\<lparr>status := RequestStatus.EXPIRED\<rparr>)))))
      (\<lambda>_. safe E c d0) (safe E c d0) w"
proof (rule spec_tx'[OF s])
  let ?save = "andThen (save_request (r\<lparr>status := RequestStatus.EXPIRED\<rparr>))
                (\<lambda>_. return (r\<lparr>status := RequestStatus.EXPIRED\<rparr>))"
  let ?Q = "\<lambda>_ w'. sole_writer w' \<and> db_inv E (uuidNext w') (db w') \<and> evolves c (db w) (db w')"
  let ?F = "\<lambda>w'. sole_writer w' \<and> uuidNext w \<le> uuidNext w'"
  have "spec (andThen (andThen (release (r_employeeId r) (r_locationId r) (days r))
          (\<lambda>_. voidPendingFileRows (r_id r))) (\<lambda>_. ?save)) ?Q ?F w"
    if p: "status r = RequestStatus.PENDING"
    by (intro spec_rules) (use safeD[OF s] in
      \<open>simp_all add: void_files_change void_pending[OF s r p]
         settle_pending[OF safeD(2)[OF s] r p _ refl] flip: key_of_def\<close>)
  then show "spec (andThen (if status r = RequestStatus.PENDING
            then andThen (release (r_employeeId r) (r_locationId r) (days r))
                   (\<lambda>_. voidPendingFileRows (r_id r))
            else restore_and_void r) (\<lambda>_. ?save)) ?Q ?F w"
    using st spec_settle_sync[OF s r]
    by (cases "status r = RequestStatus.PENDING") simp_all
qed

lemma spec_expire:
  assumes "safe E c d0 w"
  shows "spec (expire i) (\<lambda>_. safe E c d0) (safe E c d0) w"
  unfolding expire_def
  by (intro spec_found spec_guard spec_expire_tx assms) auto

lemma spec_insert_outbox [spec_rules]:
  assumes "Q () ((drop_fault w)\<lparr>uuidNext := Suc (uuidNext w),
             db := set_outbox (x\<lparr>o_id := uuid E (uuidNext w), o_createdAt := dbClock w\<rparr>) (db w)\<rparr>)"
    and "F ((drop_fault w)\<lparr>uuidNext := Suc (uuidNext w)\<rparr>)"
  shows "spec (insert_outbox E x) Q F w"
proof -
  have "drop_fault (w\<lparr>uuidNext := n\<rparr>) = (drop_fault w)\<lparr>uuidNext := n\<rparr>" for n
    by (simp add: drop_fault_def)
  then show ?thesis
    unfolding insert_outbox_def using assms
    by (intro spec_andThen spec_fresh_uuid)
      (simp add: spec_def save_outbox_def write_db_def next_fault_def split: save_fault.splits list.splits)
qed

text \<open>A FILE row of a PENDING_SYNC request is never SENT, so this branch of cancel always voids.\<close>

lemma sync_file_not_sent:
  assumes "db_inv E n d" "r \<in> set (requests d)" "status r = RequestStatus.PENDING_SYNC"
  shows "(case List.find (\<lambda>x. aggregateId x = r_id r \<and> operation x = FILE) (outbox d) of
            None \<Rightarrow> False | Some x \<Rightarrow> o_status x = SENT) = False"
proof (cases "List.find (\<lambda>x. aggregateId x = r_id r \<and> operation x = FILE) (outbox d)")
  case (Some y)
  obtain x where x: "with_aggregate (r_id r) (outbox d) = [x]" "o_status x = OutboxStatus.PENDING"
    by (rule sync_row[OF assms])
  have "y \<in> set (with_aggregate (r_id r) (outbox d))"
    using find_Some_in[OF Some] by (simp add: with_aggregate_def)
  with x Some show ?thesis by simp
qed simp

lemma spec_cancel_tx:
  assumes s: "safe E c d0 w" and inj: "inj (uuid E)" and r: "r \<in> set (requests (db w))"
    and st: "status r = RequestStatus.PENDING \<or> status r = RequestStatus.PENDING_SYNC
      \<or> status r = RequestStatus.APPROVED"
  shows "spec (transaction (andThen (cancel_effect E r) (\<lambda>_.
      andThen (save_request (r\<lparr>status := RequestStatus.CANCELLED\<rparr>))
                (\<lambda>_. return (r\<lparr>status := RequestStatus.CANCELLED\<rparr>)))))
      (\<lambda>_. safe E c d0) (safe E c d0) w"
proof (rule spec_tx'[OF s])
  from st consider (P) "status r = RequestStatus.PENDING" | (S) "status r = RequestStatus.PENDING_SYNC"
    | (A) "status r = RequestStatus.APPROVED"
    by blast
  then show "spec (andThen (cancel_effect E r) (\<lambda>_. andThen (save_request (r\<lparr>status := RequestStatus.CANCELLED\<rparr>))
                (\<lambda>_. return (r\<lparr>status := RequestStatus.CANCELLED\<rparr>))))
      (\<lambda>_ w'. sole_writer w' \<and> db_inv E (uuidNext w') (db w') \<and> evolves c (db w) (db w'))
      (\<lambda>w'. sole_writer w' \<and> uuidNext w \<le> uuidNext w') w"
  proof cases
    case P
    then show ?thesis
      unfolding cancel_effect_def
      by (simp only: simp_thms if_True, intro spec_rules) (use safeD[OF s] in
        \<open>simp_all add: void_pending[OF s r P]
           settle_pending[OF safeD(2)[OF s] r P _ refl] flip: key_of_def\<close>)
  next
    case S
    then show ?thesis
      unfolding cancel_effect_def findFileRow_def
      by (simp, intro spec_rules) (use safeD[OF s] in
        \<open>simp_all add: sync_file_not_sent[OF safeD(2)[OF s] r S]
           settle_sync[OF safeD(2)[OF s] r S _ refl] flip: key_of_def\<close>)
  next
    case A
    then show ?thesis
      unfolding cancel_effect_def restore_and_reverse_def
      by (simp, intro spec_rules) (use safeD[OF s] in
        \<open>simp_all add: cancel_approved[OF safeD(2)[OF s] r A inj refl refl refl] flip: key_of_def\<close>)
  qed
qed

lemma spec_cancel_locked:
  assumes "safe E c d0 w" and inj: "inj (uuid E)"
  shows "spec (cancel_locked E i) (\<lambda>_. safe E c d0) (safe E c d0) w"
  unfolding cancel_locked_def
  by (intro spec_found spec_if spec_throw spec_return spec_cancel_tx assms) auto

section \<open>Approval\<close>

lemma spec_commit_and_enqueue:
  assumes "safe E c d0 w" and inj: "inj (uuid E)"
    and r: "r \<in> set (requests (db w))" "status r = RequestStatus.PENDING"
  shows "spec (commit_and_enqueue E r t) (\<lambda>_. safe E c d0) (safe E c d0) w"
  unfolding commit_and_enqueue_def Let_def
  by (rule spec_tx'[OF assms(1)], (intro spec_rules)) (use safeD[OF assms(1)] in
    \<open>simp_all add: commit_pending[OF safeD(2)[OF assms(1)] r inj refl refl refl] flip: key_of_def\<close>)

lemma spec_refresh_from_hcm:
  assumes "safe E False d0 w" and r: "r \<in> set (requests (db w))" "status r = RequestStatus.PENDING"
  shows "spec (refresh_from_hcm E r)
     (\<lambda>x w'. safe E False d0 w' \<and> (x = None \<longrightarrow> r \<in> set (requests (db w'))))
     (\<lambda>w'. safe E False d0 w' \<and> r \<in> set (requests (db w'))) w"
  unfolding refresh_from_hcm_def
proof (intro spec_try_catch spec_andThen spec_call_hcm)
  let ?F = "\<lambda>w'. safe E False d0 w' \<and> r \<in> set (requests (db w'))"
  let ?Q = "\<lambda>x w'. safe E False d0 w' \<and> (x = None \<longrightarrow> r \<in> set (requests (db w')))"
  have check: "spec (if available b - reserved b < days r
                 then andThen (release_and_reject r) (\<lambda>r. return (Some r)) else return None) ?Q ?F w'"
    if "?F w'" for b :: balance and w'
    by (intro spec_if spec_andThen spec_mono[OF spec_release_and_reject])
      (use that r(2) in \<open>auto simp: spec_return\<close>)
  fix snap :: hcm_balance and h
  let ?read = "andThen (getBalance E (r_employeeId r) (r_locationId r))
    (\<lambda>v. case v of None \<Rightarrow> throw TypeError
             | Some (b, _) \<Rightarrow> if available b - reserved b < days r
                 then andThen (release_and_reject r) (\<lambda>r. return (Some r)) else return None)"
  have read: "spec ?read ?Q ?F w'" if "?F w'" for w'
  proof (rule spec_andThen, rule spec_mono[OF spec_getBalance])
    fix v :: balance_view and w'' assume "safe E False d0 w'' \<and> only_balances w' w''"
    then have "?F w''" using that by (simp add: only_balances_def)
    then show "spec (case v of None \<Rightarrow> throw TypeError
             | Some (b, _) \<Rightarrow> if available b - reserved b < days r
                 then andThen (release_and_reject r) (\<lambda>r. return (Some r)) else return None) ?Q ?F w''"
    proof (cases v)
      case None
      with \<open>?F w''\<close> show ?thesis by (simp add: spec_throw)
    next
      case (Some p)
      with check[OF \<open>?F w''\<close>, of "fst p"] show ?thesis
        by (simp only: option.case case_prod_unfold)
    qed
  qed (use that in \<open>auto simp: only_balances_def\<close>)
  have s: "safe E False d0 (w\<lparr>hcm := h\<rparr>)" using assms(1) by simp
  show "spec (applyHcmSnapshot snap) (\<lambda>_. spec ?read ?Q ?F) ?F (w\<lparr>hcm := h\<rparr>)"
  proof (rule spec_applyHcmSnapshot[OF safeD(1)[OF s]], rule read)
    show "safe E False d0 ((drop_fault (w\<lparr>hcm := h\<rparr>))\<lparr>db := change_balance (mut_snapshot snap)
            (h_employeeId snap, h_locationId snap) (db (w\<lparr>hcm := h\<rparr>))\<rparr>)
        \<and> r \<in> set (requests (db ((drop_fault (w\<lparr>hcm := h\<rparr>))\<lparr>db := change_balance (mut_snapshot snap)
            (h_employeeId snap, h_locationId snap) (db (w\<lparr>hcm := h\<rparr>))\<rparr>)))"
      using safeD[OF s] r by (auto intro: snapshot_safe[OF s])
  qed (use s r in simp)
qed (use assms in \<open>auto intro: spec_unavailable\<close>)

lemma spec_approve_locked:
  assumes "safe E False d0 w" and inj: "inj (uuid E)"
  shows "spec (approve_locked E i) (\<lambda>_. safe E False d0) (safe E False d0) w"
  unfolding approve_locked_def
proof (intro spec_found spec_guard spec_andThen spec_now spec_if assms(1))
  fix r assume r: "r \<in> set (requests (db w))" and "\<not> status r \<noteq> RequestStatus.PENDING"
  then have st: "status r = RequestStatus.PENDING" by simp
  show "spec (release_and_reject r) (\<lambda>_. safe E False d0) (safe E False d0) w"
    by (rule spec_mono[OF spec_release_and_reject[OF assms(1) r st]]) simp_all
  show "spec (refresh_from_hcm E r) (\<lambda>x. spec (case x of Some rejected \<Rightarrow> return rejected
          | None \<Rightarrow> andThen now (\<lambda>t2. commit_and_enqueue E r t2)) (\<lambda>_. safe E False d0) (safe E False d0))
        (safe E False d0) w"
  proof (rule spec_mono[OF spec_refresh_from_hcm[OF assms(1) r st]])
    fix x :: "request option" and w' assume q: "safe E False d0 w' \<and> (x = None \<longrightarrow> r \<in> set (requests (db w')))"
    show "spec (case x of Some rejected \<Rightarrow> return rejected
          | None \<Rightarrow> andThen now (\<lambda>t2. commit_and_enqueue E r t2)) (\<lambda>_. safe E False d0) (safe E False d0) w'"
      by (cases x) (use q in \<open>auto intro!: spec_return spec_andThen spec_now spec_commit_and_enqueue inj st\<close>)
  qed simp
qed

section \<open>Submission\<close>

text \<open>What the checks before the transaction establish about the row to be created.\<close>

definition creatable :: "'h env \<Rightarrow> request \<Rightarrow> 'h world \<Rightarrow> bool" where
  "creatable E req w =
     (status req = RequestStatus.PENDING \<and> hcmAckAt req = None \<and> committedAt req = None
      \<and> 0 < days req \<and> countBusinessDays (startDate req) (endDate req) {} = Inr (days req)
      \<and> str_le (startDate req) (endDate req)
      \<and> hcmIdempotencyKey req \<in> uuid E ` {..<uuidNext w}
      \<and> hcmIdempotencyKey req \<notin> hcmIdempotencyKey ` set (requests (db w))
      \<and> (\<forall>s \<in> set (requests (db w)). key_of s = key_of req \<longrightarrow> status s \<in> ACTIVE_STATUSES \<longrightarrow>
           disjoint_ranges s req))"

lemma rename_key_image:
  assumes "\<And>x k. f (x\<lparr>idempotencyKey := k\<rparr>) = f x"
  shows "f ` set (requests (rename_key r d)) = f ` set (requests d)"
proof -
  have "map f (requests (rename_key r d)) = map f (requests d)"
    unfolding rename_key_def using assms by (simp add: map_update_where_same)
  then show ?thesis by (metis list.set_map)
qed

lemma creatable_rename:
  assumes "creatable E req w" "db w' = rename_key r (db w)" "uuidNext w' = uuidNext w"
  shows "creatable E req w'"
proof -
  have "\<exists>s0 \<in> set (requests (db w)). key_of s0 = key_of s \<and> status s0 = status s
          \<and> startDate s0 = startDate s \<and> endDate s0 = endDate s"
    if "s \<in> set (requests (db w'))" for s
    using that unfolding assms(2) rename_key_def by (auto simp: in_set_update_where)
  then have "\<forall>s \<in> set (requests (db w')). key_of s = key_of req \<longrightarrow> status s \<in> ACTIVE_STATUSES \<longrightarrow>
      disjoint_ranges s req"
    using assms(1) unfolding creatable_def disjoint_ranges_def by metis
  moreover have "hcmIdempotencyKey ` set (requests (db w')) = hcmIdempotencyKey ` set (requests (db w))"
    unfolding assms(2) by (rule rename_key_image) simp
  ultimately show ?thesis
    using assms(1,3) by (simp add: creatable_def)
qed

lemma spec_free_terminal_key:
  assumes "\<not> key_taken (r\<lparr>idempotencyKey := terminal_key r\<rparr>) (db w) \<Longrightarrow>
      Q () ((drop_fault w)\<lparr>db := rename_key r (db w)\<rparr>)" "F (drop_fault w)"
  shows "spec (free_terminal_key r) Q F w"
  using assms by (simp add: spec_def free_terminal_key_def write_db_def split: save_fault.splits)

lemma spec_create_body:
  assumes s: "safe E c d0 w" and inj: "inj (uuid E)" and cr: "creatable E req w"
  shows "spec (andThen (fresh_uuid E) (\<lambda>i.
        andThen (save_request (req\<lparr>r_id := i\<rparr>)) (\<lambda>_.
        andThen (reserve (r_employeeId req) (r_locationId req) (days req)) (\<lambda>_.
        return (req\<lparr>r_id := i\<rparr>)))))
     (\<lambda>x w'. sole_writer w' \<and> db_inv E (uuidNext w') (db w') \<and> evolves c (db w) (db w'))
     (\<lambda>w'. sole_writer w' \<and> uuidNext w \<le> uuidNext w') w"
proof -
  let ?r = "req\<lparr>r_id := uuid E (uuidNext w)\<rparr>"
  have k: "key_of ?r = (r_employeeId req, r_locationId req)" by (simp add: key_of_def)
  have "db_inv E (Suc (uuidNext w)) (change_balance (mut_reserve (days ?r)) (key_of ?r) (set_request ?r (db w)))
        \<and> evolves c (db w) (change_balance (mut_reserve (days ?r)) (key_of ?r) (set_request ?r (db w)))"
    if "\<not> key_taken ?r (db w)" "days ?r \<le> available_of (db w) (key_of ?r) - reserved_of (db w) (key_of ?r)"
    by (rule create_request[OF safeD(2)[OF s] inj _ _ _ that(1) _ _ _ _ _ _ _ that(2) refl])
      (use cr in \<open>auto simp: creatable_def key_of_def disjoint_ranges_def\<close>)
  then show ?thesis
    using safeD[OF s] by (intro spec_rules) (simp_all add: k)
qed

lemma spec_create_and_reserve:
  assumes s: "safe E c d0 w" and inj: "inj (uuid E)" and cr: "creatable E req w"
    and ex: "\<And>r. existing = Some r \<Longrightarrow> \<exists>r0 \<in> set (requests (db w)). r_id r0 = r_id r"
  shows "spec (create_and_reserve E existing req) (\<lambda>_. safe E c d0) (safe E c d0) w"
  unfolding create_and_reserve_def
proof (rule spec_tx'[OF s], rule spec_andThen)
  let ?Q = "\<lambda>x w'. sole_writer w' \<and> db_inv E (uuidNext w') (db w') \<and> evolves c (db w) (db w')"
  let ?F = "\<lambda>w'. sole_writer w' \<and> uuidNext w \<le> uuidNext w'"
  let ?body = "andThen (fresh_uuid E) (\<lambda>i.
        andThen (save_request (req\<lparr>r_id := i\<rparr>)) (\<lambda>_.
        andThen (reserve (r_employeeId req) (r_locationId req) (days req)) (\<lambda>_.
        return (req\<lparr>r_id := i\<rparr>))))"
  have same: "spec ?body ?Q ?F w"
    by (rule spec_create_body[OF s inj cr])
  have renamed: "spec ?body ?Q ?F ((drop_fault w)\<lparr>db := rename_key r (db w)\<rparr>)"
    if r: "existing = Some r" "\<not> key_taken (r\<lparr>idempotencyKey := terminal_key r\<rparr>) (db w)" for r
  proof -
    let ?w = "(drop_fault w)\<lparr>db := rename_key r (db w)\<rparr>"
    obtain r0 where r0: "r0 \<in> set (requests (db w))" "r_id r0 = r_id r" using ex[OF r(1)] by blast
    note rn = rename_terminal[OF safeD(2)[OF s] r0 r(2), of c]
    have "safe E c d0 ?w"
      by (rule safe_step[OF s]) (use rn safeD[OF s] in simp_all)
    moreover have "creatable E req ?w"
      by (rule creatable_rename[OF cr]) simp_all
    ultimately have "spec ?body (\<lambda>x w'. sole_writer w' \<and> db_inv E (uuidNext w') (db w')
        \<and> evolves c (db ?w) (db w')) (\<lambda>w'. sole_writer w' \<and> uuidNext ?w \<le> uuidNext w') ?w"
      by (rule spec_create_body[OF _ inj])
    then show ?thesis
      by (rule spec_mono) (use rn evolves_trans in auto)
  qed
  show "spec (case existing of None \<Rightarrow> return ()
          | Some old \<Rightarrow> if status old \<in> TERMINAL_STATUSES then free_terminal_key old else return ())
        (\<lambda>_. spec ?body ?Q ?F) ?F w"
    using safeD[OF s]
    by (intro spec_option spec_if spec_return spec_free_terminal_key same renamed) simp_all
qed

lemma spec_lift_result [spec_rules]:
  "(\<And>e. r = Inl e \<Longrightarrow> F w) \<Longrightarrow> (\<And>x. r = Inr x \<Longrightarrow> Q x w) \<Longrightarrow> spec (lift_result r) Q F w"
  by (cases r) (simp_all add: lift_result_def spec_throw spec_return)

lemma countBusinessDays_order: "countBusinessDays s e h = Inr n \<Longrightarrow> str_le s e"
  by (auto simp: countBusinessDays_def str_le_def split: if_splits)

lemma creatable_new_request:
  assumes s: "safe E c d0 w" and inj: "inj (uuid E)"
    and n: "countBusinessDays startD endD {} = Inr n" "n \<noteq> 0"
    and ov: "List.find (overlaps e l startD endD) (requests (db w)) = None"
    and w': "db w' = db w" "uuidNext w' = Suc (uuidNext w)"
  shows "creatable E (new_request E e l startD endD key n t (uuid E (uuidNext w))) w'"
proof -
  have "0 < n" using countBusinessDays_nonneg[OF n(1)] n(2) by simp
  moreover have "disjoint_ranges r (new_request E e l startD endD key n t (uuid E (uuidNext w)))"
    if "r \<in> set (requests (db w))" "key_of r = (e, l)" "status r \<in> ACTIVE_STATUSES" for r
    using ov that unfolding find_None_all
    by (auto simp: overlaps_def disjoint_ranges_def new_request_def key_of_def terminal_not_active)
  ultimately show ?thesis
    using n(1) countBusinessDays_order[OF n(1)] fresh_id(3)[OF inj safeD(2)[OF s]]
    by (simp add: creatable_def w') (simp add: new_request_def key_of_def)
qed

lemma spec_submit_fresh:
  assumes s: "safe E False d0 w" and inj: "inj (uuid E)"
    and ex: "\<And>r. existing = Some r \<Longrightarrow> r \<in> set (requests (db w))"
  shows "spec (submit_fresh E e l startD endD key existing) (\<lambda>_. safe E False d0) (safe E False d0) w"
  unfolding submit_fresh_def findOverlapping_def
proof (intro spec_andThen spec_query spec_option spec_throw spec_lift_result spec_if spec_now s)
  fix n
  assume ov: "List.find (overlaps e l startD endD) (requests (db w)) = None"
    and n: "countBusinessDays startD endD {} = Inr n" "n \<noteq> 0"
  let ?finish = "\<lambda>t. andThen (fresh_uuid E) (\<lambda>hcmKey.
             andThen (create_and_reserve E existing (new_request E e l startD endD key n t hcmKey)) (\<lambda>req.
             andThen (findRequest (r_id req)) (\<lambda>saved.
             return (case saved of Some s \<Rightarrow> s | None \<Rightarrow> req))))"
  have "spec (?finish t) (\<lambda>_. safe E False d0) (safe E False d0) w'"
    if w': "safe E False d0 w'" "only_balances w w'" for t w'
  proof (rule spec_andThen, rule spec_fresh_uuid, rule spec_andThen)
    have ov': "List.find (overlaps e l startD endD) (requests (db w')) = None"
      using ov w'(2) by (simp add: only_balances_def)
    note cr = creatable_new_request[OF w'(1) inj n ov', where w' = "w'\<lparr>uuidNext := Suc (uuidNext w')\<rparr>"]
    show "spec (create_and_reserve E existing (new_request E e l startD endD key n t (uuid E (uuidNext w'))))
            (\<lambda>req. spec (andThen (findRequest (r_id req)) (\<lambda>saved.
               return (case saved of Some s \<Rightarrow> s | None \<Rightarrow> req))) (\<lambda>_. safe E False d0) (safe E False d0))
            (safe E False d0) (w'\<lparr>uuidNext := Suc (uuidNext w')\<rparr>)"
      by (rule spec_mono[OF spec_create_and_reserve[OF safe_uuid[OF w'(1)] inj cr]])
        (use w'(2) ex in \<open>auto simp: only_balances_def intro!: spec_andThen spec_findRequest spec_return\<close>)
  qed
  then show "spec (validateAvailability E e l n)
        (\<lambda>_. spec (andThen now ?finish) (\<lambda>_. safe E False d0) (safe E False d0)) (safe E False d0) w"
    by (intro spec_mono[OF spec_validateAvailability[OF s]]) (rule spec_andThen, rule spec_now, auto)
qed

lemma spec_submit_locked:
  assumes s: "safe E False d0 w" and inj: "inj (uuid E)"
  shows "spec (submit_locked E e l startD endD key) (\<lambda>_. safe E False d0) (safe E False d0) w"
  unfolding submit_locked_def findByIdempotencyKey_def
  by (intro spec_andThen spec_query spec_option spec_if spec_return spec_throw spec_submit_fresh s inj)
    (auto dest: find_Some_in)

section \<open>The public operations\<close>

lemma spec_prewarmed:
  assumes s: "safe E False d0 w"
    and m: "\<And>w'. safe E False d0 w' \<Longrightarrow> spec m (\<lambda>_. safe E False d0) (safe E False d0) w'"
  shows "spec (andThen (getBalance E e l) (\<lambda>_. runExclusive k m)) (\<lambda>_. safe E False d0) (safe E False d0) w"
proof (rule spec_andThen, rule spec_mono[OF spec_getBalance[OF s]])
  fix v :: balance_view and w' assume "safe E False d0 w' \<and> only_balances w w'"
  then show "spec (runExclusive k m) (\<lambda>_. safe E False d0) (safe E False d0) w'"
    by (intro spec_exclusive m) simp_all
qed simp

lemma spec_with_request_lock:
  assumes s: "safe E False d0 w"
    and m: "\<And>w'. safe E False d0 w' \<Longrightarrow> spec m (\<lambda>_. safe E False d0) (safe E False d0) w'"
  shows "spec (with_request_lock E i m) (\<lambda>_. safe E False d0) (safe E False d0) w"
  unfolding with_request_lock_def by (intro spec_found s spec_prewarmed m)

lemma submit_safe:
  "inj (uuid E) \<Longrightarrow> preserves (safe E False d0) (submit E e l startD endD key)"
  and approve_safe: "inj (uuid E) \<Longrightarrow> preserves (safe E False d0) (approve E i)"
  and reject_safe: "preserves (safe E False d0) (reject E i)"
  and cancel_safe: "inj (uuid E) \<Longrightarrow> preserves (safe E False d0) (cancel E i)"
  unfolding preserves_spec submit_def approve_def reject_def cancel_def
  by (intro allI impI spec_prewarmed spec_with_request_lock spec_submit_locked spec_approve_locked
      spec_reject_locked spec_cancel_locked; assumption)+

lemma getBalance_safe: "preserves (safe E False d0) (getBalance E e l)"
  unfolding preserves_spec by (auto intro: spec_mono[OF spec_getBalance])

lemma expire_safe: "preserves (safe E c d0) (expire i)"
  unfolding preserves_spec by (blast intro: spec_expire)

lemma clear_review_days [simp]:
  "reserved (mut_clear_review b) = reserved b" "available (mut_clear_review b) = available b"
  by (simp_all add: mut_clear_review_def)

lemma resolveReview_safe: "preserves (safe E c d0) (resolveReview e l)"
  unfolding preserves_spec resolveReview_def
proof (intro allI impI spec_exclusive)
  fix w assume s: "safe E c d0 w"
  show "spec (andThen (findOrCreate e l) (\<lambda>b. saveWithRetry b mut_clear_review)) (\<lambda>_. safe E c d0)
          (safe E c d0) (w\<lparr>held := balanceKey e l # held w\<rparr>)"
  proof (rule spec_change)
    show "safe E c d0 ((drop_fault (w\<lparr>held := balanceKey e l # held w\<rparr>))
        \<lparr>db := change_balance mut_clear_review (e, l) (db (w\<lparr>held := balanceKey e l # held w\<rparr>))\<rparr>)"
      by (rule balance_safe[OF s, of _ mut_clear_review "(e, l)"]) (use safeD[OF s] in \<open>simp_all add: of_bal\<close>)
  qed (use s safeD[OF s] in simp_all)
qed simp_all

end
