(* ===== verification/Outbox_Dispatcher.thy ===== *)
theory Outbox_Dispatcher
  imports Time_Off_Request
begin

text \<open>
  \<open>src/src/hcm/outbox-dispatcher.service.ts\<close>: one tick of the dispatcher (\<open>dispatchPending\<close>) and
  the dispatch of one row, in the source's three phases: transaction 1 counts the attempt, the HCM
  call runs outside any transaction, transaction 2 records its outcome.
\<close>

definition findOutbox :: "string \<Rightarrow> (outbox_row option, 'h) svc" where
  "findOutbox outboxId = query (\<lambda>d. List.find (\<lambda>x. o_id x = outboxId) (outbox d))"

text \<open>Transaction 1: re-read under the lock; \<open>None\<close> when there is nothing to do.\<close>

definition begin_attempt :: "string \<Rightarrow> ((outbox_row \<times> request) option, 'h) svc" where
  "begin_attempt outboxId =
     transaction
       (andThen (findOutbox outboxId) (\<lambda>found. case found of
          None \<Rightarrow> return None
        | Some row \<Rightarrow>
            if o_status row \<noteq> OutboxStatus.PENDING then return None
            else
              andThen (findRequest (aggregateId row)) (\<lambda>r. case r of
                None \<Rightarrow>
                  andThen (save_outbox (row\<lparr>o_status := FAILED\<rparr>)) (\<lambda>_. return None)
              | Some req \<Rightarrow>
                  andThen (save_outbox (row\<lparr>attempts := attempts row + 1\<rparr>)) (\<lambda>_.
                  return (Some (row\<lparr>attempts := attempts row + 1\<rparr>, req))))))"

text \<open>
  The HCM call: \<open>Some\<close> of the acknowledgement time on success, \<open>None\<close> on a negative answer or on
  any exception. An absent, empty or unreadable \<open>ackedAt\<close> is replaced by the clock.
\<close>

definition ack_time :: "int \<Rightarrow> string option \<Rightarrow> js_date" where
  "ack_time t acked = (case acked of
      None \<Rightarrow> Date_at t
    | Some s \<Rightarrow> if s = [] then Date_at t
                else (case js_Date_parse s of Invalid_Date \<Rightarrow> Date_at t | Date_at u \<Rightarrow> Date_at u))"

definition hcm_attempt :: "'h env \<Rightarrow> outbox_row \<Rightarrow> (js_date option, 'h) svc" where
  "hcm_attempt E row =
     try_catch
       (andThen (call_hcm (case operation row of
                    FILE \<Rightarrow> hcm_fileTimeOff E (payload row)
                  | REVERSE \<Rightarrow> hcm_reverseTimeOff E (payload row))) (\<lambda>res.
        andThen now (\<lambda>t.
        return (if ok res then Some (ack_time t (ackedAt res)) else None))))
       (\<lambda>_. return None)"

text \<open>Transaction 2, success path.\<close>

definition record_success :: "outbox_row \<Rightarrow> request \<Rightarrow> js_date \<Rightarrow> (unit, 'h) svc" where
  "record_success row req acked =
     (let req' = (if operation row = FILE
                  then req\<lparr>hcmAckAt := Some acked, status := RequestStatus.APPROVED\<rparr>
                  else req\<lparr>hcmAckAt := Some acked\<rparr>)
      in andThen (save_outbox (row\<lparr>o_status := SENT\<rparr>)) (\<lambda>_. save_request req'))"

text \<open>Transaction 2, failure path: retry later, or compensate at the retry cap.\<close>

definition record_failure :: "'h env \<Rightarrow> outbox_row \<Rightarrow> request \<Rightarrow> (unit, 'h) svc" where
  "record_failure E row req =
     (if attempts row < hcmRetryMaxAttempts E then save_outbox row
      else if operation row = FILE then
        andThen (restore (r_employeeId req) (r_locationId req) (days req)) (\<lambda>_.
        andThen (save_outbox (row\<lparr>o_status := FAILED\<rparr>)) (\<lambda>_.
        andThen (save_request (req\<lparr>status := RequestStatus.REJECTED\<rparr>)) (\<lambda>_.
        insert_outbox E (buildOutboxRow req REVERSE))))
      else save_outbox (row\<lparr>o_status := FAILED\<rparr>))"

definition finish_attempt ::
  "'h env \<Rightarrow> outbox_row \<Rightarrow> request \<Rightarrow> js_date option \<Rightarrow> (unit, 'h) svc" where
  "finish_attempt E row req outcome =
     transaction (case outcome of
         Some acked \<Rightarrow> record_success row req acked
       | None \<Rightarrow> record_failure E row req)"

definition dispatch_locked :: "'h env \<Rightarrow> string \<Rightarrow> (unit, 'h) svc" where
  "dispatch_locked E outboxId =
     andThen (begin_attempt outboxId) (\<lambda>started. case started of
       None \<Rightarrow> return ()
     | Some (row, req) \<Rightarrow> andThen (hcm_attempt E row) (finish_attempt E row req))"

definition dispatchOne :: "'h env \<Rightarrow> string \<Rightarrow> (unit, 'h) svc" where
  "dispatchOne E outboxId =
     andThen (findOutbox outboxId) (\<lambda>found. case found of
       None \<Rightarrow> return ()
     | Some row \<Rightarrow>
         if o_status row \<noteq> OutboxStatus.PENDING then return ()
         else
           andThen (findRequest (aggregateId row)) (\<lambda>r. case r of
             None \<Rightarrow> return ()
           | Some req \<Rightarrow>
               runExclusive (balanceKey (r_employeeId req) (r_locationId req))
                 (dispatch_locked E outboxId)))"

text \<open>PENDING rows oldest first; rows with one creation time keep their order in the table.\<close>

definition pendingRows :: "database \<Rightarrow> outbox_row list" where
  "pendingRows d = sort_key o_createdAt (filter (\<lambda>x. o_status x = OutboxStatus.PENDING) (outbox d))"

definition dispatchPending :: "'h env \<Rightarrow> (unit, 'h) svc" where
  "dispatchPending E =
     andThen (query pendingRows) (\<lambda>rows. for_each (\<lambda>row. dispatchOne E (o_id row)) rows)"

end
