(* ===== verification/Reservation_Reaper.thy ===== *)
theory Reservation_Reaper
  imports Time_Off_Request
begin

text \<open>
  \<open>src/src/reservation-reaper/reservation-reaper.service.ts\<close>: the scheduled sweep over requests
  whose reservation has passed its time to live. An exception of one expiry is logged and
  skipped.
\<close>

definition sweepable :: "int \<Rightarrow> request \<Rightarrow> bool" where
  "sweepable t r =
     (expiresAt r \<le> t \<and> status r \<in> {RequestStatus.PENDING, RequestStatus.PENDING_SYNC})"

definition expire_one :: "request \<Rightarrow> (unit, 'h) svc" where
  "expire_one req =
     runExclusive (balanceKey (r_employeeId req) (r_locationId req))
       (try_catch (andThen (expire (r_id req)) (\<lambda>_. return ())) (\<lambda>_. return ()))"

definition sweep :: "(unit, 'h) svc" where
  "sweep =
     andThen now (\<lambda>t.
     andThen (query (\<lambda>d. filter (sweepable t) (requests d))) (\<lambda>expired.
     for_each expire_one expired))"

end
