(* ===== verification/Reconciliation.thy ===== *)
theory Reconciliation
  imports Balance_Service
begin

text \<open>
  \<open>src/src/reconciliation/reconciliation.service.ts\<close>: ingestion of a full HCM batch in its three
  phases (sequence guard, one locked transaction per balance, the log entry), and the
  single-balance wrapper.
\<close>

text \<open>The log entry with the highest sequence (\<open>order: sequence DESC\<close>, first row).\<close>

definition lastSequence :: "database \<Rightarrow> int option" where
  "lastSequence d = (case map sequence (batchSyncLog d) of [] \<Rightarrow> None | xs \<Rightarrow> Some (Max (set xs)))"

definition stale_event :: recon_event where
  "stale_event = \<lparr>e_employeeId = ''*'', e_locationId = ''*'', localValue = 0, e_hcmValue = 0,
                  resolution = STALE_REJECTED\<rparr>"

definition sequence_guard :: "batch_corpus \<Rightarrow> (bool, 'h) svc" where
  "sequence_guard corpus =
     transaction
       (andThen (query lastSequence) (\<lambda>last. case last of
          Some n \<Rightarrow>
            if bc_sequence corpus \<le> n
            then andThen (write_db (\<lambda>d. d\<lparr>reconEvents := reconEvents d @ [stale_event]\<rparr>))
                   (\<lambda>_. return True)
            else return False
        | None \<Rightarrow> return False))"

definition reconcile_entry :: "'h env \<Rightarrow> js_date \<Rightarrow> hcm_balance \<Rightarrow> (unit, 'h) svc" where
  "reconcile_entry E asOf entry =
     runExclusive (balanceKey (h_employeeId entry) (h_locationId entry))
       (transaction (reconcileBalance E entry asOf))"

definition log_batch :: "batch_sync_log \<Rightarrow> database \<Rightarrow> database" where
  "log_batch entry d = d\<lparr>batchSyncLog := upsert_by sequence entry (batchSyncLog d)\<rparr>"

definition ingestBatch :: "'h env \<Rightarrow> batch_corpus \<Rightarrow> (unit, 'h) svc" where
  "ingestBatch E corpus =
     andThen (sequence_guard corpus) (\<lambda>isStale.
     if isStale then return ()
     else
       (let asOfDate = js_Date_parse (bc_asOf corpus)
        in andThen (for_each (reconcile_entry E asOfDate) (bc_balances corpus)) (\<lambda>_.
           transaction (write_db (log_batch \<lparr>sequence = bc_sequence corpus, l_asOf = asOfDate\<rparr>)))))"

text \<open>The single-balance wrapper; \<open>asOf.toISOString()\<close> only fills a field nothing reads.\<close>

definition reconcileBalance_wrapper ::
  "'h env \<Rightarrow> string \<Rightarrow> string \<Rightarrow> int \<Rightarrow> int \<Rightarrow> (unit, 'h) svc" where
  "reconcileBalance_wrapper E employeeId locationId hcmValue asOf =
     reconcile_entry E (Date_at asOf)
       \<lparr>h_employeeId = employeeId, h_locationId = locationId, h_balance = hcmValue,
        h_asOf = toISOString asOf\<rparr>"

end
