(* ===== verification/Actors_Inv.thy ===== *)
theory Actors_Inv
  imports Service_Inv Outbox_Dispatcher Reservation_Reaper Reconciliation
begin

text \<open>
  The background actors keep the contract \<open>safe\<close>: the reaper and the dispatcher with every ledger
  unchanged, the batch reconciliation without that clause (it installs HCM's figure).
\<close>

section \<open>Reaper\<close>

lemma spec_expire_one:
  assumes s: "safe E c d0 w"
  shows "spec (expire_one r) (\<lambda>_. safe E c d0) (safe E c d0) w"
  unfolding expire_one_def
proof (intro spec_exclusive spec_try_catch spec_andThen)
  show "spec (expire (r_id r)) (\<lambda>_. spec (return ()) (\<lambda>_. safe E c d0) (safe E c d0)) (safe E c d0)
          (w\<lparr>held := balanceKey (r_employeeId r) (r_locationId r) # held w\<rparr>)"
    by (rule spec_mono[OF spec_expire]) (use s in \<open>simp_all add: spec_return\<close>)
qed (use s in \<open>simp_all add: spec_return\<close>)

lemma sweep_safe: "preserves (safe E c d0) sweep"
  unfolding preserves_spec sweep_def
  by (intro allI impI spec_andThen spec_now spec_query spec_for_each spec_expire_one)

section \<open>Dispatcher\<close>

lemma find_row:
  assumes "List.find (\<lambda>x. o_id x = i) (outbox d) = Some x"
  shows "x \<in> set (outbox d)" "o_id x = i"
  using find_Some_in[OF assms] by simp_all

lemma row_has_request:
  assumes "db_inv E n d" "x \<in> set (outbox d)"
  obtains r where "List.find (\<lambda>r. r_id r = aggregateId x) (requests d) = Some r"
    "r \<in> set (requests d)" "r_id r = aggregateId x"
proof (cases "List.find (\<lambda>r. r_id r = aggregateId x) (requests d)")
  case None
  have "aggregateId x \<in> aggregateId ` set (outbox d)" using assms(2) by (rule imageI)
  then have "aggregateId x \<in> r_id ` set (requests d)"
    using db_invD(4)[OF assms(1)] unfolding no_orphans_def by blast
  then obtain r where r: "r \<in> set (requests d)" "r_id r = aggregateId x"
    by (metis imageE)
  then show ?thesis using None unfolding find_None_all by simp
next
  case (Some r)
  then show ?thesis using that find_Some_in[OF Some] by blast
qed

text \<open>What transaction 1 hands to the rest of the dispatch.\<close>

definition started :: "outbox_row \<Rightarrow> request \<Rightarrow> database \<Rightarrow> bool" where
  "started x r d =
     (x \<in> set (outbox d) \<and> r \<in> set (requests d) \<and> aggregateId x = r_id r
      \<and> o_status x = OutboxStatus.PENDING)"

lemma upsert_contains:
  assumes "x \<in> set xs" "key x' = key x"
  shows "x' \<in> set (upsert_by key x' xs)"
proof -
  have "x' \<in> set (update_where (\<lambda>y. key y = key x) (\<lambda>_. x') xs)"
    using assms(1) by (auto simp: in_set_update_where)
  then show ?thesis using upsert_existing[OF assms] by simp
qed

lemma spec_begin_attempt:
  assumes s: "safe E c d0 w"
  shows "spec (begin_attempt i)
     (\<lambda>v w'. safe E c d0 w' \<and> (\<forall>x r. v = Some (x, r) \<longrightarrow> started x r (db w')))
     (\<lambda>w'. safe E c d0 w' \<and> db w' = db w) w"
  unfolding begin_attempt_def findOutbox_def
proof (rule spec_tx[OF s], intro spec_andThen spec_query spec_option spec_if spec_return)
  let ?Q = "\<lambda>v w'. sole_writer w' \<and> db_inv E (uuidNext w') (db w') \<and> evolves c (db w) (db w')
              \<and> (\<forall>x r. v = Some (x, r) \<longrightarrow> started x r (db w'))"
  let ?F = "\<lambda>w'. sole_writer w' \<and> uuidNext w \<le> uuidNext w'"
  fix x
  assume found: "List.find (\<lambda>x. o_id x = i) (outbox (db w)) = Some x"
    and pending: "\<not> o_status x \<noteq> OutboxStatus.PENDING"
  note x = find_row(1)[OF found]
  obtain r where r: "List.find (\<lambda>r. r_id r = aggregateId x) (requests (db w)) = Some r"
    "r \<in> set (requests (db w))" "r_id r = aggregateId x"
    by (rule row_has_request[OF safeD(2)[OF s] x])
  let ?x = "x\<lparr>attempts := attempts x + 1\<rparr>"
  have tr: "db_inv E (uuidNext w) (set_outbox ?x (db w)) \<and> evolves c (db w) (set_outbox ?x (db w))"
    by (rule count_attempt[OF safeD(2)[OF s] r(2) x r(3)[symmetric] _ refl]) simp
  have "?x \<in> set (outbox (set_outbox ?x (db w)))"
    using upsert_contains[OF x, of o_id ?x] by simp
  then have st: "started ?x r (set_outbox ?x (db w))"
    using r pending by (simp add: started_def)
  show "spec (findRequest (aggregateId x)) (\<lambda>r. spec (case r of
            None \<Rightarrow> andThen (save_outbox (x\<lparr>o_status := FAILED\<rparr>)) (\<lambda>_. return None)
          | Some req \<Rightarrow> andThen (save_outbox ?x) (\<lambda>_. return (Some (?x, req)))) ?Q ?F) ?F w"
    unfolding findRequest_def
    by (rule spec_query, unfold r(1), simp, intro spec_rules)
      (use tr st safeD[OF s] in simp_all)
qed (use safeD[OF s] in simp_all)

lemma started_inv: "started x r (db w) \<Longrightarrow> started x r (db (w\<lparr>hcm := h\<rparr>))"
  by simp

lemma spec_hcm_attempt:
  assumes "\<And>v h. Q v (w\<lparr>hcm := h\<rparr>)"
  shows "spec (hcm_attempt E x) Q F w"
proof -
  have "spec (hcm_attempt E x) (\<lambda>v w'. \<exists>h. w' = w\<lparr>hcm := h\<rparr>) (\<lambda>_. False) w"
  proof -
    let ?f = "case operation x of FILE \<Rightarrow> hcm_fileTimeOff E (payload x)
                | REVERSE \<Rightarrow> hcm_reverseTimeOff E (payload x)"
    show ?thesis
      unfolding hcm_attempt_def try_catch_def andThen_def call_hcm_def spec_def
      by (cases "?f (hcm w)") (auto simp: now_apply return_apply Let_def split: sum.splits)
  qed
  then show ?thesis by (rule spec_mono) (use assms in auto)
qed

lemma spec_finish_attempt:
  assumes s: "safe E c d0 w" and inj: "inj (uuid E)" and st: "started x r (db w)"
  shows "spec (finish_attempt E x r outcome) (\<lambda>_. safe E c d0) (safe E c d0) w"
proof -
  have x: "x \<in> set (outbox (db w))" "aggregateId x = r_id r" "o_status x = OutboxStatus.PENDING"
    and r: "r \<in> set (requests (db w))"
    using st by (simp_all add: started_def)
  let ?Q = "\<lambda>_ w'. sole_writer w' \<and> db_inv E (uuidNext w') (db w') \<and> evolves c (db w) (db w')"
  let ?F = "\<lambda>w'. sole_writer w' \<and> uuidNext w \<le> uuidNext w'"
  note inv = safeD(2)[OF s]
  have success: "spec (record_success x r a) ?Q ?F w" for a
  proof (cases "operation x")
    case FILE
    then show ?thesis
      unfolding record_success_def Let_def
      by (intro spec_rules) (use safeD[OF s] in
        \<open>simp_all add: ack_file[OF inv r x FILE refl refl]\<close>)
  next
    case REVERSE
    then show ?thesis
      unfolding record_success_def Let_def
      by (intro spec_rules) (use safeD[OF s] in
        \<open>simp_all add: ack_reverse[OF inv r x REVERSE refl refl]\<close>)
  qed
  have retry: "db_inv E (uuidNext w) (set_outbox x (db w)) \<and> evolves c (db w) (set_outbox x (db w))"
    using count_attempt[OF inv r x(1,2) order_refl refl, of c] by simp
  have failure: "spec (record_failure E x r) ?Q ?F w"
  proof (cases "operation x")
    case FILE
    then show ?thesis
      unfolding record_failure_def
      by (intro spec_rules) (use safeD[OF s] retry in
        \<open>simp_all add: fail_file[OF inv r inj x FILE refl refl refl] flip: key_of_def\<close>)
  next
    case REVERSE
    then show ?thesis
      unfolding record_failure_def
      by (intro spec_rules) (use safeD[OF s] retry in
        \<open>simp_all add: fail_reverse[OF inv r x REVERSE refl]\<close>)
  qed
  show ?thesis
    unfolding finish_attempt_def
    by (rule spec_tx'[OF s]) (cases outcome; simp add: success failure)
qed

lemma spec_dispatch_locked:
  assumes s: "safe E c d0 w" and inj: "inj (uuid E)"
  shows "spec (dispatch_locked E i) (\<lambda>_. safe E c d0) (safe E c d0) w"
  unfolding dispatch_locked_def
proof (rule spec_andThen, rule spec_mono[OF spec_begin_attempt[OF s]])
  fix v :: "(outbox_row \<times> request) option" and w'
  assume q: "safe E c d0 w' \<and> (\<forall>x r. v = Some (x, r) \<longrightarrow> started x r (db w'))"
  show "spec (case v of None \<Rightarrow> return ()
          | Some (row, req) \<Rightarrow> andThen (hcm_attempt E row) (finish_attempt E row req))
        (\<lambda>_. safe E c d0) (safe E c d0) w'"
  proof (cases v)
    case None
    then show ?thesis using q by (simp add: spec_return)
  next
    case (Some p)
    obtain x r where p: "p = (x, r)" by (cases p)
    have st: "started x r (db w')" using q by (simp add: Some p)
    have "spec (finish_attempt E x r u) (\<lambda>_. safe E c d0) (safe E c d0) (w'\<lparr>hcm := h\<rparr>)" for u h
      by (rule spec_finish_attempt[OF _ inj]) (use q st in simp_all)
    then show ?thesis
      by (simp add: Some p spec_andThen spec_hcm_attempt)
  qed
qed simp

lemma spec_dispatchOne:
  assumes s: "safe E c d0 w" and inj: "inj (uuid E)"
  shows "spec (dispatchOne E i) (\<lambda>_. safe E c d0) (safe E c d0) w"
  unfolding dispatchOne_def findOutbox_def
  by (intro spec_andThen spec_query spec_option spec_if spec_return spec_findRequest s)
    (use s in \<open>auto intro!: spec_exclusive spec_dispatch_locked inj simp: spec_return\<close>)

lemma dispatchPending_safe: "inj (uuid E) \<Longrightarrow> preserves (safe E c d0) (dispatchPending E)"
  unfolding preserves_spec dispatchPending_def
  by (intro allI impI spec_andThen spec_query spec_for_each spec_dispatchOne)

section \<open>Reconciliation\<close>

lemma active_sum:
  "sum_rows days (activeReservations e l d) = pending_sum d (e, l)"
proof -
  have "(if r_employeeId r = e \<and> r_locationId r = l \<and> status r = RequestStatus.PENDING then days r else 0)
      = (if key_of r = (e, l) then pending_days r else 0)" for r
    by (auto simp: key_of_def pending_days_def)
  then show ?thesis
    by (simp add: sum_rows_sum_list activeReservations_def sum_filter_eq pending_sum_def)
qed

text \<open>Appending to the two logs touches nothing else.\<close>

lemma logs_safe:
  assumes s: "safe E c d0 w"
    and d': "requests (db w') = requests (db w)" "outbox (db w') = outbox (db w)"
      "balances (db w') = balances (db w)" "reconEvents (db w') = reconEvents (db w) @ es"
      "sequence ` set (batchSyncLog (db w)) \<subseteq> sequence ` set (batchSyncLog (db w'))"
    and w': "sole_writer w'" "uuidNext w' = uuidNext w"
  shows "safe E c d0 w'"
proof (rule safe_step[OF s w'(1)])
  have same: "reserved_of (db w') = reserved_of (db w)" "available_of (db w') = available_of (db w)"
    by (simp_all add: fun_eq_iff reserved_of_def available_of_def d')
  have "db_inv E (uuidNext w') (db w')"
    unfolding w'(2)
    by (rule db_inv_balances[OF safeD(2)[OF s] d'(1,2)])
      (use db_invD(1)[OF safeD(2)[OF s]] in \<open>simp_all add: same balances_keyed_def d'(3)\<close>)
  moreover have "ledger (db w') k = ledger (db w) k" for k
    by (simp add: ledger_def committed_sum_def d' same)
  moreover have "account_of (db w') = account_of (db w)"
    by (rule account_of_cong[OF same(2,1) d'(1)])
  ultimately show "db_inv E (uuidNext w') (db w') \<and> evolves c (db w) (db w')"
    using d' by (simp add: evolves_def lifecycle_def all_evolve_refl)
qed

lemma spec_log_event:
  assumes s: "safe E c d0 w"
  shows "spec (write_db (\<lambda>d. d\<lparr>reconEvents := reconEvents d @ [ev]\<rparr>)) (\<lambda>_. safe E c d0)
           (\<lambda>w'. sole_writer w' \<and> uuidNext w \<le> uuidNext w') w"
  by (rule spec_write_db) (use safeD[OF s] in \<open>auto intro: logs_safe[OF s]\<close>)

lemma spec_save_reconciled:
  assumes s: "safe E False d0 w" and q: "q = sum_rows days (activeReservations e l (db w))"
  shows "spec (saveWithRetry (bal (db w) (e, l)) (mut_reconcile a q asOf))
           (\<lambda>_ w'. safe E False d0 w' \<and> uuidNext w' = uuidNext w)
           (\<lambda>w'. sole_writer w' \<and> uuidNext w \<le> uuidNext w') w"
proof (rule spec_saveWithRetry[OF safeD(1)[OF s]])
  have "reserved (mut_reconcile a q asOf (bal (db w) (e, l))) = reserved_of (db w) (e, l)"
    using q db_invD(5)[OF safeD(2)[OF s], of "(e, l)"] by (simp add: active_sum mut_reconcile_def)
  then have "safe E False d0
      ((drop_fault w)\<lparr>db := set_balance (mut_reconcile a q asOf (bal (db w) (e, l))) (db w)\<rparr>)"
    by (intro balance_safe[OF s, of _ "mut_reconcile a q asOf" "(e, l)"])
      (use safeD[OF s] in \<open>simp_all add: change_balance_def\<close>)
  then show "safe E False d0
      ((drop_fault w)\<lparr>db := set_balance (mut_reconcile a q asOf (bal (db w) (e, l))) (db w)\<rparr>)
    \<and> uuidNext ((drop_fault w)\<lparr>db := set_balance (mut_reconcile a q asOf (bal (db w) (e, l))) (db w)\<rparr>)
      = uuidNext w" by simp
qed (use safeD[OF s] in simp)

lemma spec_reconcileBalance:
  assumes s: "safe E False d0 w"
  shows "spec (reconcileBalance E entry asOf) (\<lambda>_. safe E False d0)
           (\<lambda>w'. sole_writer w' \<and> uuidNext w \<le> uuidNext w') w"
  unfolding reconcileBalance_def check_date_def Let_def
  by (intro spec_andThen spec_findOrCreate spec_query spec_if spec_throw spec_return,
      use safeD[OF s] in simp, rule spec_mono[OF spec_save_reconciled[OF s refl]])
    (auto intro: spec_mono[OF spec_log_event])

lemma spec_tx_safe:
  assumes "safe E c d0 w"
    and "spec m (\<lambda>_. safe E c d0) (\<lambda>w'. sole_writer w' \<and> uuidNext w \<le> uuidNext w') w"
  shows "spec (transaction m) (\<lambda>_. safe E c d0) (safe E c d0) w"
  by (rule spec_transaction, rule spec_mono[OF assms(2)]) (use safe_rollback[OF assms(1)] in auto)

lemma spec_reconcile_entry:
  assumes s: "safe E False d0 w"
  shows "spec (reconcile_entry E asOf entry) (\<lambda>_. safe E False d0) (safe E False d0) w"
  unfolding reconcile_entry_def
  by (intro spec_exclusive spec_tx_safe spec_reconcileBalance[THEN spec_mono]) (use s in simp_all)

lemma upsert_keeps_keys:
  assumes "y \<in> set xs"
  shows "key y \<in> key ` set (upsert_by key x xs)"
proof (cases "\<exists>z \<in> set xs. key z = key x")
  case True
  then have "map key (upsert_by key x xs) = map key xs"
    unfolding upsert_by_def by (auto intro!: map_update_where_same)
  then show ?thesis using assms by (metis imageI list.set_map)
next
  case False
  then show ?thesis using assms unfolding upsert_by_def by auto
qed

lemma ingestBatch_safe: "preserves (safe E False d0) (ingestBatch E corpus)"
  unfolding preserves_spec ingestBatch_def Let_def
proof (intro allI impI, rule spec_andThen)
  fix w :: "'a world" assume s: "safe E False d0 w"
  have guard: "spec (sequence_guard corpus) (\<lambda>_. safe E False d0) (safe E False d0) w"
    unfolding sequence_guard_def
    by (intro spec_tx_safe s spec_rules)
      (use s safeD[OF s] in \<open>auto intro: logs_safe[OF s]\<close>)
  have log: "spec (transaction (write_db (log_batch entry))) (\<lambda>_. safe E False d0) (safe E False d0) w'"
    if s': "safe E False d0 w'" for entry and w' :: "'a world"
    by (intro spec_tx_safe s' spec_write_db logs_safe[OF s', where es = "[]"])
      (use safeD[OF s'] in \<open>auto simp: log_batch_def upsert_keeps_keys\<close>)
  show "spec (sequence_guard corpus) (\<lambda>isStale. spec (if isStale then return () else
            andThen (for_each (reconcile_entry E (js_Date_parse (bc_asOf corpus))) (bc_balances corpus))
              (\<lambda>_. transaction (write_db (log_batch \<lparr>sequence = bc_sequence corpus,
                     l_asOf = js_Date_parse (bc_asOf corpus)\<rparr>))))
          (\<lambda>_. safe E False d0) (safe E False d0)) (safe E False d0) w"
    by (rule spec_mono[OF guard])
      (auto intro!: spec_return spec_andThen log
         spec_mono[OF spec_for_each[where I = "safe E False d0"]] spec_reconcile_entry)
qed

end
