(* ===== verification/System.thy ===== *)
theory System
  imports Actors_Inv
begin

text \<open>
  The running service as a step relation. A step is one uninterrupted unit of an actor (\<open>unit_step\<close>): a critical
  section with its lock, a read that may hydrate, one phase of a batch. Between two steps time
  passes, HCM changes on its own, the database starts or stops failing, or the process restarts
  (the lock table is in memory), between two units or between the transactions of one unit. Any interleaving of units on different balances is a sequence of
  steps; units on one balance are serialised by the lock (\<open>Balance_Lock\<close>).
\<close>

named_theorems step_rules

inductive unit_step :: "'h env \<Rightarrow> 'h world \<Rightarrow> 'h world \<Rightarrow> bool" for E where
  read: "unit_step E w (snd (getBalance E e l w))"
| submit: "unit_step E w (snd (runExclusive k (submit_locked E e l startD endD key) w))"
| approve: "unit_step E w (snd (runExclusive k (approve_locked E i) w))"
| reject: "unit_step E w (snd (runExclusive k (reject_locked i) w))"
| cancel: "unit_step E w (snd (runExclusive k (cancel_locked E i) w))"
| reap: "unit_step E w (snd (expire_one r w))"
| dispatch: "unit_step E w (snd (dispatchOne E i w))"
| guard: "unit_step E w (snd (sequence_guard corpus w))"
| reconcile: "unit_step E w (snd (reconcile_entry E asOf entry w))"
| log: "unit_step E w (snd (transaction (write_db (log_batch entry)) w))"
| review: "unit_step E w (snd (resolveReview e l w))"

inductive system_step :: "'h env \<Rightarrow> 'h world \<Rightarrow> 'h world \<Rightarrow> bool" for E where
  act: "unit_step E w w' \<Longrightarrow> system_step E w w'"
| time: "system_step E w (w\<lparr>clock := t, dbClock := u\<rparr>)"
| hcm: "system_step E w (w\<lparr>hcm := h\<rparr>)"
| faults: "\<forall>f \<in> set fs. \<forall>row. f \<noteq> Version_mismatch row \<Longrightarrow> system_step E w (w\<lparr>faults := fs\<rparr>)"
| restart: "system_step E w (w\<lparr>held := []\<rparr>)"
| crash_in_dispatch: "system_step E w ((snd (begin_attempt i w))\<lparr>hcm := h, held := []\<rparr>)"
| crash_in_approval: "system_step E w ((snd (applyHcmSnapshot s w))\<lparr>held := []\<rparr>)"

inductive steps :: "'h env \<Rightarrow> 'h world \<Rightarrow> 'h world \<Rightarrow> bool" for E where
  none: "steps E w w"
| more: "steps E w w' \<Longrightarrow> system_step E w' w'' \<Longrightarrow> steps E w w''"

text \<open>A service that starts on an empty database.\<close>

definition starts :: "'h world \<Rightarrow> bool" where
  "starts w = (db w = empty_db \<and> held w = [] \<and> sole_writer w)"

definition reachable :: "'h env \<Rightarrow> 'h world \<Rightarrow> bool" where
  "reachable E w = (\<exists>w0. starts w0 \<and> steps E w0 w)"

inductive_cases system_stepE: "system_step E w w'"

lemma snd_spec:
  assumes "spec m (\<lambda>_. I) I w"
  shows "I (snd (m w))"
  using assms by (simp add: spec_same)

lemma locked_safe:
  assumes "safe E c d0 w" "\<And>w'. safe E c d0 w' \<Longrightarrow> spec m (\<lambda>_. safe E c d0) (safe E c d0) w'"
  shows "safe E c d0 (snd (runExclusive k m w))"
  by (rule snd_spec, rule spec_exclusive) (use assms in auto)

lemma guard_safe:
  assumes s: "safe E c d0 w"
  shows "spec (sequence_guard corpus) (\<lambda>_. safe E c d0) (safe E c d0) w"
  unfolding sequence_guard_def
  by (intro spec_tx_safe s spec_rules) (use s safeD[OF s] in \<open>auto intro: logs_safe[OF s]\<close>)

lemma log_safe:
  assumes s: "safe E c d0 w"
  shows "spec (transaction (write_db (log_batch entry))) (\<lambda>_. safe E c d0) (safe E c d0) w"
  by (intro spec_tx_safe s spec_write_db logs_safe[OF s, where es = "[]"])
    (use safeD[OF s] in \<open>auto simp: log_batch_def upsert_keeps_keys\<close>)

lemma unit_step_safe:
  assumes st: "unit_step E w w'" and s: "safe E False d0 w" and inj: "inj (uuid E)"
  shows "safe E False d0 w'"
  using st
proof (cases rule: unit_step.cases)
  case (read e l)
  then show ?thesis using getBalance_safe[of E d0 e l] s by (simp add: preserves_def)
next
  case (submit k e l startD endD key)
  then show ?thesis using locked_safe[OF s spec_submit_locked[OF _ inj]] by simp
next
  case (approve k i)
  then show ?thesis using locked_safe[OF s spec_approve_locked[OF _ inj]] by simp
next
  case (reject k i)
  then show ?thesis using locked_safe[OF s spec_reject_locked] by simp
next
  case (cancel k i)
  then show ?thesis using locked_safe[OF s spec_cancel_locked[OF _ inj]] by simp
next
  case (reap r)
  then show ?thesis using snd_spec[OF spec_expire_one[OF s]] by simp
next
  case (dispatch i)
  then show ?thesis using snd_spec[OF spec_dispatchOne[OF s inj]] by simp
next
  case (guard corpus)
  then show ?thesis using snd_spec[OF guard_safe[OF s]] by simp
next
  case (reconcile asOf entry)
  then show ?thesis using snd_spec[OF spec_reconcile_entry[OF s]] by simp
next
  case (log entry)
  then show ?thesis using snd_spec[OF log_safe[OF s]] by simp
next
  case (review e l)
  then show ?thesis using resolveReview_safe[of E False d0 e l] s by (simp add: preserves_def)
qed

lemma system_step_safe:
  assumes st: "system_step E w w'" and s: "safe E False d0 w" and inj: "inj (uuid E)"
  shows "safe E False d0 w'"
  using st
proof (cases rule: system_step.cases)
  case act
  then show ?thesis by (rule unit_step_safe[OF _ s inj])
next
  case (faults fs)
  then show ?thesis using s by (simp add: safe_def world_inv_def sole_writer_def)
next
  case (crash_in_dispatch h i)
  have "spec (begin_attempt i) (\<lambda>_. safe E False d0) (safe E False d0) w"
    by (rule spec_mono[OF spec_begin_attempt[OF s]]) simp_all
  then show ?thesis using snd_spec crash_in_dispatch by fastforce
next
  case (crash_in_approval snap)
  have "spec (applyHcmSnapshot snap) (\<lambda>_. safe E False d0) (safe E False d0) w"
    by (rule spec_applyHcmSnapshot) (use s safeD[OF s] in \<open>auto intro: snapshot_safe[OF s]\<close>)
  then show ?thesis using snd_spec crash_in_approval by fastforce
qed (use s in simp_all)

lemma steps_safe:
  assumes "steps E w w'" "inj (uuid E)" "safe E False d0 w"
  shows "safe E False d0 w'"
  using assms by (induction rule: steps.induct) (auto intro: system_step_safe)

lemma reachable_inv:
  assumes "reachable E w" "inj (uuid E)"
  shows "world_inv E w"
proof -
  obtain w0 where w0: "starts w0" "steps E w0 w" using assms(1) by (auto simp: reachable_def)
  have "safe E False empty_db w0"
    using w0(1) by (simp add: starts_def safe_def world_inv_def db_inv_empty)
  from steps_safe[OF w0(2) assms(2) this] show ?thesis by (simp add: safe_def)
qed

lemma reachable_steps_evolve:
  assumes "reachable E w" "steps E w w'" "inj (uuid E)"
  shows "lifecycle (db w) (db w')"
proof -
  have "safe E False (db w) w" using reachable_inv[OF assms(1,3)] by (simp add: safe_def)
  from steps_safe[OF assms(2,3) this] show ?thesis by (simp add: safe_def evolves_def)
qed

lemma reachable_steps_account:
  assumes "reachable E w" "steps E w w'" "inj (uuid E)"
  shows "account_run False (account_of (db w)) (account_of (db w'))"
proof -
  have "safe E False (db w) w" using reachable_inv[OF assms(1,3)] by (simp add: safe_def)
  from steps_safe[OF assms(2,3) this] show ?thesis by (simp add: safe_def evolves_def)
qed

lemma steps_trans: "steps E a b \<Longrightarrow> steps E b c \<Longrightarrow> steps E a c"
  by (rotate_tac, induction rule: steps.induct) (auto intro: steps.more)

lemma reachable_steps: "reachable E a \<Longrightarrow> steps E a b \<Longrightarrow> reachable E b"
  unfolding reachable_def using steps_trans by blast

lemma reachable_db_inv: "reachable E w \<Longrightarrow> inj (uuid E) \<Longrightarrow> db_inv E (uuidNext w) (db w)"
  using reachable_inv by (auto simp: world_inv_def)

section \<open>Outbox rows in reachable states\<close>

lemma colon_suffix:
  assumes "a @ '':FILE'' = b @ '':REVERSE''"
  shows False
proof -
  have "rev (a @ '':FILE'') = rev (b @ '':REVERSE'')" using assms by simp
  then show False by simp
qed

lemma row_key:
  assumes "row_matches r x"
  shows "o_idempotencyKey x = hcmIdempotencyKey r @ (case operation x of FILE \<Rightarrow> '':FILE'' | REVERSE \<Rightarrow> '':REVERSE'')"
  using assms by (cases "operation x") (simp_all add: row_matches_def buildFileCommand_def buildReverseCommand_def)

lemma shape_one_per_operation:
  assumes "status_shape s (shape rows)" "x \<in> set rows" "y \<in> set rows" "operation x = operation y"
  shows "x = y"
  using assms by (cases s) (auto simp: status_shape_def shape_def map_eq_Cons_conv)

text \<open>In every reachable state no two outbox rows share an idempotency key, so HCM can tell every two different commands apart.\<close>

lemma outbox_keys_unique:
  assumes "reachable E w" "inj (uuid E)" "x \<in> set (outbox (db w))" "y \<in> set (outbox (db w))"
    and "o_idempotencyKey x = o_idempotencyKey y"
  shows "x = y"
proof -
  note inv = reachable_db_inv[OF assms(1,2)]
  obtain r s where r: "r \<in> set (requests (db w))" "r_id r = aggregateId x"
    and s: "s \<in> set (requests (db w))" "r_id s = aggregateId y"
    using row_has_request[OF inv] assms(3,4) by metis
  have ok: "request_ok r (rows_of (r_id r) (db w))" "request_ok s (rows_of (r_id s) (db w))"
    using db_invD(6)[OF inv] r s by blast+
  have x: "x \<in> set (rows_of (r_id r) (db w))" and y: "y \<in> set (rows_of (r_id s) (db w))"
    using r s assms(3,4) by (simp_all add: rows_of_def)
  have m: "row_matches r x" "row_matches s y"
    using ok x y by (simp_all add: request_ok_def)
  have same: "operation x = operation y \<and> hcmIdempotencyKey r = hcmIdempotencyKey s"
    using row_key[OF m(1)] row_key[OF m(2)] assms(5) colon_suffix
    by (cases "operation x"; cases "operation y") auto
  then have "r = s"
    using key_unique[of hcmIdempotencyKey "requests (db w)" r s] db_invD(2)[OF inv] r s
    by (simp add: keys_distinct_def)
  then show ?thesis
    using shape_one_per_operation[OF _ x, of "status r" y] y ok same by (simp add: request_ok_def)
qed

section \<open>Every operation is a sequence of steps\<close>

definition runs_as_steps :: "'h env \<Rightarrow> ('a, 'h) svc \<Rightarrow> bool" where
  "runs_as_steps E m = (\<forall>w. steps E w (snd (m w)))"

lemma step_run: "system_step E w w' \<Longrightarrow> steps E w w'"
  by (rule steps.more[OF steps.none])

lemma run_still [step_rules]:
  "runs_as_steps E (return x)" "runs_as_steps E (throw e)" "runs_as_steps E (query q)"
  "runs_as_steps E now"
  by (simp_all add: runs_as_steps_def svc_defs steps.none)

lemma run_andThen [step_rules]:
  assumes "runs_as_steps E m" "\<And>x. runs_as_steps E (f x)"
  shows "runs_as_steps E (andThen m f)"
  unfolding runs_as_steps_def
proof
  fix w
  obtain r w1 where m: "m w = (r, w1)" by (cases "m w")
  have "steps E w w1" using assms(1) m unfolding runs_as_steps_def by (metis snd_conv)
  then show "steps E w (snd (andThen m f w))"
    using assms(2) m unfolding runs_as_steps_def andThen_def
    by (cases r) (auto intro: steps_trans[of E w w1])
qed

lemma run_cases [step_rules]:
  "runs_as_steps E m \<Longrightarrow> (\<And>x. runs_as_steps E (f x)) \<Longrightarrow> runs_as_steps E (case v of None \<Rightarrow> m | Some x \<Rightarrow> f x)"
  "runs_as_steps E m \<Longrightarrow> runs_as_steps E m' \<Longrightarrow> runs_as_steps E (if b then m else m')"
  by (cases v) simp_all

lemma run_for_each [step_rules]:
  "(\<And>x. runs_as_steps E (f x)) \<Longrightarrow> runs_as_steps E (for_each f xs)"
  by (induction xs) (simp_all add: run_still run_andThen)

lemma run_units [step_rules]:
  "runs_as_steps E (getBalance E e l)"
  "runs_as_steps E (runExclusive k (submit_locked E e l s d key))"
  "runs_as_steps E (runExclusive k (approve_locked E i))"
  "runs_as_steps E (runExclusive k (reject_locked i))"
  "runs_as_steps E (runExclusive k (cancel_locked E i))"
  "runs_as_steps E (expire_one r)" "runs_as_steps E (dispatchOne E i)"
  "runs_as_steps E (sequence_guard corpus)" "runs_as_steps E (reconcile_entry E asOf entry)"
  "runs_as_steps E (transaction (write_db (log_batch b)))" "runs_as_steps E (resolveReview e l)"
  unfolding runs_as_steps_def by (auto intro!: step_run system_step.act intro: unit_step.intros)

lemma run_findRequest [step_rules]: "runs_as_steps E (findRequest i)"
  by (simp add: findRequest_def step_rules)

lemma operations_run_as_steps:
  "runs_as_steps E (submit E e l s d key)" "runs_as_steps E (approve E i)" "runs_as_steps E (reject E i)"
  "runs_as_steps E (cancel E i)" "runs_as_steps E sweep" "runs_as_steps E (dispatchPending E)"
  "runs_as_steps E (ingestBatch E corpus)"
  unfolding submit_def approve_def reject_def cancel_def with_request_lock_def sweep_def dispatchPending_def
    ingestBatch_def Let_def
  by (intro step_rules)+

end
