(* ===== verification/Hcm_Contract.thy ===== *)
theory Hcm_Contract
  imports Outbox_Dispatcher Balance_Rules
begin

text \<open>
  The interfaces between the service and HCM, as locales. \<open>hcm_contract\<close> is what
  \<open>src/src/hcm/contracts/hcm-client.interface.ts\<close> asks of a client: the read throws nothing but
  \<open>HcmUnavailableError\<close>, the writes do not throw. The lemmas in it are what the callers get from
  that. \<open>idempotent_write\<close> is the idempotency-key contract of the write endpoints (ADR-008);
  the lemma in it is that delivering a command again changes nothing.
\<close>

text \<open>The environment whose HCM operations are those of one client.\<close>

definition uses ::
  "(string \<Rightarrow> string \<Rightarrow> 'h \<Rightarrow> (exception + hcm_balance) \<times> 'h) \<Rightarrow>
   (hcm_command \<Rightarrow> 'h \<Rightarrow> (exception + hcm_result) \<times> 'h) \<Rightarrow>
   (hcm_command \<Rightarrow> 'h \<Rightarrow> (exception + hcm_result) \<times> 'h) \<Rightarrow> 'h env \<Rightarrow> bool" where
  "uses getB fileT revT E =
     (hcm_getBalance E = getB \<and> hcm_fileTimeOff E = fileT \<and> hcm_reverseTimeOff E = revT)"

text \<open>The call a row stands for.\<close>

definition hcm_write :: "'h env \<Rightarrow> outbox_row \<Rightarrow> 'h \<Rightarrow> (exception + hcm_result) \<times> 'h" where
  "hcm_write E x = (case operation x of
      FILE \<Rightarrow> hcm_fileTimeOff E (payload x) | REVERSE \<Rightarrow> hcm_reverseTimeOff E (payload x))"

locale hcm_contract =
  fixes getB :: "string \<Rightarrow> string \<Rightarrow> 'h \<Rightarrow> (exception + hcm_balance) \<times> 'h"
    and fileT :: "hcm_command \<Rightarrow> 'h \<Rightarrow> (exception + hcm_result) \<times> 'h"
    and revT :: "hcm_command \<Rightarrow> 'h \<Rightarrow> (exception + hcm_result) \<times> 'h"
  assumes get_fails: "fst (getB e l h) = Inl x \<Longrightarrow> \<exists>op. x = HcmUnavailableError op"
    and file_returns: "\<exists>r. fst (fileT c h) = Inr r"
    and reverse_returns: "\<exists>r. fst (revT c h) = Inr r"
begin

text \<open>A failing read never fails an approval: the local guard alone decides.\<close>

lemma refresh_falls_back:
  assumes "uses getB fileT revT E" "fst (getB (r_employeeId r) (r_locationId r) (hcm w)) = Inl x"
  shows "refresh_from_hcm E r w =
           (Ok None, w\<lparr>hcm := snd (getB (r_employeeId r) (r_locationId r) (hcm w))\<rparr>)"
proof -
  obtain op where "x = HcmUnavailableError op" using get_fails[OF assms(2)] by blast
  then show ?thesis
    using assms
    by (cases "getB (r_employeeId r) (r_locationId r) (hcm w)")
      (simp add: uses_def refresh_from_hcm_def try_catch_def andThen_def call_hcm_def return_apply)
qed

text \<open>A failing read never fails a cold balance read: it answers a degraded zero row.\<close>

lemma hydrate_degrades:
  assumes "uses getB fileT revT E" "\<not> is_warm (balances (db w) (e, l))" "fst (getB e l (hcm w)) = Inl x"
  shows "hydrate E e l w =
           (Ok (Some (fresh_balance e l, True)), w\<lparr>hcm := snd (getB e l (hcm w))\<rparr>)"
proof -
  obtain op where "x = HcmUnavailableError op" using get_fails[OF assms(3)] by blast
  then show ?thesis
    using assms
    by (cases "getB e l (hcm w)")
      (simp add: uses_def hydrate_def findBalance_def andThen_query try_catch_def andThen_def
        call_hcm_def return_apply query_apply)
qed

text \<open>The dispatcher's attempt always gets a verdict, the client's.\<close>

lemma attempt_verdict:
  assumes "uses getB fileT revT E"
  shows "\<exists>r h. (case operation x of FILE \<Rightarrow> fileT (payload x) | REVERSE \<Rightarrow> revT (payload x)) (hcm w)
            = (Inr r, h)
          \<and> hcm_attempt E x w = (Ok (if ok r then Some (ack_time (clock w) (ackedAt r)) else None),
                                 w\<lparr>hcm := h\<rparr>)"
proof -
  let ?f = "case operation x of FILE \<Rightarrow> fileT (payload x) | REVERSE \<Rightarrow> revT (payload x)"
  have "\<exists>r. fst (?f (hcm w)) = Inr r"
    using file_returns reverse_returns by (cases "operation x") simp_all
  then obtain r h where rh: "?f (hcm w) = (Inr r, h)" by (cases "?f (hcm w)") auto
  have "(case operation x of FILE \<Rightarrow> hcm_fileTimeOff E (payload x)
          | REVERSE \<Rightarrow> hcm_reverseTimeOff E (payload x)) = ?f"
    using assms by (simp add: uses_def split: OutboxOperation.split)
  then have "hcm_attempt E x w =
      (Ok (if ok r then Some (ack_time (clock w) (ackedAt r)) else None), w\<lparr>hcm := h\<rparr>)"
    using rh by (simp add: hcm_attempt_def try_catch_def andThen_def call_hcm_def now_apply return_apply)
  with rh show ?thesis by blast
qed

end

section \<open>Idempotent writes\<close>

text \<open>\<open>n\<close> deliveries: the verdicts in order, and the final state.\<close>

fun deliver :: "('c \<Rightarrow> 's \<Rightarrow> hcm_result \<times> 's) \<Rightarrow> nat \<Rightarrow> 'c \<Rightarrow> 's \<Rightarrow> bool list \<times> 's" where
  "deliver send 0 c s = ([], s)"
| "deliver send (Suc n) c s =
     (let (r, s1) = send c s; (vs, s2) = deliver send n c s1 in (ok r # vs, s2))"

text \<open>
  \<open>send\<close> is one delivery of a command; \<open>view\<close> the part of the endpoint's state that matters (not
  its call counters); \<open>dedups\<close> says that the endpoint honours keys in that state and does not
  refuse the delivery; \<open>stored\<close> is the verdict recorded for a key.
\<close>

locale idempotent_write =
  fixes send :: "'c \<Rightarrow> 's \<Rightarrow> hcm_result \<times> 's"
    and idkey :: "'c \<Rightarrow> string"
    and view :: "'s \<Rightarrow> 'v"
    and dedups :: "'s \<Rightarrow> bool"
    and stored :: "string \<Rightarrow> 's \<Rightarrow> bool option"
  assumes records: "dedups s \<Longrightarrow> stored (idkey c) (snd (send c s)) = Some (ok (fst (send c s)))"
    and still_dedups: "dedups s \<Longrightarrow> dedups (snd (send c s))"
    and replays: "dedups s \<Longrightarrow> stored (idkey c) s = Some v \<Longrightarrow>
                  ok (fst (send c s)) = v \<and> view (snd (send c s)) = view s"
begin

lemma redelivery:
  assumes "dedups s" "stored (idkey c) s = Some v"
  shows "fst (deliver send n c s) = replicate n v \<and> view (snd (deliver send n c s)) = view s"
  using assms
proof (induction n arbitrary: s)
  case (Suc n)
  obtain r s1 where r: "send c s = (r, s1)" by (cases "send c s")
  have rv: "ok r = v" "view s1 = view s" using replays[OF Suc.prems] r by simp_all
  have "dedups s1" "stored (idkey c) s1 = Some v"
    using still_dedups[OF Suc.prems(1), of c] records[OF Suc.prems(1), of c] r rv by simp_all
  from Suc.IH[OF this] rv show ?case
    by (simp add: r split_beta)
qed simp

lemma at_least_once_is_once:
  assumes "dedups s"
  shows "fst (deliver send (Suc n) c s) = replicate (Suc n) (ok (fst (send c s)))
         \<and> view (snd (deliver send (Suc n) c s)) = view (snd (send c s))"
proof -
  obtain r s1 where r: "send c s = (r, s1)" by (cases "send c s")
  have "dedups s1" "stored (idkey c) s1 = Some (ok r)"
    using still_dedups[OF assms, of c] records[OF assms, of c] r by simp_all
  from redelivery[OF this, of n] show ?thesis by (simp add: r split_beta)
qed

end

end
