(* ===== verification/Service_Results.thy ===== *)
theory Service_Results
  imports Service_Inv Hcm_Contract
begin

text \<open>
  What the operations return and write when the database does not fail (\<open>faults w = []\<close>), one
  equation per outcome, and how \<open>saveWithRetry\<close> behaves under contention.
\<close>

section \<open>Balance operations\<close>

lemma saveWithRetry_ok [svc_simps]:
  assumes "faults w = []"
  shows "saveWithRetry b f w = (Ok (), w\<lparr>db := set_balance (f b) (db w)\<rparr>)"
proof -
  have "sole_writer w" using assms by (simp add: sole_writer_def)
  then show ?thesis
    using assms by (simp add: saveWithRetry_sole fault_free_simps)
qed

lemma change_ok:
  assumes "faults w = []"
  shows "andThen (findOrCreate e l) (\<lambda>b. saveWithRetry b f) w
           = (Ok (), w\<lparr>db := change_balance f (e, l) (db w)\<rparr>)"
  using assms by (simp add: andThen_findOrCreate saveWithRetry_ok change_balance_def)

lemmas release_ok [svc_simps] = change_ok[of _ _ _ "mut_release n" for n, folded release_def]
lemmas commit_ok [svc_simps] = change_ok[of _ _ _ "mut_commit n" for n, folded commit_def]
lemmas restore_ok [svc_simps] = change_ok[of _ _ _ "mut_restore n" for n, folded restore_def]

lemma applyHcmSnapshot_ok [svc_simps]:
  "faults w = [] \<Longrightarrow> applyHcmSnapshot s w =
     (Ok (), w\<lparr>db := change_balance (mut_snapshot s) (h_employeeId s, h_locationId s) (db w)\<rparr>)"
  by (simp add: applyHcmSnapshot_def change_ok)

lemma reserve_ok [svc_simps]:
  assumes "faults w = []"
  shows "reserve e l n w =
     (if available_of (db w) (e, l) - reserved_of (db w) (e, l) < n
      then (Raise (insufficient (bal (db w) (e, l)) n), w)
      else (Ok (), w\<lparr>db := change_balance (mut_reserve n) (e, l) (db w)\<rparr>))"
  using assms
  by (simp add: reserve_def andThen_findOrCreate throw_apply saveWithRetry_ok change_balance_def of_bal)

text \<open>A save that meets \<open>length rows\<close> other writers in a row.\<close>

lemma save_attempts_contended:
  assumes "length rows \<le> n" "\<forall>row \<in> set rows. pk_of row = pk_of orig" "pk_of current = pk_of orig"
    "keeps_pk f" "faults w = map (\<lambda>row. Version_mismatch (Some row)) rows @ fs"
    "fs = [] \<or> hd fs = No_fault"
  shows "save_attempts n f orig current w =
     (Ok (), w\<lparr>faults := tl fs, db := set_balance (last (current # map f rows)) (db w)\<rparr>)"
  using assms
proof (induction n arbitrary: rows current w)
  case 0
  then show ?case
    by (cases fs) (simp_all add: save_balance_def next_fault_def drop_fault_def)
next
  case (Suc n)
  show ?case
  proof (cases rows)
    case Nil
    then show ?thesis
      using Suc.prems by (cases fs) (simp_all add: save_balance_def next_fault_def drop_fault_def)
  next
    case (Cons row rest)
    let ?d = "(db w)\<lparr>balances := (balances (db w))(pk_of current := Some row)\<rparr>"
    let ?w = "w\<lparr>faults := map (\<lambda>row. Version_mismatch (Some row)) rest @ fs, db := ?d\<rparr>"
    have "save_balance current w = (Raise OptimisticLockVersionMismatchError, ?w)"
      using Suc.prems(5) Cons by (simp add: save_balance_def next_fault_def drop_fault_def)
    then have 1: "save_attempts (Suc n) f orig current w = save_attempts n f orig (f row) ?w"
      using Suc.prems(3) by simp
    have 2: "save_attempts n f orig (f row) ?w = (Ok (), ?w\<lparr>faults := tl fs, db := set_balance (last (f row # map f rest)) (db ?w)\<rparr>)"
      by (rule Suc.IH) (use Suc.prems Cons in \<open>simp_all add: keeps_pk_def\<close>)
    have 3: "set_balance (last (f row # map f rest)) ?d = set_balance (last (f row # map f rest)) (db w)"
    proof -
      have "last (f row # map f rest) \<in> f ` set rows"
        using Cons last_in_set[of "map f rows"] by auto
      then obtain x where "x \<in> set rows" "last (f row # map f rest) = f x" by blast
      then have "pk_of (last (f row # map f rest)) = pk_of current"
        using Suc.prems(2-4) by (simp add: keeps_pk_def)
      then show ?thesis by (simp add: set_balance_def)
    qed
    show ?thesis unfolding 1 2 using 3 by (simp add: Cons)
  qed
qed

lemma save_attempts_exhausted:
  assumes "length rows = Suc n" "\<forall>row \<in> set rows. pk_of row = pk_of orig" "pk_of current = pk_of orig"
    "keeps_pk f" "faults w = map (\<lambda>row. Version_mismatch (Some row)) rows @ fs"
  shows "fst (save_attempts n f orig current w) = Raise OptimisticLockVersionMismatchError"
  using assms
proof (induction n arbitrary: rows current w)
  case 0
  then show ?case
    by (cases rows) (simp_all add: save_balance_def next_fault_def drop_fault_def)
next
  case (Suc n)
  then obtain row rest where Cons: "rows = row # rest" by (cases rows) auto
  let ?w = "w\<lparr>faults := map (\<lambda>row. Version_mismatch (Some row)) rest @ fs,
              db := (db w)\<lparr>balances := (balances (db w))(pk_of current := Some row)\<rparr>\<rparr>"
  have "save_balance current w = (Raise OptimisticLockVersionMismatchError, ?w)"
    using Suc.prems(5) Cons by (simp add: save_balance_def next_fault_def drop_fault_def)
  then have "save_attempts (Suc n) f orig current w = save_attempts n f orig (f row) ?w"
    using Suc.prems(3) by simp
  moreover have "fst (save_attempts n f orig (f row) ?w) = Raise OptimisticLockVersionMismatchError"
    by (rule Suc.IH) (use Suc.prems Cons in \<open>auto simp: keeps_pk_def\<close>)
  ultimately show ?case by simp
qed

section \<open>Reading a balance\<close>

lemma getBalance_warm [svc_simps]:
  assumes "balances (db w) (e, l) = Some b" "lastHcmAsOf b \<noteq> None"
  shows "getBalance E e l w = (Ok (Some (b, False)), w)"
  using assms by (simp add: getBalance_def findBalance_def andThen_query is_warm_def return_apply)

lemma validateAvailability_warm:
  assumes "balances (db w) (e, l) = Some b" "lastHcmAsOf b \<noteq> None"
  shows "validateAvailability E e l n w =
     ((if available b - reserved b < n then Raise (insufficient b n) else Ok ()), w)"
  using assms
  by (simp add: validateAvailability_def andThen_def getBalance_warm throw_apply return_apply)

section \<open>Locks and transactions\<close>

lemma runExclusive_free:
  assumes "k \<notin> set (held w)" "m (w\<lparr>held := k # held w\<rparr>) = (r, w')" "r \<noteq> Hang" "held w' = k # held w"
  shows "runExclusive k m w = (r, w'\<lparr>held := held w\<rparr>)"
  using assms by (cases r) (simp_all add: runExclusive_def)

lemma runExclusive_held: "k \<in> set (held w) \<Longrightarrow> runExclusive k m w = (Hang, w)"
  by (simp add: runExclusive_def)

lemma transaction_ok: "m w = (Ok x, w') \<Longrightarrow> transaction m w = (Ok x, w')"
  by (simp add: transaction_def)

lemma findRequest_in [svc_simps]:
  assumes "distinct (map r_id (requests (db w)))" "r \<in> set (requests (db w))" "r_id r = i"
  shows "findRequest i w = (Ok (Some r), w)"
  using find_key_eq[OF assms(1,2)] assms(3) by (simp add: findRequest_def query_apply)

text \<open>A transaction-wrapped settlement either happens or leaves the database alone.\<close>

definition all_or_nothing :: "('a, 'h) svc \<Rightarrow> bool" where
  "all_or_nothing m = (\<forall>w. (\<exists>x. fst (m w) = Ok x) \<or> db (snd (m w)) = db w)"

lemma all_or_nothing_spec: "all_or_nothing m \<longleftrightarrow> (\<forall>w. spec m (\<lambda>_ _. True) (\<lambda>w'. db w' = db w) w)"
proof -
  have "(\<exists>x. fst (m w) = Ok x) \<or> db (snd (m w)) = db w \<longleftrightarrow>
        spec m (\<lambda>_ _. True) (\<lambda>w'. db w' = db w) w" for w
    by (cases "m w"; cases "fst (m w)") (auto simp: spec_def)
  then show ?thesis by (simp add: all_or_nothing_def)
qed

lemma spec_transaction_undone: "spec (transaction m) (\<lambda>_ _. True) (\<lambda>w'. db w' = db w) w"
  by (cases "m w"; cases "fst (m w)") (auto simp: spec_def transaction_def)

lemma settle_all_or_nothing:
  "all_or_nothing (reject_locked i)" "all_or_nothing (cancel_locked E i)" "all_or_nothing (expire i)"
  unfolding all_or_nothing_spec reject_locked_def cancel_locked_def expire_def
  by (intro allI spec_found spec_if spec_throw spec_return spec_transaction_undone refl TrueI)+

section \<open>Submission\<close>

text \<open>The two identifiers a submission draws: the HCM key first, then the request's id.\<close>

definition submitted ::
  "'h env \<Rightarrow> string \<Rightarrow> string \<Rightarrow> string \<Rightarrow> string \<Rightarrow> string \<Rightarrow> int \<Rightarrow> 'h world \<Rightarrow> request" where
  "submitted E e l startD endD key n w =
     (new_request E e l startD endD key n (clock w) (uuid E (uuidNext w)))
       \<lparr>r_id := uuid E (Suc (uuidNext w))\<rparr>"

definition no_such_key :: "string \<Rightarrow> database \<Rightarrow> bool" where
  "no_such_key key d = (\<forall>r \<in> set (requests d). idempotencyKey r \<noteq> key)"

lemma fresh_next:
  assumes "inj (uuid E)" "db_inv E n d" "r \<in> set (requests d)"
  shows "r_id r \<noteq> uuid E (Suc n)"
proof -
  have "r_id r \<in> uuid E ` {..<n}" using db_invD(3)[OF assms(2)] assms(3) by (simp add: ids_below_def)
  then obtain m where "m < n" "r_id r = uuid E m" by auto
  then show ?thesis using injD[OF assms(1), of m "Suc n"] by auto
qed

text \<open>The database the new row is inserted in: a terminal request has given the key up.\<close>

definition freed :: "request option \<Rightarrow> database \<Rightarrow> database" where
  "freed existing d = (case existing of
      None \<Rightarrow> d
    | Some old \<Rightarrow> if status old \<in> TERMINAL_STATUSES then rename_key old d else d)"

definition key_freed :: "request option \<Rightarrow> database \<Rightarrow> bool" where
  "key_freed existing d = (case existing of
      None \<Rightarrow> True | Some old \<Rightarrow> old \<in> set (requests d) \<and> no_such_key (terminal_key old) d)"

lemma freed_simps [simp]:
  "balances (freed existing d) = balances d" "outbox (freed existing d) = outbox d"
  "available_of (freed existing d) k = available_of d k" "reserved_of (freed existing d) k = reserved_of d k"
  by (simp_all add: freed_def rename_key_def available_of_def reserved_of_def split: option.split)

lemma freed_inv:
  assumes "db_inv E n d" "key_freed existing d"
  shows "db_inv E n (freed existing d)"
proof (cases existing)
  case (Some old)
  then have "old \<in> set (requests d)" "\<not> key_taken (old\<lparr>idempotencyKey := terminal_key old\<rparr>) d"
    using assms(2) by (auto simp: key_freed_def key_taken_def no_such_key_def)
  then show ?thesis
    using Some assms(1) rename_terminal[OF assms(1), of old old] by (simp add: freed_def)
qed (use assms in \<open>simp add: freed_def\<close>)

lemma create_and_reserve_ok:
  assumes f: "faults w = []" and ex: "key_freed existing (db w)"
    and key: "no_such_key (idempotencyKey req) (freed existing (db w))"
    and av: "days req \<le> available_of (db w) (r_employeeId req, r_locationId req)
                          - reserved_of (db w) (r_employeeId req, r_locationId req)"
  shows "create_and_reserve E existing req w =
     (Ok (req\<lparr>r_id := uuid E (uuidNext w)\<rparr>),
      w\<lparr>uuidNext := Suc (uuidNext w),
        db := change_balance (mut_reserve (days req)) (r_employeeId req, r_locationId req)
                (set_request (req\<lparr>r_id := uuid E (uuidNext w)\<rparr>) (freed existing (db w)))\<rparr>)"
proof -
  have "\<not> key_taken (req\<lparr>r_id := i\<rparr>) (freed existing (db w))" for i
    using key by (auto simp: key_taken_def no_such_key_def)
  moreover have "(case existing of None \<Rightarrow> return ()
      | Some old \<Rightarrow> if status old \<in> TERMINAL_STATUSES then free_terminal_key old else return ()) w
      = (Ok (), w\<lparr>db := freed existing (db w)\<rparr>)"
    using ex f
    by (auto simp: freed_def key_freed_def free_terminal_key_def key_taken_def no_such_key_def fault_free_simps
        return_apply split: option.split)
  ultimately show ?thesis
    using f av
    by (simp add: create_and_reserve_def transaction_def andThen_def fresh_uuid_def return_apply
        save_request_fault_free reserve_ok)
qed

lemma find_after_insert:
  assumes "inj (uuid E)" "db_inv E n d" "r_id r = uuid E (Suc n)"
  shows "List.find (\<lambda>x. r_id x = uuid E (Suc n)) (requests (set_request r d)) = Some r"
proof -
  have new: "\<forall>x \<in> set (requests d). r_id x \<noteq> uuid E (Suc n)"
    using fresh_next[OF assms(1,2)] by blast
  then have "requests (set_request r d) = requests d @ [r]"
    using assms(3) by (auto simp: upsert_by_def)
  moreover have "List.find (\<lambda>x. r_id x = uuid E (Suc n)) (xs @ [r]) = Some r"
    if "\<forall>x \<in> set xs. r_id x \<noteq> uuid E (Suc n)" for xs
    using that assms(3) by (induction xs) auto
  ultimately show ?thesis using new by simp
qed

lemma db_inv_Suc: "db_inv E n d \<Longrightarrow> db_inv E (Suc n) d"
  by (erule db_inv_mono) simp

lemma andThen_uuid [svc_simps]:
  "andThen (fresh_uuid E) f w = f (uuid E (uuidNext w)) (w\<lparr>uuidNext := Suc (uuidNext w)\<rparr>)"
  by (simp add: andThen_def fresh_uuid_def)

lemma submit_fresh_ok:
  assumes f: "faults w = []" and inv: "db_inv E (uuidNext w) (db w)" and inj: "inj (uuid E)"
    and key: "key_freed existing (db w)" "no_such_key key (freed existing (db w))"
    and ov: "List.find (overlaps e l startD endD) (requests (db w)) = None"
    and n: "countBusinessDays startD endD {} = Inr n" "n \<noteq> 0"
    and past: "\<not> str_less endD (civil_date_string (clock w))"
    and b: "balances (db w) (e, l) = Some b" "lastHcmAsOf b \<noteq> None" "n \<le> available b - reserved b"
  shows "submit_fresh E e l startD endD key existing w =
     (Ok (submitted E e l startD endD key n w),
      w\<lparr>uuidNext := Suc (Suc (uuidNext w)),
        db := change_balance (mut_reserve n) (e, l)
                (set_request (submitted E e l startD endD key n w) (freed existing (db w)))\<rparr>)"
proof -
  have av: "available_of (db w) (e, l) = available b" "reserved_of (db w) (e, l) = reserved b"
    using b(1) by (simp_all add: available_of_def reserved_of_def)
  let ?w = "w\<lparr>uuidNext := Suc (uuidNext w)\<rparr>"
  let ?req = "new_request E e l startD endD key n (clock w) (uuid E (uuidNext w))"
  have req: "r_employeeId ?req = e" "r_locationId ?req = l" "days ?req = n" "idempotencyKey ?req = key"
    by (simp_all add: new_request_def)
  have "create_and_reserve E existing ?req ?w =
     (Ok (?req\<lparr>r_id := uuid E (uuidNext ?w)\<rparr>),
      ?w\<lparr>uuidNext := Suc (uuidNext ?w),
        db := change_balance (mut_reserve (days ?req)) (r_employeeId ?req, r_locationId ?req)
                (set_request (?req\<lparr>r_id := uuid E (uuidNext ?w)\<rparr>) (freed existing (db ?w)))\<rparr>)"
    by (rule create_and_reserve_ok) (use f key av b(3) in \<open>simp_all add: req\<close>)
  then have create: "create_and_reserve E existing ?req ?w =
     (Ok (submitted E e l startD endD key n w),
      w\<lparr>uuidNext := Suc (Suc (uuidNext w)),
        db := change_balance (mut_reserve n) (e, l)
                (set_request (submitted E e l startD endD key n w) (freed existing (db w)))\<rparr>)"
    by (simp add: req submitted_def)
  have saved: "List.find (\<lambda>x. r_id x = r_id (submitted E e l startD endD key n w))
      (requests (set_request (submitted E e l startD endD key n w) (freed existing (db w))))
      = Some (submitted E e l startD endD key n w)"
    using find_after_insert[OF inj freed_inv[OF inv key(1)], of "submitted E e l startD endD key n w"]
    by (simp add: submitted_def)
  show ?thesis
    unfolding submit_fresh_def findOverlapping_def
    using n past b ov create saved
    by (simp add: andThen_query andThen_now lift_result_def andThen_return andThen_def[of "validateAvailability E e l n"]
        validateAvailability_warm[OF b(1,2)] andThen_uuid findRequest_def return_apply
        andThen_def[of "create_and_reserve E existing _"])
qed

lemma submit_locked_ok:
  assumes f: "faults w = []" and inv: "db_inv E (uuidNext w) (db w)" and inj: "inj (uuid E)"
    and key: "no_such_key key (db w)"
    and rest: "List.find (overlaps e l startD endD) (requests (db w)) = None"
      "countBusinessDays startD endD {} = Inr n" "n \<noteq> 0"
      "\<not> str_less endD (civil_date_string (clock w))"
      "balances (db w) (e, l) = Some b" "lastHcmAsOf b \<noteq> None" "n \<le> available b - reserved b"
  shows "submit_locked E e l startD endD key w =
     (Ok (submitted E e l startD endD key n w),
      w\<lparr>uuidNext := Suc (Suc (uuidNext w)),
        db := change_balance (mut_reserve n) (e, l) (set_request (submitted E e l startD endD key n w) (db w))\<rparr>)"
proof -
  have "List.find (\<lambda>r. idempotencyKey r = key) (requests (db w)) = None"
    using key by (simp add: find_None_all no_such_key_def)
  then have "submit_locked E e l startD endD key w = submit_fresh E e l startD endD key None w"
    by (simp add: submit_locked_def findByIdempotencyKey_def andThen_query)
  then show ?thesis
    using submit_fresh_ok[OF f inv inj _ _ rest, of None] key by (simp add: key_freed_def freed_def)
qed

lemma find_by_key:
  assumes "db_inv E n d" "r \<in> set (requests d)"
  shows "List.find (\<lambda>x. idempotencyKey x = idempotencyKey r) (requests d) = Some r"
  using find_key_eq[of idempotencyKey "requests d" r] db_invD(2)[OF assms(1)] assms(2)
  by (simp add: keys_distinct_def)

text \<open>A terminal request under the same key gives the key up to a new request.\<close>

lemma submit_locked_terminal:
  assumes f: "faults w = []" and inv: "db_inv E (uuidNext w) (db w)" and inj: "inj (uuid E)"
    and old: "old \<in> set (requests (db w))" "status old \<in> TERMINAL_STATUSES" "no_such_key (terminal_key old) (db w)"
    and rest: "List.find (overlaps e l startD endD) (requests (db w)) = None"
      "countBusinessDays startD endD {} = Inr n" "n \<noteq> 0"
      "\<not> str_less endD (civil_date_string (clock w))"
      "balances (db w) (e, l) = Some b" "lastHcmAsOf b \<noteq> None" "n \<le> available b - reserved b"
  shows "submit_locked E e l startD endD (idempotencyKey old) w =
     (Ok (submitted E e l startD endD (idempotencyKey old) n w),
      w\<lparr>uuidNext := Suc (Suc (uuidNext w)),
        db := change_balance (mut_reserve n) (e, l)
                (set_request (submitted E e l startD endD (idempotencyKey old) n w) (rename_key old (db w)))\<rparr>)"
proof -
  have start: "submit_locked E e l startD endD (idempotencyKey old) w =
      submit_fresh E e l startD endD (idempotencyKey old) (Some old) w"
    using find_by_key[OF inv old(1)] old(2) terminal_not_active
    by (simp add: submit_locked_def findByIdempotencyKey_def andThen_query)
  have one: "x = old" if "x \<in> set (requests (db w))" "idempotencyKey x = idempotencyKey old" for x
    using trans[OF find_by_key[OF inv that(1), unfolded that(2), symmetric] find_by_key[OF inv old(1)]]
    by (rule option.inject[THEN iffD1])
  have free: "no_such_key (idempotencyKey old) (rename_key old (db w))"
    unfolding no_such_key_def rename_key_def
  proof (intro ballI notI)
    fix y
    assume "y \<in> set (requests ((db w)\<lparr>requests := update_where (\<lambda>x. r_id x = r_id old)
        (\<lambda>x. x\<lparr>idempotencyKey := terminal_key old\<rparr>) (requests (db w))\<rparr>))" "idempotencyKey y = idempotencyKey old"
    then obtain x where x: "x \<in> set (requests (db w))"
        "y = (if r_id x = r_id old then x\<lparr>idempotencyKey := terminal_key old\<rparr> else x)"
        "idempotencyKey y = idempotencyKey old"
      by (simp add: in_set_update_where) blast
    show False
    proof (cases "r_id x = r_id old")
      case True
      then show ?thesis using x(2,3) by (simp add: terminal_key_def)
    next
      case False
      then show ?thesis using one[OF x(1)] x(2,3) by simp
    qed
  qed
  have freed: "freed (Some old) (db w) = rename_key old (db w)" and keys: "key_freed (Some old) (db w)"
    using old by (simp_all add: freed_def key_freed_def)
  show ?thesis
    unfolding start
    by (rule submit_fresh_ok[OF f inv inj keys _ rest, unfolded freed]) (rule free)
qed

lemma find_by_id:
  assumes "db_inv E n d" "r \<in> set (requests d)"
  shows "List.find (\<lambda>x. r_id x = r_id r) (requests d) = Some r"
  using find_key_eq[of r_id "requests d" r] db_invD(2)[OF assms(1)] assms(2)
  by (simp add: keys_distinct_def)

lemma findRequest_of:
  assumes "db_inv E n (db w)" "r \<in> set (requests (db w))"
  shows "findRequest (r_id r) w = (Ok (Some r), w)"
  using find_by_id[OF assms] by (simp add: findRequest_def query_apply)

text \<open>An active request under the same key: answered with itself, or refused; nothing is written.\<close>

lemma submit_locked_replay:
  assumes "db_inv E n (db w)" "r \<in> set (requests (db w))" "status r \<in> ACTIVE_STATUSES"
  shows "submit_locked E e l startD endD (idempotencyKey r) w =
     ((if same_body r e l startD endD then Ok r
       else Raise (UnprocessableEntityException Idempotency_body_mismatch)), w)"
  using assms(3) find_by_key[OF assms(1,2)]
  by (simp add: submit_locked_def findByIdempotencyKey_def andThen_query return_apply throw_apply)

lemma submit_locked_overlap:
  assumes "no_such_key key (db w)" "List.find (overlaps e l startD endD) (requests (db w)) = Some r"
  shows "submit_locked E e l startD endD key w =
     (Raise (ConflictException (Range_overlaps (r_id r))), w)"
proof -
  have "List.find (\<lambda>r. idempotencyKey r = key) (requests (db w)) = None"
    using assms(1) by (simp add: find_None_all no_such_key_def)
  then show ?thesis
    using assms(2)
    by (simp add: submit_locked_def findByIdempotencyKey_def submit_fresh_def findOverlapping_def
        andThen_query throw_apply)
qed

section \<open>Approval\<close>

definition committed_request :: "int \<Rightarrow> request \<Rightarrow> request" where
  "committed_request t r = r\<lparr>committedAt := Some t, status := RequestStatus.PENDING_SYNC\<rparr>"

definition queued :: "'h env \<Rightarrow> OutboxOperation \<Rightarrow> request \<Rightarrow> 'h world \<Rightarrow> outbox_row" where
  "queued E op r w = (buildOutboxRow r op)\<lparr>o_id := uuid E (uuidNext w), o_createdAt := dbClock w\<rparr>"

lemma insert_outbox_ok [svc_simps]:
  assumes "faults w = []"
  shows "insert_outbox E row w =
     (Ok (), w\<lparr>uuidNext := Suc (uuidNext w),
               db := set_outbox (row\<lparr>o_id := uuid E (uuidNext w), o_createdAt := dbClock w\<rparr>) (db w)\<rparr>)"
  using assms by (simp add: insert_outbox_def andThen_uuid fault_free_simps)

lemma key_taken_own:
  assumes "db_inv E n d" "r \<in> set (requests d)" "r_id r' = r_id r" "idempotencyKey r' = idempotencyKey r"
    "requests d' = requests d"
  shows "\<not> key_taken r' d'"
proof -
  have "distinct (map idempotencyKey (requests d))"
    using db_invD(2)[OF assms(1)] by (simp add: keys_distinct_def)
  then show ?thesis
    using key_unique[of idempotencyKey "requests d" _ r] assms(2-5) by (auto simp: key_taken_def)
qed

lemma commit_and_enqueue_ok:
  assumes f: "faults w = []" and inv: "db_inv E n (db w)" and r: "r \<in> set (requests (db w))"
  shows "commit_and_enqueue E r t w =
     (Ok (committed_request t r),
      w\<lparr>uuidNext := Suc (uuidNext w),
        db := set_request (committed_request t r) (set_outbox (queued E FILE (committed_request t r) w)
                (change_balance (mut_commit (days r)) (key_of r) (db w)))\<rparr>)"
proof -
  have "\<not> key_taken (committed_request t r) (set_outbox x (change_balance g k (db w)))" for x g k
    by (rule key_taken_own[OF inv r]) (simp_all add: committed_request_def)
  then show ?thesis
    using f unfolding commit_and_enqueue_def Let_def committed_request_def queued_def
    by (simp add: transaction_def andThen_def commit_ok insert_outbox_ok save_request_fault_free
        return_apply key_of_def)
qed

lemma release_and_reject_ok:
  assumes f: "faults w = []" and inv: "db_inv E n (db w)" and r: "r \<in> set (requests (db w))"
  shows "release_and_reject r w =
     (Ok (r\<lparr>status := RequestStatus.REJECTED\<rparr>),
      w\<lparr>db := set_request (r\<lparr>status := RequestStatus.REJECTED\<rparr>)
                (change_balance (mut_release (days r)) (key_of r) (db w))\<rparr>)"
proof -
  have "\<not> key_taken (r\<lparr>status := RequestStatus.REJECTED\<rparr>) (change_balance g k (db w))" for g k
    by (rule key_taken_own[OF inv r]) simp_all
  then show ?thesis
    using f unfolding release_and_reject_def
    by (simp add: transaction_def andThen_def release_ok save_request_fault_free return_apply key_of_def)
qed

text \<open>An approval when HCM does not answer: committed against the local balance.\<close>

lemma approve_locked_hcm_down:
  assumes f: "faults w = []" and inv: "db_inv E n (db w)" and r: "r \<in> set (requests (db w))"
    and st: "status r = RequestStatus.PENDING" "\<not> str_less (startDate r) (civil_date_string (clock w))"
    and down: "hcm_getBalance E (r_employeeId r) (r_locationId r) (hcm w)
                 = (Inl (HcmUnavailableError op), h)"
  shows "approve_locked E (r_id r) w =
     (Ok (committed_request (clock w) r),
      w\<lparr>hcm := h, uuidNext := Suc (uuidNext w),
        db := set_request (committed_request (clock w) r)
                (set_outbox (queued E FILE (committed_request (clock w) r) w)
                (change_balance (mut_commit (days r)) (key_of r) (db w)))\<rparr>)"
proof -
  have "refresh_from_hcm E r w = (Ok None, w\<lparr>hcm := h\<rparr>)"
    using down by (simp add: refresh_from_hcm_def try_catch_def andThen_def call_hcm_def return_apply)
  moreover have "commit_and_enqueue E r t (w\<lparr>hcm := h\<rparr>) =
     (Ok (committed_request t r),
      (w\<lparr>hcm := h\<rparr>)\<lparr>uuidNext := Suc (uuidNext (w\<lparr>hcm := h\<rparr>)),
        db := set_request (committed_request t r) (set_outbox (queued E FILE (committed_request t r) (w\<lparr>hcm := h\<rparr>))
                (change_balance (mut_commit (days r)) (key_of r) (db (w\<lparr>hcm := h\<rparr>))))\<rparr>)" for t
    by (rule commit_and_enqueue_ok) (use f inv r in simp_all)
  ultimately show ?thesis
    unfolding approve_locked_def
    using st by (simp add: andThen_def[of "findRequest _"] findRequest_of[OF inv r] andThen_now
        andThen_def[of "refresh_from_hcm E r"] queued_def)
qed

text \<open>An approval when HCM answers for the request's own balance.\<close>

definition refreshed :: "request \<Rightarrow> hcm_balance \<Rightarrow> database \<Rightarrow> database" where
  "refreshed r s d = change_balance (mut_snapshot s) (key_of r) d"

lemma approve_locked_hcm_up:
  assumes f: "faults w = []" and inv: "db_inv E n (db w)" and r: "r \<in> set (requests (db w))"
    and st: "status r = RequestStatus.PENDING" "\<not> str_less (startDate r) (civil_date_string (clock w))"
    and up: "hcm_getBalance E (r_employeeId r) (r_locationId r) (hcm w) = (Inr s, h)"
      "(h_employeeId s, h_locationId s) = key_of r"
  shows "approve_locked E (r_id r) w =
     (if h_balance s - reserved_of (db w) (key_of r) < days r
      then (Ok (r\<lparr>status := RequestStatus.REJECTED\<rparr>),
            w\<lparr>hcm := h,
              db := set_request (r\<lparr>status := RequestStatus.REJECTED\<rparr>)
                      (change_balance (mut_release (days r)) (key_of r) (refreshed r s (db w)))\<rparr>)
      else (Ok (committed_request (clock w) r),
            w\<lparr>hcm := h, uuidNext := Suc (uuidNext w),
              db := set_request (committed_request (clock w) r)
                      (set_outbox (queued E FILE (committed_request (clock w) r) w)
                      (change_balance (mut_commit (days r)) (key_of r) (refreshed r s (db w))))\<rparr>))"
proof -
  let ?w = "w\<lparr>hcm := h, db := refreshed r s (db w)\<rparr>"
  note keyed = db_invD(1)[OF inv]
  have res: "reserved (mut_snapshot s (bal (db w) k)) = reserved_of (db w) k" for k
    by (simp add: mut_snapshot_def of_bal)
  have inv': "db_inv E n (db ?w)"
    using balance_change_safe[OF inv, of "mut_snapshot s" "key_of r" False] res
    by (simp add: refreshed_def)
  have r': "r \<in> set (requests (db ?w))" using r by (simp add: refreshed_def)
  have b: "balances (db ?w) (r_employeeId r, r_locationId r) = Some (mut_snapshot s (bal (db w) (key_of r)))"
    using keyed by (simp add: refreshed_def balances_change key_of_def)
  have warm: "lastHcmAsOf (mut_snapshot s (bal (db w) (key_of r))) \<noteq> None"
    by (simp add: mut_snapshot_def)
  have snap: "applyHcmSnapshot s (w\<lparr>hcm := h\<rparr>) = (Ok (), ?w)"
    using f up(2) by (simp add: applyHcmSnapshot_ok refreshed_def)
  have av: "available (mut_snapshot s b) = h_balance s" for b by (simp add: mut_snapshot_def)
  have refresh: "refresh_from_hcm E r w =
     (if h_balance s - reserved_of (db w) (key_of r) < days r
      then (Ok (Some (r\<lparr>status := RequestStatus.REJECTED\<rparr>)),
            ?w\<lparr>db := set_request (r\<lparr>status := RequestStatus.REJECTED\<rparr>)
                      (change_balance (mut_release (days r)) (key_of r) (db ?w))\<rparr>)
      else (Ok None, ?w))"
    using up(1) snap release_and_reject_ok[OF _ inv' r'] f
    by (simp add: refresh_from_hcm_def try_catch_def andThen_def call_hcm_def getBalance_warm[OF b warm]
        return_apply res av)
  show ?thesis
    unfolding approve_locked_def
    using st refresh commit_and_enqueue_ok[OF _ inv' r'] f
    by (simp add: andThen_def[of "findRequest _"] findRequest_of[OF inv r] andThen_now
        andThen_def[of "refresh_from_hcm E r"] return_apply queued_def refreshed_def)
qed

section \<open>Cancellation\<close>

lemma cancel_locked_again:
  assumes "db_inv E n (db w)" "r \<in> set (requests (db w))" "status r = RequestStatus.CANCELLED"
  shows "cancel_locked E (r_id r) w = (Ok r, w)"
  using assms(3)
  by (simp add: cancel_locked_def andThen_def[of "findRequest _"] findRequest_of[OF assms(1,2)] return_apply)

lemma cancel_locked_approved:
  assumes f: "faults w = []" and inv: "db_inv E n (db w)" and r: "r \<in> set (requests (db w))"
    "status r = RequestStatus.APPROVED"
  shows "cancel_locked E (r_id r) w =
     (Ok (r\<lparr>status := RequestStatus.CANCELLED\<rparr>),
      w\<lparr>uuidNext := Suc (uuidNext w),
        db := set_request (r\<lparr>status := RequestStatus.CANCELLED\<rparr>) (set_outbox (queued E REVERSE r w)
                (change_balance (mut_restore (days r)) (key_of r) (db w)))\<rparr>)"
proof -
  have "\<not> key_taken (r\<lparr>status := RequestStatus.CANCELLED\<rparr>) (set_outbox x (change_balance g k (db w)))" for x g k
    by (rule key_taken_own[OF inv r(1)]) simp_all
  then show ?thesis
    using f r(2)
    by (simp add: cancel_locked_def andThen_def[of "findRequest _"] findRequest_of[OF inv r(1)]
        cancel_effect_def restore_and_reverse_def queued_def transaction_def andThen_def restore_ok
        insert_outbox_ok save_request_fault_free return_apply key_of_def)
qed

text \<open>Cancelling while the FILE row is still pending voids it and files nothing to undo it.\<close>

lemma cancel_locked_sync:
  assumes f: "faults w = []" and inv: "db_inv E n (db w)" and r: "r \<in> set (requests (db w))"
    "status r = RequestStatus.PENDING_SYNC"
  shows "cancel_locked E (r_id r) w =
     (Ok (r\<lparr>status := RequestStatus.CANCELLED\<rparr>),
      w\<lparr>db := set_request (r\<lparr>status := RequestStatus.CANCELLED\<rparr>)
                (change_balance (mut_restore (days r)) (key_of r) (void_files (r_id r) (db w)))\<rparr>)"
proof -
  have "\<not> key_taken (r\<lparr>status := RequestStatus.CANCELLED\<rparr>) (change_balance g k (void_files i (db w)))" for g k i
    by (rule key_taken_own[OF inv r(1)]) simp_all
  then show ?thesis
    using f r(2) sync_file_not_sent[OF inv r]
    by (simp add: cancel_locked_def andThen_def[of "findRequest _"] findRequest_of[OF inv r(1)]
        cancel_effect_def findFileRow_def query_apply voidPendingFileRows_def fault_free_simps
        transaction_def andThen_def restore_ok save_request_fault_free return_apply key_of_def)
qed

section \<open>The cold read under a held lock\<close>

text \<open>
  A cold balance, lazy loading on, HCM down: the read before the lock answers a degraded row and
  stores nothing, so the availability check inside the lock finds the balance cold again and
  waits for the lock its own call holds.
\<close>

lemma cold_read_waits:
  assumes "\<not> is_warm (balances (db w) (e, l))" "balanceLazyLoadEnabled E"
    "balanceKey e l \<in> set (held w)"
  shows "getBalance E e l w = (Hang, w)"
  using assms by (simp add: getBalance_def findBalance_def andThen_query runExclusive_held)

lemma cold_prewarm_down:
  assumes "\<not> is_warm (balances (db w) (e, l))" "balanceLazyLoadEnabled E"
    "balanceKey e l \<notin> set (held w)"
    "hcm_getBalance E e l (hcm w) = (Inl (HcmUnavailableError op), h)"
  shows "getBalance E e l w = (Ok (Some (fresh_balance e l, True)), w\<lparr>hcm := h\<rparr>)"
proof -
  have "hydrate E e l (w\<lparr>held := balanceKey e l # held w\<rparr>)
      = (Ok (Some (fresh_balance e l, True)), w\<lparr>held := balanceKey e l # held w, hcm := h\<rparr>)"
    using assms(1,4)
    by (simp add: hydrate_def findBalance_def andThen_query try_catch_def andThen_def call_hcm_def
        return_apply query_apply)
  then show ?thesis
    using assms(1-3)
    by (simp add: getBalance_def findBalance_def andThen_query runExclusive_def)
qed

lemma cold_submit_locked_waits:
  assumes key: "no_such_key key (db w)"
    and ov: "List.find (overlaps e l startD endD) (requests (db w)) = None"
    and n: "countBusinessDays startD endD {} = Inr n" "n \<noteq> 0"
    and past: "\<not> str_less endD (civil_date_string (clock w))"
    and cold: "\<not> is_warm (balances (db w) (e, l))" "balanceLazyLoadEnabled E"
      "balanceKey e l \<in> set (held w)"
  shows "submit_locked E e l startD endD key w = (Hang, w)"
proof -
  have "List.find (\<lambda>r. idempotencyKey r = key) (requests (db w)) = None"
    using key by (simp add: find_None_all no_such_key_def)
  then show ?thesis
    using ov n past cold_read_waits[OF cold]
    by (simp add: submit_locked_def findByIdempotencyKey_def submit_fresh_def findOverlapping_def
        query_apply now_apply return_apply lift_result_def validateAvailability_def andThen_def)
qed

end
