(* ===== verification/Actor_Results.thy ===== *)
theory Actor_Results
  imports Actors_Inv Service_Results
begin

text \<open>
  What the dispatcher and the reconciliation return and write when the database does not fail.
\<close>

section \<open>One dispatch\<close>

lemma upsert_upsert:
  assumes "key x = key y"
  shows "upsert_by key y (upsert_by key x xs) = upsert_by key y xs"
proof (cases "\<exists>z \<in> set xs. key z = key x")
  case True
  then obtain z where z: "z \<in> set xs" "key z = key x" by blast
  have twice: "update_where (\<lambda>z. key z = key y) (\<lambda>_. y) (update_where (\<lambda>z. key z = key x) (\<lambda>_. x) xs)
      = update_where (\<lambda>z. key z = key y) (\<lambda>_. y) xs" for xs
    using assms by (induction xs) simp_all
  have "x \<in> set (update_where (\<lambda>z. key z = key x) (\<lambda>_. x) xs)"
    unfolding in_set_update_where using z by force
  then have "upsert_by key y (update_where (\<lambda>z. key z = key x) (\<lambda>_. x) xs)
      = update_where (\<lambda>z. key z = key y) (\<lambda>_. y) xs"
    unfolding upsert_by_def twice using assms by metis
  moreover have "upsert_by key x xs = update_where (\<lambda>z. key z = key x) (\<lambda>_. x) xs"
    using True by (simp add: upsert_by_def)
  moreover have "upsert_by key y xs = update_where (\<lambda>z. key z = key y) (\<lambda>_. y) xs"
    using z assms unfolding upsert_by_def by metis
  ultimately show ?thesis by simp
next
  case False
  then have "update_where (\<lambda>z. key z = key y) (\<lambda>_. y) xs = xs"
    using assms by (intro update_where_none) auto
  then show ?thesis using False assms by (auto simp: upsert_by_def)
qed

lemma set_outbox_twice: "o_id x = o_id y \<Longrightarrow> set_outbox y (set_outbox x d) = set_outbox y d"
  by (simp add: set_outbox_def upsert_upsert)

definition attempted :: "outbox_row \<Rightarrow> outbox_row" where
  "attempted x = x\<lparr>attempts := attempts x + 1\<rparr>"

lemma attempted_simps [simp]:
  "o_id (attempted x) = o_id x" "operation (attempted x) = operation x" "payload (attempted x) = payload x"
  "o_status (attempted x) = o_status x" "aggregateId (attempted x) = aggregateId x"
  "attempts (attempted x) = attempts x + 1"
  by (simp_all add: attempted_def)

text \<open>The database after the dispatch of \<open>x\<close>, by the verdict of HCM.\<close>

definition dispatched ::
  "'h env \<Rightarrow> outbox_row \<Rightarrow> request \<Rightarrow> js_date option \<Rightarrow> 'h world \<Rightarrow> database" where
  "dispatched E x r outcome w = (case outcome of
      Some acked \<Rightarrow>
        set_request (if operation x = FILE
                     then r\<lparr>hcmAckAt := Some acked, status := RequestStatus.APPROVED\<rparr>
                     else r\<lparr>hcmAckAt := Some acked\<rparr>)
          (set_outbox ((attempted x)\<lparr>o_status := SENT\<rparr>) (db w))
    | None \<Rightarrow>
        if attempts x + 1 < hcmRetryMaxAttempts E then set_outbox (attempted x) (db w)
        else if operation x = FILE then
          set_outbox (queued E REVERSE r w)
            (set_request (r\<lparr>status := RequestStatus.REJECTED\<rparr>)
              (set_outbox ((attempted x)\<lparr>o_status := FAILED\<rparr>)
                (change_balance (mut_restore (days r)) (key_of r) (db w))))
        else set_outbox ((attempted x)\<lparr>o_status := FAILED\<rparr>) (db w))"

definition gives_up :: "'h env \<Rightarrow> outbox_row \<Rightarrow> js_date option \<Rightarrow> bool" where
  "gives_up E x outcome =
     (outcome = None \<and> hcmRetryMaxAttempts E \<le> attempts x + 1 \<and> operation x = FILE)"

lemma set_outbox_change: "set_outbox x (change_balance f k d) = change_balance f k (set_outbox x d)"
  by (simp add: set_outbox_def change_balance_def set_balance_def bal_def)

lemma begin_attempt_ok:
  assumes f: "faults w = []" and inv: "db_inv E n (db w)" and x: "x \<in> set (outbox (db w))"
    "o_status x = OutboxStatus.PENDING" and r: "r \<in> set (requests (db w))" "aggregateId x = r_id r"
  shows "begin_attempt (o_id x) w =
     (Ok (Some (attempted x, r)), w\<lparr>db := set_outbox (attempted x) (db w)\<rparr>)"
proof -
  have "List.find (\<lambda>y. o_id y = o_id x) (outbox (db w)) = Some x"
    using find_key_eq[of o_id "outbox (db w)" x] db_inv_outbox_ids(1)[OF inv] x(1) by simp
  then show ?thesis
    using f x(2) findRequest_of[OF inv r(1)] r(2)
    by (simp add: begin_attempt_def transaction_def findOutbox_def andThen_query
        andThen_def[of "findRequest _"] andThen_def[of "save_outbox _"] fault_free_simps return_apply
        flip: attempted_def)
qed

lemma finish_attempt_ok:
  assumes f: "faults w = []" and inv: "db_inv E n d" and r: "r \<in> set (requests d)"
    and w: "db w = set_outbox (attempted x) d"
  shows "finish_attempt E (attempted x) r outcome w =
     (Ok (), w\<lparr>uuidNext := uuidNext w + (if gives_up E x outcome then 1 else 0),
              db := dispatched E x r outcome (w\<lparr>db := d\<rparr>)\<rparr>)"
proof -
  have free: "\<not> key_taken r' (set_outbox y d')"
    if "r_id r' = r_id r" "idempotencyKey r' = idempotencyKey r" "requests d' = requests d" for r' y d'
    by (rule key_taken_own[OF inv r that(1,2)]) (simp add: that(3))
  have free': "\<not> key_taken r' (change_balance g k (set_outbox y d'))"
    if "r_id r' = r_id r" "idempotencyKey r' = idempotencyKey r" "requests d' = requests d" for r' y d' g k
    by (rule key_taken_own[OF inv r that(1,2)]) (simp add: that(3))
  have same: "set_outbox (attempted x) (set_outbox (attempted x) d) = set_outbox (attempted x) d"
    by (rule set_outbox_twice) simp
  have sent: "set_outbox ((attempted x)\<lparr>o_status := s\<rparr>) (set_outbox (attempted x) d)
      = set_outbox ((attempted x)\<lparr>o_status := s\<rparr>) d" for s
    by (rule set_outbox_twice) simp
  show ?thesis
  proof (cases outcome)
    case (Some acked)
    then show ?thesis
      using f w free
      by (simp add: finish_attempt_def record_success_def Let_def transaction_def andThen_def
          fault_free_simps save_request_fault_free dispatched_def gives_up_def sent)
  next
    case None
    then show ?thesis
      using f w free free'
      by (simp add: finish_attempt_def record_failure_def transaction_def andThen_def fault_free_simps
          save_request_fault_free restore_ok insert_outbox_ok dispatched_def gives_up_def sent same
          queued_def set_outbox_change key_of_def)
  qed
qed

text \<open>The verdict always comes: an exception of the client counts as a refusal.\<close>

lemma hcm_attempt_returns:
  "\<exists>outcome h. hcm_attempt E x w = (Ok outcome, w\<lparr>hcm := h\<rparr>)
     \<and> hcm_attempt E x (w\<lparr>db := d\<rparr>) = (Ok outcome, w\<lparr>db := d, hcm := h\<rparr>)"
proof -
  let ?f = "case operation x of FILE \<Rightarrow> hcm_fileTimeOff E (payload x)
              | REVERSE \<Rightarrow> hcm_reverseTimeOff E (payload x)"
  show ?thesis
    unfolding hcm_attempt_def try_catch_def andThen_def call_hcm_def
    by (cases "?f (hcm w)"; cases "fst (?f (hcm w))") (auto simp: now_apply return_apply Let_def)
qed

lemma dispatch_locked_ok:
  assumes f: "faults w = []" and inv: "db_inv E n (db w)" and x: "x \<in> set (outbox (db w))"
    "o_status x = OutboxStatus.PENDING" and r: "r \<in> set (requests (db w))" "aggregateId x = r_id r"
    and a: "hcm_attempt E (attempted x) w = (Ok outcome, w\<lparr>hcm := h\<rparr>)"
  shows "dispatch_locked E (o_id x) w =
     (Ok (), w\<lparr>hcm := h, uuidNext := uuidNext w + (if gives_up E x outcome then 1 else 0),
              db := dispatched E x r outcome w\<rparr>)"
proof -
  let ?d = "set_outbox (attempted x) (db w)"
  obtain oc h' where oc: "hcm_attempt E (attempted x) w = (Ok oc, w\<lparr>hcm := h'\<rparr>)"
    "hcm_attempt E (attempted x) (w\<lparr>db := ?d\<rparr>) = (Ok oc, w\<lparr>db := ?d, hcm := h'\<rparr>)"
    using hcm_attempt_returns[of E "attempted x" w ?d] by blast
  have "hcm (w\<lparr>hcm := h'\<rparr>) = hcm (w\<lparr>hcm := h\<rparr>)" "oc = outcome"
    using a oc(1) by simp_all
  then have hh: "h' = h" "oc = outcome" by simp_all
  have "finish_attempt E (attempted x) r outcome (w\<lparr>db := ?d, hcm := h\<rparr>) =
     (Ok (), (w\<lparr>db := ?d, hcm := h\<rparr>)\<lparr>uuidNext := uuidNext (w\<lparr>db := ?d, hcm := h\<rparr>)
         + (if gives_up E x outcome then 1 else 0),
       db := dispatched E x r outcome ((w\<lparr>db := ?d, hcm := h\<rparr>)\<lparr>db := db w\<rparr>)\<rparr>)"
    by (rule finish_attempt_ok[OF _ inv r(1)]) (use f in simp_all)
  moreover have "dispatched E x r outcome (w\<lparr>hcm := h\<rparr>) = dispatched E x r outcome w"
    by (simp add: dispatched_def queued_def split: option.split)
  ultimately show ?thesis
    using oc(2) begin_attempt_ok[OF f inv x r]
    by (simp add: dispatch_locked_def andThen_def hh)
qed

section \<open>A row leaves PENDING after a bounded number of dispatches\<close>

lemma upsert_has: "x \<in> set (upsert_by key x xs)"
  by (auto simp: upsert_by_def in_set_update_where)

lemmas find_row_upsert = upsert_has[where key = o_id]

lemma set_outbox_keeps:
  assumes "o_id z \<noteq> o_id x" "x \<in> set (outbox d)"
  shows "x \<in> set (outbox (set_outbox z d))"
  using assms by (auto simp: upsert_by_def in_set_update_where intro!: bexI[of _ x])

lemma dispatched_row:
  assumes inv: "db_inv E (uuidNext w) (db w)" and inj: "inj (uuid E)" and x: "x \<in> set (outbox (db w))"
  shows "\<exists>x' \<in> set (outbox (dispatched E x r outcome w)). o_id x' = o_id x \<and>
     (o_status x' \<noteq> OutboxStatus.PENDING \<or>
      attempts x' = attempts x + 1 \<and> attempts x' < hcmRetryMaxAttempts E)"
proof -
  have row: "y \<in> set (outbox (set_outbox y d))" for y d by (simp add: find_row_upsert)
  have "o_id x \<in> uuid E ` {..<uuidNext w}" using db_inv_outbox_ids(2)[OF inv] x by blast
  then have "o_id x \<noteq> uuid E (uuidNext w)" using fresh_id(2)[OF inj inv] x by (metis imageI)
  then have new: "o_id (queued E REVERSE r w) \<noteq> o_id ((attempted x)\<lparr>o_status := FAILED\<rparr>)"
    by (simp add: queued_def)
  show ?thesis
  proof (cases outcome)
    case (Some acked)
    then show ?thesis
      by (intro bexI[of _ "(attempted x)\<lparr>o_status := SENT\<rparr>"]) (simp_all add: dispatched_def find_row_upsert)
  next
    case None
    have "(attempted x)\<lparr>o_status := FAILED\<rparr> \<in> set (outbox (set_outbox (queued E REVERSE r w)
        (set_request r' (set_outbox ((attempted x)\<lparr>o_status := FAILED\<rparr>) d))))" for r' d
      by (rule set_outbox_keeps[OF new]) (simp add: find_row_upsert)
    then have failed: "\<not> attempts x + 1 < hcmRetryMaxAttempts E \<Longrightarrow>
        (attempted x)\<lparr>o_status := FAILED\<rparr> \<in> set (outbox (dispatched E x r outcome w))"
      using None by (simp add: dispatched_def find_row_upsert)
    show ?thesis
    proof (cases "attempts x + 1 < hcmRetryMaxAttempts E")
      case True
      then show ?thesis
        using None by (intro bexI[of _ "attempted x"]) (simp_all add: dispatched_def find_row_upsert)
    next
      case False
      then show ?thesis using failed by (intro bexI[of _ "(attempted x)\<lparr>o_status := FAILED\<rparr>"]) simp_all
    qed
  qed
qed

lemma world_inv_safe: "world_inv E w \<Longrightarrow> safe E c (db w) w"
  by (simp add: safe_def)

lemma dispatch_once:
  assumes f: "faults w = []" and wi: "world_inv E w" and inj: "inj (uuid E)"
    and x: "x \<in> set (outbox (db w))" "o_status x = OutboxStatus.PENDING"
  obtains w' x' where "dispatch_locked E (o_id x) w = (Ok (), w')" "faults w' = []" "world_inv E w'"
    "x' \<in> set (outbox (db w'))" "o_id x' = o_id x"
    "o_status x' \<noteq> OutboxStatus.PENDING \<or>
       attempts x' = attempts x + 1 \<and> attempts x' < hcmRetryMaxAttempts E"
proof -
  have inv: "db_inv E (uuidNext w) (db w)" using wi by (simp add: world_inv_def)
  obtain r where r: "r \<in> set (requests (db w))" "r_id r = aggregateId x"
    by (rule row_has_request[OF inv x(1)])
  obtain oc h where "hcm_attempt E (attempted x) w = (Ok oc, w\<lparr>hcm := h\<rparr>)"
    using hcm_attempt_returns[of E "attempted x" w] by blast
  note run = dispatch_locked_ok[OF f inv x r(1) r(2)[symmetric] this]
  let ?w = "snd (dispatch_locked E (o_id x) w)"
  have "spec (dispatch_locked E (o_id x)) (\<lambda>_. safe E False (db w)) (safe E False (db w)) w"
    by (rule spec_dispatch_locked[OF world_inv_safe[OF wi] inj])
  then have "world_inv E ?w" by (simp add: spec_same safe_def)
  moreover obtain x' where "x' \<in> set (outbox (db ?w))" "o_id x' = o_id x"
    "o_status x' \<noteq> OutboxStatus.PENDING \<or>
       attempts x' = attempts x + 1 \<and> attempts x' < hcmRetryMaxAttempts E"
    using dispatched_row[OF inv inj x(1), of r oc] unfolding run by auto
  moreover have "dispatch_locked E (o_id x) w = (Ok (), ?w)" "faults ?w = []"
    unfolding run using f by simp_all
  ultimately show ?thesis using that by blast
qed

section \<open>Reconciliation\<close>

definition recon_available :: "'h env \<Rightarrow> hcm_balance \<Rightarrow> js_date \<Rightarrow> database \<Rightarrow> int" where
  "recon_available E entry asOf d =
     h_balance entry
       - sum_list (map days (unackedApprovals E (h_employeeId entry) (h_locationId entry) asOf d))
       + sum_list (map days (pendingReverseRows (h_employeeId entry) (h_locationId entry) d))"

lemma reconcileBalance_ok:
  assumes f: "faults w = []" and valid: "asOf \<noteq> Invalid_Date"
    and w': "reconcileBalance E entry asOf w = (res, w')"
  shows "res = Ok ()"
    "balances (db w') = balances (change_balance (mut_reconcile (recon_available E entry asOf (db w))
        (pending_sum (db w) (h_employeeId entry, h_locationId entry)) asOf)
        (h_employeeId entry, h_locationId entry) (db w))"
    "requests (db w') = requests (db w)" "outbox (db w') = outbox (db w)"
    "\<exists>ev. reconEvents (db w') = reconEvents (db w) @ [ev]
       \<and> e_hcmValue ev = h_balance entry
       \<and> (resolution ev = FLAGGED_NEGATIVE \<longleftrightarrow> recon_available E entry asOf (db w) < 0)"
  using w' f valid
  by (auto simp: reconcileBalance_def check_date_def Let_def findOrCreate_apply query_apply andThen_def
      saveWithRetry_ok fault_free_simps active_sum[unfolded sum_rows_sum_list] recon_available_def change_balance_def
      sum_rows_sum_list return_apply)

text \<open>A stale batch leaves one audit event and nothing else.\<close>

lemma ingestBatch_stale:
  assumes f: "faults w = []" and st: "lastSequence (db w) = Some n" "bc_sequence corpus \<le> n"
  shows "ingestBatch E corpus w =
     (Ok (), w\<lparr>db := (db w)\<lparr>reconEvents := reconEvents (db w) @ [stale_event]\<rparr>\<rparr>)"
  using f st
  by (simp add: ingestBatch_def sequence_guard_def transaction_def query_apply andThen_def
      fault_free_simps return_apply)

text \<open>A batch that was ingested once is stale from then on.\<close>

lemma spec_reconcile_entry_faults:
  assumes "faults w = []"
  shows "spec (reconcile_entry E asOf entry) (\<lambda>_ w'. faults w' = []) (\<lambda>w'. faults w' = []) w"
proof -
  have s: "sole_writer w'" if "faults w' = []" for w' :: "'a world"
    using that by (simp add: sole_writer_def)
  show ?thesis
    unfolding reconcile_entry_def reconcileBalance_def check_date_def Let_def
    by (intro spec_rules) (use assms s in \<open>auto simp: drop_fault_def\<close>)
qed

lemma lastSequence_log:
  "\<exists>m. lastSequence (log_batch entry d) = Some m \<and> sequence entry \<le> m"
proof -
  let ?xs = "upsert_by sequence entry (batchSyncLog d)"
  have "sequence entry \<in> set (map sequence ?xs)"
    using imageI[OF upsert_has[of entry sequence "batchSyncLog d"], of sequence] by simp
  then obtain y ys where "map sequence ?xs = y # ys" and "sequence entry \<le> Max (set (map sequence ?xs))"
    by (cases "map sequence ?xs") (auto intro: Max_ge)
  then show ?thesis by (simp add: lastSequence_def log_batch_def)
qed

lemma ingestBatch_logged:
  assumes f: "faults w = []" and ok: "ingestBatch E corpus w = (Ok (), w1)"
  shows "faults w1 = [] \<and> (\<exists>m. lastSequence (db w1) = Some m \<and> bc_sequence corpus \<le> m)"
proof (cases "\<exists>n. lastSequence (db w) = Some n \<and> bc_sequence corpus \<le> n")
  case True
  then obtain n where n: "lastSequence (db w) = Some n" "bc_sequence corpus \<le> n" by blast
  have "lastSequence (db w1) = lastSequence (db w)" "faults w1 = []"
    using ingestBatch_stale[OF f n, of E] ok f by (auto simp: lastSequence_def)
  with n show ?thesis by simp
next
  case False
  let ?a = "js_Date_parse (bc_asOf corpus)"
  have "sequence_guard corpus w = (Ok False, w)"
    using False by (cases "lastSequence (db w)")
      (auto simp: sequence_guard_def transaction_def query_apply andThen_def return_apply)
  then have run: "andThen (for_each (reconcile_entry E ?a) (bc_balances corpus))
      (\<lambda>_. transaction (write_db (log_batch \<lparr>sequence = bc_sequence corpus, l_asOf = ?a\<rparr>))) w = (Ok (), w1)"
    using ok by (simp add: ingestBatch_def andThen_def Let_def)
  obtain r w2 where w2: "for_each (reconcile_entry E ?a) (bc_balances corpus) w = (r, w2)"
    by (cases "for_each (reconcile_entry E ?a) (bc_balances corpus) w")
  have "spec (for_each (reconcile_entry E ?a) (bc_balances corpus)) (\<lambda>_ w'. faults w' = [])
          (\<lambda>w'. faults w' = []) w"
    by (rule spec_for_each[where I = "\<lambda>w. faults w = []"]) (use spec_reconcile_entry_faults f in auto)
  then have "faults w2 = []" by (simp add: spec_same w2)
  with run w2 show ?thesis
    using lastSequence_log[of "\<lparr>sequence = bc_sequence corpus, l_asOf = ?a\<rparr>" "db w2"]
    by (cases r) (auto simp: andThen_def transaction_def fault_free_simps)
qed

end
