(* ===== verification/Mock_Hcm.thy ===== *)
theory Mock_Hcm
  imports Hcm_Contract
begin

text \<open>
  \<open>src/src/mock-hcm\<close>: the HCM stand-in the deployment runs beside the service. The store
  (\<open>mock-hcm.store.ts\<close>), the HCM endpoints (\<open>hcm.controller.ts\<close>) and the control endpoints
  (\<open>control.controller.ts\<close>). A \<open>Map\<close> keeps its keys in insertion order and its values are listed
  in that order by the batch, so it is a list of pairs. The clock is a field of the state.
\<close>

section \<open>Store\<close>

type_synonym 'v js_map = "(string \<times> 'v) list"

definition map_set :: "string \<Rightarrow> 'v \<Rightarrow> 'v js_map \<Rightarrow> 'v js_map" where
  "map_set k v m = upsert_by fst (k, v) m"

record balance_entry =
  be_employeeId :: string
  be_locationId :: string
  be_balance :: int
  be_asOf :: string

record idem_entry =
  ie_ok :: bool
  ie_ackedAt :: string

datatype HcmScenario =
    Correct
  | Silent_insufficient
  | Timeout
  | Mutate_between_calls
  | Divergent_batch
  | Duplicate_delivery
  | Ignore_idempotency_key

record mock_store =
  balanceStore :: "balance_entry js_map"
  idempotencyStore :: "idem_entry js_map"
  currentSequence :: int
  activeScenario :: HcmScenario
  mock_now :: int

definition storeKey :: "string \<Rightarrow> string \<Rightarrow> string" where
  "storeKey employeeId locationId = employeeId @ ''::'' @ locationId"

definition nowISO :: "mock_store \<Rightarrow> string" where
  "nowISO s = toISOString (mock_now s)"

definition getNextSequence :: "mock_store \<Rightarrow> int \<times> mock_store" where
  "getNextSequence s = (currentSequence s + 1, s\<lparr>currentSequence := currentSequence s + 1\<rparr>)"

definition getCurrentSequence :: "mock_store \<Rightarrow> int" where
  "getCurrentSequence s = currentSequence s"

definition getScenario :: "mock_store \<Rightarrow> HcmScenario" where
  "getScenario s = activeScenario s"

definition store_setScenario :: "HcmScenario \<Rightarrow> mock_store \<Rightarrow> mock_store" where
  "store_setScenario scenario s = s\<lparr>activeScenario := scenario\<rparr>"

definition put_entry :: "string \<Rightarrow> balance_entry \<Rightarrow> mock_store \<Rightarrow> mock_store" where
  "put_entry k entry s = s\<lparr>balanceStore := map_set k entry (balanceStore s)\<rparr>"

definition put_result :: "string \<Rightarrow> idem_entry \<Rightarrow> mock_store \<Rightarrow> mock_store" where
  "put_result k r s = s\<lparr>idempotencyStore := map_set k r (idempotencyStore s)\<rparr>"

definition seed_entries :: "(string \<times> string \<times> int) list" where
  "seed_entries =
     [(''emp1'', ''loc1'', 10), (''emp1'', ''loc2'', 5), (''emp2'', ''loc1'', 8),
      (''emp3'', ''loc1'', 15), (''emp3'', ''loc2'', 3)]"

definition seed_one :: "string \<times> string \<times> int \<Rightarrow> mock_store \<Rightarrow> mock_store" where
  "seed_one p s = (case p of (e, l, n) \<Rightarrow>
     put_entry (storeKey e l)
       \<lparr>be_employeeId = e, be_locationId = l, be_balance = n, be_asOf = nowISO s\<rparr> s)"

definition seedBalances :: "mock_store \<Rightarrow> mock_store" where
  "seedBalances s = fold seed_one seed_entries s"

definition resetMockHcmStore :: "mock_store \<Rightarrow> mock_store" where
  "resetMockHcmStore s =
     seedBalances (s\<lparr>balanceStore := [], idempotencyStore := [], activeScenario := Correct,
                     currentSequence := 0\<rparr>)"

section \<open>HCM endpoints\<close>

datatype mock_error = Bad_Request string | Service_Unavailable string

definition entry_view :: "balance_entry \<Rightarrow> hcm_balance" where
  "entry_view entry = \<lparr>h_employeeId = be_employeeId entry, h_locationId = be_locationId entry,
                       h_balance = be_balance entry, h_asOf = be_asOf entry\<rparr>"

definition mock_getBalance ::
  "string \<Rightarrow> string \<Rightarrow> mock_store \<Rightarrow> (mock_error + hcm_balance) \<times> mock_store" where
  "mock_getBalance employeeId locationId s =
     (if employeeId = [] \<or> locationId = []
      then (Inl (Bad_Request ''employeeId and locationId are required''), s)
      else if activeScenario s = Timeout
      then (Inl (Service_Unavailable ''HCM timeout (mock scenario)''), s)
      else
        (let key = storeKey employeeId locationId;
             (entry, s1) =
               (case map_of (balanceStore s) key of
                  Some entry \<Rightarrow> (entry, s)
                | None \<Rightarrow>
                    (let entry = \<lparr>be_employeeId = employeeId, be_locationId = locationId,
                                  be_balance = 0, be_asOf = nowISO s\<rparr>
                     in (entry, put_entry key entry s)))
         in if activeScenario s = Mutate_between_calls then
              (let entry' = entry\<lparr>be_balance := max 0 (be_balance entry - 1), be_asOf := nowISO s\<rparr>
               in (Inr (entry_view entry'), put_entry key entry' s1))
            else (Inr (entry_view entry), s1)))"

text \<open>The guard and the idempotency lookup the two writes share.\<close>

definition should_dedup :: "mock_store \<Rightarrow> bool" where
  "should_dedup s = (activeScenario s \<noteq> Ignore_idempotency_key)"

definition remember :: "string \<Rightarrow> bool \<Rightarrow> string \<Rightarrow> mock_store \<Rightarrow> mock_store" where
  "remember k okay acked s =
     (if should_dedup s then put_result k \<lparr>ie_ok = okay, ie_ackedAt = acked\<rparr> s else s)"

definition prior_result :: "string \<Rightarrow> mock_store \<Rightarrow> idem_entry option" where
  "prior_result k s = (if should_dedup s then map_of (idempotencyStore s) k else None)"

definition replay :: "idem_entry \<Rightarrow> hcm_result" where
  "replay prior = \<lparr>ok = ie_ok prior, ackedAt = Some (ie_ackedAt prior), errorHint = None\<rparr>"

definition acked_now :: "mock_store \<Rightarrow> hcm_result" where
  "acked_now s = \<lparr>ok = True, ackedAt = Some (nowISO s), errorHint = None\<rparr>"

definition refused :: "string \<Rightarrow> hcm_result" where
  "refused hint = \<lparr>ok = False, ackedAt = None, errorHint = Some hint\<rparr>"

text \<open>The part of \<open>fileTimeOff\<close> after the header and scenario guards.\<close>

definition file_accepted :: "string \<Rightarrow> hcm_command \<Rightarrow> mock_store \<Rightarrow> hcm_result \<times> mock_store" where
  "file_accepted k cmd s =
     (case prior_result k s of
        Some prior \<Rightarrow> (replay prior, s)
      | None \<Rightarrow>
          if activeScenario s = Silent_insufficient
          then (acked_now s, remember k True (nowISO s) s)
          else
            (let key = storeKey (c_employeeId cmd) (c_locationId cmd)
             in case map_of (balanceStore s) key of
                  None \<Rightarrow> (refused ''Employee/location not found'', remember k False [] s)
                | Some entry \<Rightarrow>
                    if be_balance entry < c_days cmd
                    then (refused ''Insufficient balance'', remember k False [] s)
                    else
                      (acked_now s,
                       remember k True (nowISO s)
                         (put_entry key (entry\<lparr>be_balance := be_balance entry - c_days cmd,
                                               be_asOf := nowISO s\<rparr>) s))))"

definition mock_fileTimeOff ::
  "string \<Rightarrow> hcm_command \<Rightarrow> mock_store \<Rightarrow> (mock_error + hcm_result) \<times> mock_store" where
  "mock_fileTimeOff k cmd s =
     (if k = [] then (Inl (Bad_Request ''Idempotency-Key header is required''), s)
      else if activeScenario s = Timeout
      then (Inl (Service_Unavailable ''HCM timeout (mock scenario)''), s)
      else (case file_accepted k cmd s of (r, s') \<Rightarrow> (Inr r, s')))"

definition reverse_accepted :: "string \<Rightarrow> hcm_command \<Rightarrow> mock_store \<Rightarrow> hcm_result \<times> mock_store" where
  "reverse_accepted k cmd s =
     (case prior_result k s of
        Some prior \<Rightarrow> (replay prior, s)
      | None \<Rightarrow>
          (let key = storeKey (c_employeeId cmd) (c_locationId cmd)
           in case map_of (balanceStore s) key of
                None \<Rightarrow> (acked_now s, remember k True (nowISO s) s)
              | Some entry \<Rightarrow>
                  (acked_now s,
                   remember k True (nowISO s)
                     (put_entry key (entry\<lparr>be_balance := be_balance entry + c_days cmd,
                                           be_asOf := nowISO s\<rparr>) s))))"

definition mock_reverseTimeOff ::
  "string \<Rightarrow> hcm_command \<Rightarrow> mock_store \<Rightarrow> (mock_error + hcm_result) \<times> mock_store" where
  "mock_reverseTimeOff k cmd s =
     (if k = [] then (Inl (Bad_Request ''Idempotency-Key header is required''), s)
      else if activeScenario s = Timeout
      then (Inl (Service_Unavailable ''HCM timeout (mock scenario)''), s)
      else (case reverse_accepted k cmd s of (r, s') \<Rightarrow> (Inr r, s')))"

section \<open>Control endpoints\<close>

definition scenario_of_name :: "string \<Rightarrow> HcmScenario option" where
  "scenario_of_name name = map_of
     [(''correct'', Correct), (''silent-insufficient'', Silent_insufficient), (''timeout'', Timeout),
      (''mutate-between-calls'', Mutate_between_calls), (''divergent-batch'', Divergent_batch),
      (''duplicate-delivery'', Duplicate_delivery),
      (''ignore-idempotency-key'', Ignore_idempotency_key)] name"

definition control_setScenario :: "string \<Rightarrow> mock_store \<Rightarrow> (mock_error + string) \<times> mock_store" where
  "control_setScenario name s =
     (case scenario_of_name name of
        None \<Rightarrow> (Inl (Bad_Request ''Invalid scenario''), s)
      | Some sc \<Rightarrow> (Inr name, store_setScenario sc s))"

definition control_refresh ::
  "string \<Rightarrow> string \<Rightarrow> int \<Rightarrow> mock_store \<Rightarrow> (mock_error + hcm_balance) \<times> mock_store" where
  "control_refresh employeeId locationId n s =
     (if employeeId = [] \<or> locationId = []
      then (Inl (Bad_Request ''employeeId and locationId are required''), s)
      else if n < 0 then (Inl (Bad_Request ''balance must be a non-negative number''), s)
      else
        (let entry = \<lparr>be_employeeId = employeeId, be_locationId = locationId, be_balance = n,
                      be_asOf = nowISO s\<rparr>
         in (Inr (entry_view entry), put_entry (storeKey employeeId locationId) entry s)))"

definition corpus_entry :: "HcmScenario \<Rightarrow> string \<Rightarrow> balance_entry \<Rightarrow> hcm_balance" where
  "corpus_entry scenario asOf entry =
     \<lparr>h_employeeId = be_employeeId entry, h_locationId = be_locationId entry,
      h_balance = (if scenario = Divergent_batch then max 0 (be_balance entry - 3)
                   else be_balance entry),
      h_asOf = asOf\<rparr>"

definition buildCorpus ::
  "hcm_balance list option \<Rightarrow> string option \<Rightarrow> int option \<Rightarrow> mock_store \<Rightarrow> batch_corpus \<times> mock_store" where
  "buildCorpus balancesOverride asOfOverride sequenceOverride s =
     (let asOf = (case asOfOverride of Some a \<Rightarrow> a | None \<Rightarrow> nowISO s);
          (n, s') = (case sequenceOverride of Some n \<Rightarrow> (n, s) | None \<Rightarrow> getNextSequence s);
          bs = (case balancesOverride of
                  Some bs \<Rightarrow> bs
                | None \<Rightarrow> map (\<lambda>p. corpus_entry (activeScenario s) asOf (snd p)) (balanceStore s))
      in (\<lparr>bc_sequence = n, bc_asOf = asOf, bc_balances = bs\<rparr>, s'))"

definition control_getBatch :: "mock_store \<Rightarrow> batch_corpus \<times> mock_store" where
  "control_getBatch s = buildCorpus None None None s"

text \<open>
  \<open>emitBatch\<close> posts the corpus to \<open>targetUrl\<close>; the post is a parameter that yields the status of
  the answer, or the status carried by the error if it has one.
\<close>

definition control_emitBatch ::
  "(string \<Rightarrow> batch_corpus \<Rightarrow> int option + int) \<Rightarrow> string \<Rightarrow> hcm_balance list option \<Rightarrow>
   string option \<Rightarrow> int option \<Rightarrow> mock_store \<Rightarrow>
   (mock_error + bool \<times> int \<times> batch_corpus) \<times> mock_store" where
  "control_emitBatch post targetUrl bs asOf n s =
     (if targetUrl = [] then (Inl (Bad_Request ''targetUrl is required''), s)
      else
        (case buildCorpus bs asOf n s of (corpus, s') \<Rightarrow>
           (Inr (case post targetUrl corpus of
                   Inr st \<Rightarrow> (True, st, corpus)
                 | Inl (Some st) \<Rightarrow> (False, st, corpus)
                 | Inl None \<Rightarrow> (False, 500, corpus)), s')))"

section \<open>Validated bodies\<close>

text \<open>
  \<open>dto/control.dto.ts\<close> and \<open>dto/file-timeoff.dto.ts\<close>. That a field is a string or an integer is
  its type here; the library's ISO-8601 and date-string checks are parameters.
\<close>

definition VALID_SCENARIOS :: "string list" where
  "VALID_SCENARIOS =
     [''correct'', ''silent-insufficient'', ''timeout'', ''mutate-between-calls'', ''divergent-batch'',
      ''duplicate-delivery'', ''ignore-idempotency-key'']"

definition scenario_dto_valid :: "string \<Rightarrow> bool" where
  "scenario_dto_valid scenario = (scenario \<noteq> [] \<and> List.member VALID_SCENARIOS scenario)"

definition refresh_dto_valid :: "string \<Rightarrow> string \<Rightarrow> bool" where
  "refresh_dto_valid employeeId locationId = (employeeId \<noteq> [] \<and> locationId \<noteq> [])"

definition balance_wire_dto_valid :: "(string \<Rightarrow> bool) \<Rightarrow> hcm_balance \<Rightarrow> bool" where
  "balance_wire_dto_valid isISO8601 b =
     (h_employeeId b \<noteq> [] \<and> h_locationId b \<noteq> [] \<and> isISO8601 (h_asOf b))"

definition emit_batch_dto_valid ::
  "(string \<Rightarrow> bool) \<Rightarrow> string \<Rightarrow> hcm_balance list option \<Rightarrow> string option \<Rightarrow> int option \<Rightarrow> bool" where
  "emit_batch_dto_valid isISO8601 targetUrl bs asOf n =
     (targetUrl \<noteq> []
      \<and> (case bs of None \<Rightarrow> True | Some xs \<Rightarrow> list_all (balance_wire_dto_valid isISO8601) xs)
      \<and> (case asOf of None \<Rightarrow> True | Some a \<Rightarrow> isISO8601 a)
      \<and> (case n of None \<Rightarrow> True | Some k \<Rightarrow> 0 < k))"

definition command_dto_valid :: "(string \<Rightarrow> bool) \<Rightarrow> hcm_command \<Rightarrow> bool" where
  "command_dto_valid isDateString c =
     (c_employeeId c \<noteq> [] \<and> c_locationId c \<noteq> [] \<and> 1 \<le> c_days c \<and> isDateString (c_startDate c)
      \<and> isDateString (c_endDate c) \<and> c_idempotencyKey c \<noteq> [])"

section \<open>Lemmas\<close>

text \<open>The validator lets exactly the names through that the control endpoint accepts.\<close>

lemma scenario_dto_agrees: "scenario_dto_valid name \<longleftrightarrow> fst (control_setScenario name s) = Inr name"
  by (auto simp: scenario_dto_valid_def VALID_SCENARIOS_def control_setScenario_def scenario_of_name_def
      split: option.splits)

lemma map_of_upsert: "map_of (upsert_by fst (k, v) m) = (map_of m)(k \<mapsto> v)"
proof (cases "\<exists>y \<in> set m. fst y = k")
  case True
  then have up: "upsert_by fst (k, v) m = update_where (\<lambda>y. fst y = k) (\<lambda>_. (k, v)) m"
    by (auto simp: upsert_by_def)
  have "(\<exists>y \<in> set m. fst y = k) \<Longrightarrow>
        map_of (update_where (\<lambda>y. fst y = k) (\<lambda>_. (k, v)) m) = (map_of m)(k \<mapsto> v)"
  proof (induction m)
    case (Cons p m)
    show ?case
    proof (cases "\<exists>y \<in> set m. fst y = k")
      case True
      then show ?thesis using Cons.IH by (cases p) (auto simp: fun_eq_iff)
    next
      case False
      then have "update_where (\<lambda>y. fst y = k) (\<lambda>_. (k, v)) m = m"
        by (intro update_where_none) auto
      then show ?thesis using Cons.prems False by (cases p) (auto simp: fun_eq_iff)
    qed
  qed simp
  with True up show ?thesis by simp
next
  case False
  then have "map_of m k = None" by (force simp: map_of_eq_None_iff)
  moreover have "upsert_by fst (k, v) m = m @ [(k, v)]"
    using False by (auto simp: upsert_by_def)
  ultimately show ?thesis
    by (auto simp: fun_eq_iff map_add_def split: option.splits)
qed

lemma map_of_set [simp]: "map_of (map_set k v m) = (map_of m)(k \<mapsto> v)"
  by (simp add: map_set_def map_of_upsert)

lemma store_simps [simp]:
  "activeScenario (put_entry k e s) = activeScenario s" "activeScenario (put_result k r s) = activeScenario s"
  "idempotencyStore (put_entry k e s) = idempotencyStore s" "balanceStore (put_result k r s) = balanceStore s"
  "balanceStore (put_entry k e s) = map_set k e (balanceStore s)"
  "idempotencyStore (put_result k r s) = map_set k r (idempotencyStore s)"
  by (simp_all add: put_entry_def put_result_def)

lemma remember_simps [simp]:
  "activeScenario (remember k v a s) = activeScenario s"
  "balanceStore (remember k v a s) = balanceStore s"
  "should_dedup (remember k v a s) = should_dedup s" "should_dedup (put_entry k' e s) = should_dedup s"
  by (simp_all add: remember_def should_dedup_def)

lemma remember_lookup:
  "should_dedup s \<Longrightarrow> map_of (idempotencyStore (remember k v a s)) k = Some \<lparr>ie_ok = v, ie_ackedAt = a\<rparr>"
  by (simp add: remember_def)

section \<open>The write endpoints honour idempotency keys\<close>

definition mock_stored :: "string \<Rightarrow> mock_store \<Rightarrow> bool option" where
  "mock_stored k s = map_option ie_ok (map_of (idempotencyStore s) k)"

lemma file_records:
  assumes "should_dedup s"
  shows "mock_stored k (snd (file_accepted k cmd s)) = Some (ok (fst (file_accepted k cmd s)))
         \<and> should_dedup (snd (file_accepted k cmd s))"
  using assms
  by (auto simp: mock_stored_def file_accepted_def prior_result_def replay_def acked_now_def refused_def
      remember_lookup Let_def split: option.splits)

lemma reverse_records:
  assumes "should_dedup s"
  shows "mock_stored k (snd (reverse_accepted k cmd s)) = Some (ok (fst (reverse_accepted k cmd s)))
         \<and> should_dedup (snd (reverse_accepted k cmd s))"
  using assms
  by (auto simp: mock_stored_def reverse_accepted_def prior_result_def replay_def acked_now_def
      remember_lookup Let_def split: option.splits)

lemma file_replays:
  assumes "should_dedup s" "mock_stored k s = Some v"
  shows "ok (fst (file_accepted k cmd s)) = v \<and> snd (file_accepted k cmd s) = s"
  using assms by (auto simp: mock_stored_def file_accepted_def prior_result_def replay_def)

lemma reverse_replays:
  assumes "should_dedup s" "mock_stored k s = Some v"
  shows "ok (fst (reverse_accepted k cmd s)) = v \<and> snd (reverse_accepted k cmd s) = s"
  using assms by (auto simp: mock_stored_def reverse_accepted_def prior_result_def replay_def)

interpretation mock_file: idempotent_write
  "\<lambda>c. file_accepted (c_idempotencyKey c) c" c_idempotencyKey "\<lambda>s. s" should_dedup mock_stored
  by unfold_locales (simp_all add: file_records file_replays)

interpretation mock_reverse: idempotent_write
  "\<lambda>c. reverse_accepted (c_idempotencyKey c) c" c_idempotencyKey "\<lambda>s. s" should_dedup mock_stored
  by unfold_locales (simp_all add: reverse_records reverse_replays)


section \<open>Deductions and credits\<close>

text \<open>The balance the endpoint keeps for the command's employee and location.\<close>

definition hcm_days :: "hcm_command \<Rightarrow> mock_store \<Rightarrow> int option" where
  "hcm_days c s = map_option be_balance (map_of (balanceStore s) (storeKey (c_employeeId c) (c_locationId c)))"

text \<open>A FILE command delivered any number of times (at least once) to the write endpoint under its idempotency key deducts its days exactly once and is acknowledged every time.\<close>

lemma redelivered_file_deducts_once:
  assumes "should_dedup s" "activeScenario s \<noteq> Silent_insufficient" "mock_stored (c_idempotencyKey c) s = None"
    and "hcm_days c s = Some d" "c_days c \<le> d"
  shows "fst (deliver (\<lambda>c. file_accepted (c_idempotencyKey c) c) (Suc n) c s) = replicate (Suc n) True
    \<and> hcm_days c (snd (deliver (\<lambda>c. file_accepted (c_idempotencyKey c) c) (Suc n) c s)) = Some (d - c_days c)"
proof -
  have "prior_result (c_idempotencyKey c) s = None"
    using assms(1,3) by (simp add: prior_result_def mock_stored_def)
  then have "ok (fst (file_accepted (c_idempotencyKey c) c s)) = True
      \<and> hcm_days c (snd (file_accepted (c_idempotencyKey c) c s)) = Some (d - c_days c)"
    using assms(2,4,5) by (auto simp: file_accepted_def hcm_days_def acked_now_def Let_def)
  then show ?thesis using mock_file.at_least_once_is_once[OF assms(1), of n c] by simp
qed

definition demo_command :: hcm_command where
  "demo_command = \<lparr>c_employeeId = ''emp1'', c_locationId = ''loc1'', c_days = 2, c_startDate = ''2026-06-01'',
     c_endDate = ''2026-06-02'', c_idempotencyKey = ''k:FILE''\<rparr>"

definition demo_store :: mock_store where
  "demo_store = resetMockHcmStore \<lparr>balanceStore = [], idempotencyStore = [], currentSequence = 3,
                                   activeScenario = Timeout, mock_now = 0\<rparr>"

lemma demo_store_simps:
  "should_dedup demo_store" "activeScenario demo_store = Correct" "idempotencyStore demo_store = []"
  "hcm_days demo_command demo_store = Some 10"
  by (simp_all add: demo_store_def resetMockHcmStore_def seedBalances_def seed_entries_def seed_one_def
      should_dedup_def hcm_days_def demo_command_def storeKey_def)

text \<open>The REVERSE endpoint credits the days under a new key whether or not the matching FILE was ever received: it undoes a FILE that was deducted, and raises the balance above its start when none was.\<close>

lemma reverse_credits_with_or_without_file:
  assumes "should_dedup s" "activeScenario s \<noteq> Silent_insufficient" "hcm_days c s = Some d" "c_days c \<le> d"
    and "mock_stored k s = None" "mock_stored k' s = None" "k \<noteq> k'"
  shows "hcm_days c (snd (reverse_accepted k' c (snd (file_accepted k c s)))) = Some d
    \<and> hcm_days c (snd (reverse_accepted k' c s)) = Some (d + c_days c)"
  using assms
  by (auto simp: reverse_accepted_def file_accepted_def prior_result_def mock_stored_def hcm_days_def remember_def Let_def)

end
