(* ===== verification/Fake_Hcm.thy ===== *)
theory Fake_Hcm
  imports Mock_Hcm
begin

text \<open>
  \<open>src/src/testing/fake-hcm-client.ts\<close>: the in-process client of the integration tests, with the
  scenarios of the mock server. It has the operations of the \<open>HcmClient\<close> interface, so the service
  model runs on it: \<open>fake_env\<close> is a service environment bound to it. Concrete runs of the theorems
  about the service use it.
\<close>

section \<open>State\<close>

record stored_balance =
  sb_balance :: int
  sb_asOf :: string

record call_counters =
  n_getBalance :: int
  n_fileTimeOff :: int
  n_reverseTimeOff :: int

record fake_hcm =
  f_store :: "stored_balance js_map"
  f_idempotency :: "idem_entry js_map"
  f_scenario :: HcmScenario
  callsTo :: call_counters
  f_now :: int

definition zero_calls :: call_counters where
  "zero_calls = \<lparr>n_getBalance = 0, n_fileTimeOff = 0, n_reverseTimeOff = 0\<rparr>"

definition new_fake :: "int \<Rightarrow> fake_hcm" where
  "new_fake t = \<lparr>f_store = [], f_idempotency = [], f_scenario = Correct, callsTo = zero_calls,
                 f_now = t\<rparr>"

definition fake_nowISO :: "fake_hcm \<Rightarrow> string" where
  "fake_nowISO s = toISOString (f_now s)"

definition f_put :: "string \<Rightarrow> stored_balance \<Rightarrow> fake_hcm \<Rightarrow> fake_hcm" where
  "f_put k b s = s\<lparr>f_store := map_set k b (f_store s)\<rparr>"

definition seedBalance :: "string \<Rightarrow> string \<Rightarrow> int \<Rightarrow> string option \<Rightarrow> fake_hcm \<Rightarrow> fake_hcm" where
  "seedBalance employeeId locationId n asOf s =
     f_put (storeKey employeeId locationId)
       \<lparr>sb_balance = n, sb_asOf = (case asOf of Some a \<Rightarrow> a | None \<Rightarrow> fake_nowISO s)\<rparr> s"

definition setScenario :: "HcmScenario \<Rightarrow> fake_hcm \<Rightarrow> fake_hcm" where
  "setScenario name s = s\<lparr>f_scenario := name\<rparr>"

definition fake_reset :: "fake_hcm \<Rightarrow> fake_hcm" where
  "fake_reset s = s\<lparr>f_store := [], f_idempotency := [], f_scenario := Correct, callsTo := zero_calls\<rparr>"

section \<open>The client operations\<close>

definition count_get :: "fake_hcm \<Rightarrow> fake_hcm" where
  "count_get s = s\<lparr>callsTo := (callsTo s)\<lparr>n_getBalance := n_getBalance (callsTo s) + 1\<rparr>\<rparr>"

definition count_file :: "fake_hcm \<Rightarrow> fake_hcm" where
  "count_file s = s\<lparr>callsTo := (callsTo s)\<lparr>n_fileTimeOff := n_fileTimeOff (callsTo s) + 1\<rparr>\<rparr>"

definition count_reverse :: "fake_hcm \<Rightarrow> fake_hcm" where
  "count_reverse s =
     s\<lparr>callsTo := (callsTo s)\<lparr>n_reverseTimeOff := n_reverseTimeOff (callsTo s) + 1\<rparr>\<rparr>"

definition fake_getBalance ::
  "string \<Rightarrow> string \<Rightarrow> fake_hcm \<Rightarrow> (exception + hcm_balance) \<times> fake_hcm" where
  "fake_getBalance employeeId locationId s0 =
     (let s = count_get s0
      in if f_scenario s = Timeout
         then (Inl (HcmUnavailableError (''getBalance:'' @ employeeId @ '':'' @ locationId)), s)
         else
           (let key = storeKey employeeId locationId;
                (entry, s1) =
                  (case map_of (f_store s) key of
                     Some entry \<Rightarrow> (entry, s)
                   | None \<Rightarrow>
                       (let entry = \<lparr>sb_balance = 0, sb_asOf = fake_nowISO s\<rparr>
                        in (entry, f_put key entry s)));
                (entry2, s2) =
                  (if f_scenario s = Mutate_between_calls then
                     (let entry' = \<lparr>sb_balance = max 0 (sb_balance entry - 1), sb_asOf = fake_nowISO s\<rparr>
                      in (entry', f_put key entry' s1))
                   else (entry, s1))
            in (Inr \<lparr>h_employeeId = employeeId, h_locationId = locationId,
                     h_balance = sb_balance entry2, h_asOf = sb_asOf entry2\<rparr>, s2)))"

definition fake_dedups :: "fake_hcm \<Rightarrow> bool" where
  "fake_dedups s = (f_scenario s \<noteq> Ignore_idempotency_key)"

definition fake_remember :: "string \<Rightarrow> bool \<Rightarrow> string \<Rightarrow> fake_hcm \<Rightarrow> fake_hcm" where
  "fake_remember k okay acked s =
     (if fake_dedups s
      then s\<lparr>f_idempotency := map_set k \<lparr>ie_ok = okay, ie_ackedAt = acked\<rparr> (f_idempotency s)\<rparr>
      else s)"

definition fake_prior :: "string \<Rightarrow> fake_hcm \<Rightarrow> idem_entry option" where
  "fake_prior k s = (if fake_dedups s then map_of (f_idempotency s) k else None)"

definition fake_acked :: "fake_hcm \<Rightarrow> hcm_result" where
  "fake_acked s = \<lparr>ok = True, ackedAt = Some (fake_nowISO s), errorHint = None\<rparr>"

definition fake_file :: "hcm_command \<Rightarrow> fake_hcm \<Rightarrow> hcm_result \<times> fake_hcm" where
  "fake_file cmd s0 =
     (let s = count_file s0; k = c_idempotencyKey cmd
      in if f_scenario s = Timeout then (refused ''unreachable'', s)
         else case fake_prior k s of
           Some prior \<Rightarrow> (replay prior, s)
         | None \<Rightarrow>
             if f_scenario s = Silent_insufficient
             then (fake_acked s, fake_remember k True (fake_nowISO s) s)
             else
               (let key = storeKey (c_employeeId cmd) (c_locationId cmd)
                in case map_of (f_store s) key of
                     None \<Rightarrow> (refused ''Employee/location not found'', fake_remember k False [] s)
                   | Some entry \<Rightarrow>
                       if sb_balance entry < c_days cmd
                       then (refused ''Insufficient balance'', fake_remember k False [] s)
                       else
                         (fake_acked s,
                          fake_remember k True (fake_nowISO s)
                            (f_put key \<lparr>sb_balance = sb_balance entry - c_days cmd,
                                        sb_asOf = fake_nowISO s\<rparr> s))))"

definition fake_reverse :: "hcm_command \<Rightarrow> fake_hcm \<Rightarrow> hcm_result \<times> fake_hcm" where
  "fake_reverse cmd s0 =
     (let s = count_reverse s0; k = c_idempotencyKey cmd
      in if f_scenario s = Timeout then (refused ''unreachable'', s)
         else case fake_prior k s of
           Some prior \<Rightarrow> (replay prior, s)
         | None \<Rightarrow>
             (let key = storeKey (c_employeeId cmd) (c_locationId cmd)
              in case map_of (f_store s) key of
                   None \<Rightarrow> (fake_acked s, fake_remember k True (fake_nowISO s) s)
                 | Some entry \<Rightarrow>
                     (fake_acked s,
                      fake_remember k True (fake_nowISO s)
                        (f_put key \<lparr>sb_balance = sb_balance entry + c_days cmd,
                                    sb_asOf = fake_nowISO s\<rparr> s))))"

definition fake_fileTimeOff :: "hcm_command \<Rightarrow> fake_hcm \<Rightarrow> (exception + hcm_result) \<times> fake_hcm" where
  "fake_fileTimeOff cmd s = (case fake_file cmd s of (r, s') \<Rightarrow> (Inr r, s'))"

definition fake_reverseTimeOff :: "hcm_command \<Rightarrow> fake_hcm \<Rightarrow> (exception + hcm_result) \<times> fake_hcm" where
  "fake_reverseTimeOff cmd s = (case fake_reverse cmd s of (r, s') \<Rightarrow> (Inr r, s'))"

section \<open>The contracts\<close>

interpretation fake: hcm_contract fake_getBalance fake_fileTimeOff fake_reverseTimeOff
proof
  fix e l :: string and s x
  assume "fst (fake_getBalance e l s) = Inl x"
  then show "\<exists>op. x = HcmUnavailableError op"
    by (auto simp: fake_getBalance_def Let_def split: if_splits prod.splits)
qed (simp_all add: fake_fileTimeOff_def fake_reverseTimeOff_def split_beta)

lemma fake_simps [simp]:
  "f_scenario (count_file s) = f_scenario s" "f_scenario (count_reverse s) = f_scenario s"
  "f_store (count_file s) = f_store s" "f_store (count_reverse s) = f_store s"
  "f_idempotency (count_file s) = f_idempotency s" "f_idempotency (count_reverse s) = f_idempotency s"
  "f_scenario (f_put k b s) = f_scenario s" "f_scenario (fake_remember k v a s) = f_scenario s"
  "f_store (fake_remember k v a s) = f_store s" "f_idempotency (f_put k b s) = f_idempotency s"
  by (simp_all add: count_file_def count_reverse_def f_put_def fake_remember_def)

lemma fake_dedups_simps [simp]:
  "fake_dedups (count_file s) = fake_dedups s" "fake_dedups (count_reverse s) = fake_dedups s"
  "fake_dedups (f_put k b s) = fake_dedups s" "fake_dedups (fake_remember k v a s) = fake_dedups s"
  by (simp_all add: fake_dedups_def)

text \<open>What matters of the state: the balances and the recorded verdicts, not the counters.\<close>

definition fake_view :: "fake_hcm \<Rightarrow> stored_balance js_map \<times> idem_entry js_map" where
  "fake_view s = (f_store s, f_idempotency s)"

definition fake_open :: "fake_hcm \<Rightarrow> bool" where
  "fake_open s = (fake_dedups s \<and> f_scenario s \<noteq> Timeout)"

definition fake_stored :: "string \<Rightarrow> fake_hcm \<Rightarrow> bool option" where
  "fake_stored k s = map_option ie_ok (map_of (f_idempotency s) k)"

lemma fake_remembered:
  "fake_dedups s \<Longrightarrow> map_of (f_idempotency (fake_remember k v a s)) k = Some \<lparr>ie_ok = v, ie_ackedAt = a\<rparr>"
  by (simp add: fake_remember_def)

lemma fake_file_records:
  assumes "fake_open s"
  shows "fake_stored (c_idempotencyKey c) (snd (fake_file c s)) = Some (ok (fst (fake_file c s)))
         \<and> fake_open (snd (fake_file c s))"
  using assms
  by (auto simp: fake_open_def fake_stored_def fake_file_def fake_prior_def replay_def fake_acked_def
      refused_def fake_remembered Let_def split: option.splits)

lemma fake_reverse_records:
  assumes "fake_open s"
  shows "fake_stored (c_idempotencyKey c) (snd (fake_reverse c s)) = Some (ok (fst (fake_reverse c s)))
         \<and> fake_open (snd (fake_reverse c s))"
  using assms
  by (auto simp: fake_open_def fake_stored_def fake_reverse_def fake_prior_def replay_def fake_acked_def
      fake_remembered Let_def split: option.splits)

lemma fake_file_replays:
  assumes "fake_open s" "fake_stored (c_idempotencyKey c) s = Some v"
  shows "ok (fst (fake_file c s)) = v \<and> fake_view (snd (fake_file c s)) = fake_view s"
  using assms
  by (auto simp: fake_open_def fake_stored_def fake_file_def fake_prior_def replay_def fake_view_def Let_def)

lemma fake_reverse_replays:
  assumes "fake_open s" "fake_stored (c_idempotencyKey c) s = Some v"
  shows "ok (fst (fake_reverse c s)) = v \<and> fake_view (snd (fake_reverse c s)) = fake_view s"
  using assms
  by (auto simp: fake_open_def fake_stored_def fake_reverse_def fake_prior_def replay_def fake_view_def Let_def)

interpretation fake_file: idempotent_write fake_file c_idempotencyKey fake_view fake_open fake_stored
  by unfold_locales (simp_all add: fake_file_records fake_file_replays)

interpretation fake_reverse: idempotent_write fake_reverse c_idempotencyKey fake_view fake_open fake_stored
  by unfold_locales (simp_all add: fake_reverse_records fake_reverse_replays)

section \<open>The service on the fake client\<close>

text \<open>Generated identifiers: any injective naming will do for the concrete runs.\<close>

definition numbered :: "nat \<Rightarrow> string" where
  "numbered n = ''id-'' @ replicate n CHR ''i''"

lemma inj_numbered: "inj numbered"
  by (rule injI) (metis length_replicate numbered_def same_append_eq)

definition fake_env :: "bool \<Rightarrow> fake_hcm env" where
  "fake_env lazy =
     \<lparr>uuid = numbered, reservationTtlDays = 14, hcmRetryMaxAttempts = 5, balanceLazyLoadEnabled = lazy,
      sqlDatetime = (\<lambda>a. case a of Date_at t \<Rightarrow> utc_datetime t | Invalid_Date \<Rightarrow> []),
      hcm_getBalance = fake_getBalance, hcm_fileTimeOff = fake_fileTimeOff,
      hcm_reverseTimeOff = fake_reverseTimeOff\<rparr>"

definition fake_world :: "database \<Rightarrow> int \<Rightarrow> nat \<Rightarrow> fake_hcm \<Rightarrow> fake_hcm world" where
  "fake_world d t n h =
     \<lparr>db = d, held = [], clock = t, dbClock = t, uuidNext = n, faults = [], hcm = h\<rparr>"

end
