(* ===== verification/Demo_Worlds.thy ===== *)
theory Demo_Worlds
  imports System Actor_Results Fake_Hcm
begin

text \<open>
  Concrete worlds on which the theorems about the service are run: one employee, one location, one
  request in a chosen status, the fake HCM client. They satisfy the invariant.
\<close>

section \<open>A database with one request\<close>

definition one_request_db :: "balance \<Rightarrow> request \<Rightarrow> outbox_row list \<Rightarrow> database" where
  "one_request_db b r rows =
     \<lparr>balances = (\<lambda>k. if k = pk_of b then Some b else None), requests = [r], outbox = rows,
      batchSyncLog = [], reconEvents = []\<rparr>"

lemma one_request_inv:
  assumes "pk_of b = key_of r" "reserved b = pending_days r" "request_ok r rows"
    and "\<forall>x \<in> set rows. aggregateId x = r_id r" "distinct (map o_id rows)"
    and "r_id r \<in> uuid E ` {..<n}" "hcmIdempotencyKey r \<in> uuid E ` {..<n}"
      "\<forall>x \<in> set rows. o_id x \<in> uuid E ` {..<n}"
  shows "db_inv E n (one_request_db b r rows)"
proof -
  have "rows_of (r_id r) (one_request_db b r rows) = rows"
    using assms(4) by (simp add: rows_of_def one_request_db_def filter_id_conv)
  moreover have "reserved_of (one_request_db b r rows) k = pending_sum (one_request_db b r rows) k" for k
    using assms(1,2) by (simp add: reserved_of_def pending_sum_def one_request_db_def)
  ultimately show ?thesis
    unfolding db_inv_def
    using assms by (auto simp: one_request_db_def balances_keyed_def keys_distinct_def ids_below_def
        no_orphans_def no_overlap_def)
qed

section \<open>The demo request\<close>

text \<open>Two business days, Monday 1 and Tuesday 2 June 2026; the clock stands at 1970.\<close>

definition demo_request :: "RequestStatus \<Rightarrow> request" where
  "demo_request s =
     \<lparr>r_id = numbered 1, r_employeeId = ''emp1'', r_locationId = ''loc1'', startDate = ''2026-06-01'',
      endDate = ''2026-06-02'', days = 2, status = s, idempotencyKey = ''key-1'',
      hcmIdempotencyKey = numbered 0, expiresAt = 1000,
      committedAt = (if s = RequestStatus.PENDING then None else Some 0),
      hcmAckAt = (if s \<in> {RequestStatus.APPROVED, RequestStatus.CANCELLED} then Some (Date_at 0) else None)\<rparr>"

definition demo_balance :: "int \<Rightarrow> int \<Rightarrow> balance" where
  "demo_balance a q =
     \<lparr>b_employeeId = ''emp1'', b_locationId = ''loc1'', available = a, reserved = q,
      needsReview = False, lastHcmAsOf = Some (Date_at 0)\<rparr>"

definition demo_file :: "OutboxStatus \<Rightarrow> outbox_row" where
  "demo_file s = (buildOutboxRow (demo_request RequestStatus.PENDING_SYNC) FILE)
                   \<lparr>o_id := numbered 2, o_status := s\<rparr>"

definition demo_reverse :: "OutboxStatus \<Rightarrow> outbox_row" where
  "demo_reverse s = (buildOutboxRow (demo_request RequestStatus.APPROVED) REVERSE)
                      \<lparr>o_id := numbered 3, o_status := s\<rparr>"

definition demo_db :: "RequestStatus \<Rightarrow> database" where
  "demo_db s = (case s of
      RequestStatus.PENDING \<Rightarrow> one_request_db (demo_balance 10 2) (demo_request s) []
    | RequestStatus.PENDING_SYNC \<Rightarrow>
        one_request_db (demo_balance 8 0) (demo_request s) [demo_file OutboxStatus.PENDING]
    | RequestStatus.APPROVED \<Rightarrow> one_request_db (demo_balance 8 0) (demo_request s) [demo_file SENT]
    | _ \<Rightarrow> one_request_db (demo_balance 10 0) (demo_request RequestStatus.CANCELLED)
             [demo_file SENT, demo_reverse OutboxStatus.PENDING])"

lemma demo_ids: "numbered i \<in> numbered ` {..<n} \<longleftrightarrow> i < n"
  using inj_numbered by (auto dest: injD)

lemma demo_rows:
  "row_matches (demo_request s) (demo_file t)" "row_matches (demo_request s) (demo_reverse t)"
  by (simp_all add: row_matches_def demo_file_def demo_reverse_def buildOutboxRow_def buildFileCommand_def
      buildReverseCommand_def demo_request_def operation_name_def)

lemma demo_shape:
  "aggregateId (demo_file t) = numbered (Suc 0)" "operation (demo_file t) = FILE"
  "o_status (demo_file t) = t" "o_id (demo_file t) = numbered 2"
  "aggregateId (demo_reverse t) = numbered (Suc 0)" "operation (demo_reverse t) = REVERSE"
  "o_status (demo_reverse t) = t" "o_id (demo_reverse t) = numbered 3"
  by (simp_all add: demo_file_def demo_reverse_def buildOutboxRow_def demo_request_def)

lemma demo_count: "countBusinessDays ''2026-06-01'' ''2026-06-02'' {} = Inr 2"
  by code_simp

lemma demo_dates: "str_le ''2026-06-01'' ''2026-06-02''"
  by code_simp

lemma demo_inv:
  assumes "uuid E = numbered" "s \<in> {RequestStatus.PENDING, RequestStatus.PENDING_SYNC,
      RequestStatus.APPROVED, RequestStatus.CANCELLED}"
  shows "db_inv E 4 (demo_db s)"
proof -
  have pk: "pk_of (demo_balance a q) = key_of (demo_request s)" for a q s
    by (simp add: pk_of_def key_of_def demo_balance_def demo_request_def)
  have res: "reserved (demo_balance a q) = q" for a q by (simp add: demo_balance_def)
  have ok: "request_ok (demo_request s) rows"
    if "status_shape s (shape rows)" "\<forall>x \<in> set rows. row_matches (demo_request s) x" for s rows
    using that demo_dates demo_count
    by (cases s) (simp_all add: request_ok_def stamps_ok_def demo_request_def status_shape_def)
  have days: "pending_days (demo_request s) = (if s = RequestStatus.PENDING then 2 else 0)" for s
    by (simp add: pending_days_def demo_request_def)
  have ids: "r_id (demo_request s) = numbered 1" "hcmIdempotencyKey (demo_request s) = numbered 0" for s
    by (simp_all add: demo_request_def)
  have ne: "numbered 2 \<noteq> numbered 3" using injD[OF inj_numbered, of 2 3] by auto
  consider (P) "s = RequestStatus.PENDING" | (S) "s = RequestStatus.PENDING_SYNC"
    | (A) "s = RequestStatus.APPROVED" | (C) "s = RequestStatus.CANCELLED"
    using assms(2) by blast
  then show ?thesis
  proof cases
    case P
    have "db_inv E 4 (one_request_db (demo_balance 10 2) (demo_request s) [])"
      by (rule one_request_inv)
        (use P in \<open>auto simp: pk days ok ids assms(1) demo_ids status_shape_def shape_def res\<close>)
    then show ?thesis using P by (simp add: demo_db_def)
  next
    case S
    have "db_inv E 4 (one_request_db (demo_balance 8 0) (demo_request s) [demo_file OutboxStatus.PENDING])"
      by (rule one_request_inv)
        (use S in \<open>auto simp: pk days ok ids assms(1) demo_ids demo_rows demo_shape status_shape_def
           shape_def res\<close>)
    then show ?thesis using S by (simp add: demo_db_def)
  next
    case A
    have "db_inv E 4 (one_request_db (demo_balance 8 0) (demo_request s) [demo_file SENT])"
      by (rule one_request_inv)
        (use A in \<open>auto simp: pk days ok ids assms(1) demo_ids demo_rows demo_shape status_shape_def
           shape_def res\<close>)
    then show ?thesis using A by (simp add: demo_db_def)
  next
    case C
    have "db_inv E 4 (one_request_db (demo_balance 10 0) (demo_request s)
            [demo_file SENT, demo_reverse OutboxStatus.PENDING])"
      by (rule one_request_inv)
        (use C ne in \<open>auto simp: pk days ok ids assms(1) demo_ids demo_rows demo_shape status_shape_def
           shape_def res\<close>)
    then show ?thesis using C by (simp add: demo_db_def)
  qed
qed

section \<open>The demo worlds\<close>

text \<open>HCM holds ten days for the employee; \<open>down\<close> makes it time out.\<close>

definition demo_hcm :: "bool \<Rightarrow> int \<Rightarrow> fake_hcm" where
  "demo_hcm down n =
     (seedBalance ''emp1'' ''loc1'' n None (new_fake 0))\<lparr>f_scenario := (if down then Timeout else Correct)\<rparr>"

definition demo_world :: "RequestStatus \<Rightarrow> bool \<Rightarrow> int \<Rightarrow> fake_hcm world" where
  "demo_world s down n = fake_world (demo_db s) 0 4 (demo_hcm down n)"

lemma demo_world_simps [simp]:
  "db (demo_world s down n) = demo_db s" "faults (demo_world s down n) = []"
  "held (demo_world s down n) = []" "clock (demo_world s down n) = 0"
  "uuidNext (demo_world s down n) = 4" "hcm (demo_world s down n) = demo_hcm down n"
  by (simp_all add: demo_world_def fake_world_def)

lemma uuid_fake [simp]: "uuid (fake_env lazy) = numbered"
  by (simp add: fake_env_def)

lemma demo_world_inv:
  assumes "s \<in> {RequestStatus.PENDING, RequestStatus.PENDING_SYNC, RequestStatus.APPROVED,
                RequestStatus.CANCELLED}"
  shows "world_inv (fake_env lazy) (demo_world s down n)"
  using demo_inv[of "fake_env lazy" s] assms by (simp add: world_inv_def sole_writer_def)

lemma demo_in [simp]: "s \<in> {RequestStatus.PENDING, RequestStatus.PENDING_SYNC, RequestStatus.APPROVED,
    RequestStatus.CANCELLED} \<Longrightarrow> demo_request s \<in> set (requests (demo_db s))"
  by (auto simp: demo_db_def one_request_db_def)

section \<open>A short history\<close>

text \<open>The service starts, the balance is read (and hydrated from HCM), a request is submitted.\<close>

definition demo_start :: "fake_hcm world" where
  "demo_start = fake_world empty_db 0 0 (demo_hcm False 10)"

definition demo_warm :: "fake_hcm world" where
  "demo_warm = snd (getBalance (fake_env True) ''emp1'' ''loc1'' demo_start)"

definition demo_key :: string where
  "demo_key = balanceKey ''emp1'' ''loc1''"

definition demo_submit :: "(request, fake_hcm) svc" where
  "demo_submit = submit_locked (fake_env True) ''emp1'' ''loc1'' ''2026-06-01'' ''2026-06-02'' ''key-1''"

definition demo_submitted :: "fake_hcm world" where
  "demo_submitted = snd (runExclusive demo_key demo_submit demo_warm)"

definition demo_new :: request where
  "demo_new = (demo_request RequestStatus.PENDING)\<lparr>expiresAt := 14 * 24 * 60 * 60 * 1000\<rparr>"

lemma demo_start_starts: "starts demo_start"
  by (simp add: starts_def demo_start_def fake_world_def sole_writer_def)

lemma demo_not_past: "\<not> str_less ''2026-06-02'' (civil_date_string 0)"
  "\<not> str_less ''2026-06-01'' (civil_date_string 0)"
  by code_simp+

lemma demo_parse: "js_Date_parse (toISOString 0) = Date_at 0"
  by code_simp

lemma demo_get:
  "fake_getBalance ''emp1'' ''loc1'' (demo_hcm False 10)
     = (Inr \<lparr>h_employeeId = ''emp1'', h_locationId = ''loc1'', h_balance = 10, h_asOf = toISOString 0\<rparr>,
        count_get (demo_hcm False 10))"
  by (simp add: fake_getBalance_def demo_hcm_def seedBalance_def f_put_def count_get_def new_fake_def
      fake_nowISO_def Let_def)

lemma demo_warm_db:
  "demo_warm = fake_world (set_balance (demo_balance 10 0) empty_db) 0 0 (count_get (demo_hcm False 10))"
  by (simp add: demo_warm_def demo_start_def fake_world_def getBalance_def hydrate_def findBalance_def
      andThen_query is_warm_def fake_env_def empty_db_def runExclusive_def try_catch_def andThen_def
      call_hcm_def demo_get return_apply query_apply applyHcmSnapshot_ok change_balance_def bal_def
      mut_snapshot_def fresh_balance_def demo_parse demo_balance_def set_balance_def pk_of_def)

lemma demo_steps_warm: "steps (fake_env True) demo_start demo_warm"
  unfolding demo_warm_def by (rule steps.more[OF steps.none system_step.act[OF unit_step.read]])

lemma demo_reachable_warm: "reachable (fake_env True) demo_warm"
  using demo_start_starts demo_steps_warm by (auto simp: reachable_def)

lemma demo_steps: "steps (fake_env True) demo_warm demo_submitted"
  unfolding demo_submitted_def demo_submit_def by (rule steps.more[OF steps.none system_step.act[OF unit_step.submit]])

lemma demo_reachable: "reachable (fake_env True) demo_submitted"
proof -
  have "steps (fake_env True) demo_start demo_submitted"
    using steps.more[OF demo_steps_warm system_step.act[OF unit_step.submit]] by (simp add: demo_submitted_def demo_submit_def)
  then show ?thesis using demo_start_starts by (auto simp: reachable_def)
qed

lemma demo_inj: "inj (uuid (fake_env lazy))"
  using inj_numbered by simp

lemma demo_submit_result:
  "demo_submit (demo_warm\<lparr>held := hs\<rparr>) =
     (Ok demo_new, (demo_warm\<lparr>held := hs\<rparr>)\<lparr>uuidNext := 2,
        db := change_balance (mut_reserve 2) (''emp1'', ''loc1'') (set_request demo_new (db demo_warm))\<rparr>)"
proof -
  let ?w = "demo_warm\<lparr>held := hs\<rparr>"
  have w: "faults ?w = []" "uuidNext ?w = 0" "clock ?w = 0"
    "requests (db ?w) = []" "balances (db ?w) (''emp1'', ''loc1'') = Some (demo_balance 10 0)"
    by (simp_all add: demo_warm_db fake_world_def empty_db_def demo_balance_def pk_of_def)
  have inv: "db_inv (fake_env True) (uuidNext ?w) (db ?w)"
    using reachable_inv[OF demo_reachable_warm demo_inj] by (simp add: world_inv_def)
  have "submitted (fake_env True) ''emp1'' ''loc1'' ''2026-06-01'' ''2026-06-02'' ''key-1'' 2 ?w = demo_new"
    using w by (simp add: submitted_def new_request_def demo_new_def demo_request_def ttlMs_def fake_env_def)
  moreover have "submit_locked (fake_env True) ''emp1'' ''loc1'' ''2026-06-01'' ''2026-06-02'' ''key-1'' ?w =
     (Ok (submitted (fake_env True) ''emp1'' ''loc1'' ''2026-06-01'' ''2026-06-02'' ''key-1'' 2 ?w),
      ?w\<lparr>uuidNext := Suc (Suc (uuidNext ?w)),
        db := change_balance (mut_reserve 2) (''emp1'', ''loc1'')
          (set_request (submitted (fake_env True) ''emp1'' ''loc1'' ''2026-06-01'' ''2026-06-02'' ''key-1'' 2 ?w)
            (db ?w))\<rparr>)"
    by (rule submit_locked_ok[OF w(1) inv demo_inj _ _ demo_count _ _ w(5)])
      (use w demo_not_past in \<open>simp_all add: no_such_key_def demo_balance_def\<close>)
  ultimately show ?thesis using w(2) by (simp add: demo_submit_def numeral_2_eq_2)
qed

lemma demo_submitted_db:
  "db demo_submitted = change_balance (mut_reserve 2) (''emp1'', ''loc1'') (set_request demo_new (db demo_warm))"
  "requests (db demo_submitted) = [demo_new]" "outbox (db demo_submitted) = []"
  "reserved_of (db demo_submitted) (''emp1'', ''loc1'') = 2"
proof -
  have free: "demo_key \<notin> set (held demo_warm)" by (simp add: demo_warm_db fake_world_def)
  then show db: "db demo_submitted = change_balance (mut_reserve 2) (''emp1'', ''loc1'')
                   (set_request demo_new (db demo_warm))"
    by (simp add: demo_submitted_def runExclusive_def demo_submit_result)
  have k: "balances_keyed (db demo_warm)"
    using db_invD(1) reachable_inv[OF demo_reachable_warm demo_inj] by (auto simp: world_inv_def)
  show "requests (db demo_submitted) = [demo_new]" "outbox (db demo_submitted) = []"
    "reserved_of (db demo_submitted) (''emp1'', ''loc1'') = 2"
    using k by (simp_all add: db reserve_effect upsert_by_def)
      (simp_all add: demo_warm_db fake_world_def empty_db_def reserved_of_def demo_balance_def pk_of_def)
qed

section \<open>The history goes on\<close>

text \<open>The request is approved while HCM answers, then its FILE row is dispatched.\<close>

definition demo_approved :: "fake_hcm world" where
  "demo_approved = snd (runExclusive demo_key (approve_locked (fake_env True) (r_id demo_new)) demo_submitted)"

definition demo_row :: outbox_row where
  "demo_row = queued (fake_env True) FILE (committed_request 0 demo_new) demo_submitted"

lemma demo_warm_world:
  "held demo_warm = []" "faults demo_warm = []" "clock demo_warm = 0" "uuidNext demo_warm = 0"
  "hcm demo_warm = count_get (demo_hcm False 10)"
  by (simp_all add: demo_warm_db fake_world_def)

lemma demo_submitted_world:
  "held demo_submitted = []" "faults demo_submitted = []" "clock demo_submitted = 0"
  "uuidNext demo_submitted = 2" "hcm demo_submitted = count_get (demo_hcm False 10)"
  by (simp_all add: demo_submitted_def runExclusive_def demo_submit_result demo_warm_world)

lemma demo_get_again: "fake_getBalance ''emp1'' ''loc1'' (count_get (demo_hcm False 10))
     = (Inr \<lparr>h_employeeId = ''emp1'', h_locationId = ''loc1'', h_balance = 10, h_asOf = toISOString 0\<rparr>,
        count_get (count_get (demo_hcm False 10)))"
  by (simp add: fake_getBalance_def demo_hcm_def seedBalance_def f_put_def count_get_def new_fake_def
      fake_nowISO_def Let_def)

lemma demo_approved_db:
  "requests (db demo_approved) = [committed_request 0 demo_new]" "outbox (db demo_approved) = [demo_row]"
  "fst (runExclusive demo_key (approve_locked (fake_env True) (r_id demo_new)) demo_submitted) = Ok (committed_request 0 demo_new)"
proof -
  let ?E = "fake_env True" and ?w = "demo_submitted\<lparr>held := [demo_key]\<rparr>"
  let ?s = "\<lparr>h_employeeId = ''emp1'', h_locationId = ''loc1'', h_balance = 10, h_asOf = toISOString 0\<rparr>"
  let ?h = "count_get (count_get (demo_hcm False 10))"
  have new: "r_employeeId demo_new = ''emp1''" "r_locationId demo_new = ''loc1''" "days demo_new = 2"
    "status demo_new = RequestStatus.PENDING" "startDate demo_new = ''2026-06-01''"
    by (simp_all add: demo_new_def demo_request_def)
  have inv: "db_inv ?E (uuidNext ?w) (db ?w)"
    using reachable_inv[OF demo_reachable demo_inj] by (simp add: world_inv_def)
  have "approve_locked ?E (r_id demo_new) ?w =
     (if h_balance ?s - reserved_of (db ?w) (key_of demo_new) < days demo_new
      then (Ok (demo_new\<lparr>status := RequestStatus.REJECTED\<rparr>),
            ?w\<lparr>hcm := ?h,
              db := set_request (demo_new\<lparr>status := RequestStatus.REJECTED\<rparr>)
                      (change_balance (mut_release (days demo_new)) (key_of demo_new) (refreshed demo_new ?s (db ?w)))\<rparr>)
      else (Ok (committed_request (clock ?w) demo_new),
            ?w\<lparr>hcm := ?h, uuidNext := Suc (uuidNext ?w),
              db := set_request (committed_request (clock ?w) demo_new)
                      (set_outbox (queued ?E FILE (committed_request (clock ?w) demo_new) ?w)
                      (change_balance (mut_commit (days demo_new)) (key_of demo_new) (refreshed demo_new ?s (db ?w))))\<rparr>))"
    (is "?approve = _")
    by (rule approve_locked_hcm_up[OF _ inv])
      (use demo_not_past in \<open>simp_all add: demo_submitted_world demo_submitted_db(2-) new fake_env_def
         demo_get_again key_of_def\<close>)
  then have "fst ?approve = Ok (committed_request 0 demo_new)"
    and db: "db demo_approved = set_request (committed_request 0 demo_new)
      (set_outbox demo_row (change_balance (mut_commit 2) (key_of demo_new) (refreshed demo_new ?s (db demo_submitted))))"
    by (simp_all add: demo_approved_def runExclusive_def demo_submitted_world new key_of_def demo_submitted_db(4)
        demo_row_def queued_def)
  then show "fst (runExclusive demo_key (approve_locked (fake_env True) (r_id demo_new)) demo_submitted)
      = Ok (committed_request 0 demo_new)"
    by (cases ?approve) (simp add: runExclusive_def demo_submitted_world)
  from db show "requests (db demo_approved) = [committed_request 0 demo_new]"
    "outbox (db demo_approved) = [demo_row]"
    by (simp_all add: demo_submitted_db(2-) refreshed_def upsert_by_def committed_request_def)
qed

definition demo_dispatched :: "fake_hcm world" where
  "demo_dispatched = snd (dispatchOne (fake_env True) (o_id demo_row) demo_approved)"

lemma demo_approved_step: "steps (fake_env True) demo_submitted demo_approved"
  unfolding demo_approved_def by (rule steps.more[OF steps.none system_step.act[OF unit_step.approve]])

lemma demo_dispatched_step: "steps (fake_env True) demo_approved demo_dispatched"
  unfolding demo_dispatched_def by (rule steps.more[OF steps.none system_step.act[OF unit_step.dispatch]])

lemma demo_reachable_approved: "reachable (fake_env True) demo_approved"
  by (rule reachable_steps[OF demo_reachable demo_approved_step])

text \<open>A second request of the same employee, for other days, before the approval.\<close>

definition demo_two :: "fake_hcm world" where
  "demo_two = snd (runExclusive demo_key
     (submit_locked (fake_env True) ''emp1'' ''loc1'' ''2026-06-08'' ''2026-06-09'' ''key-2'') demo_submitted)"

definition demo_second :: request where
  "demo_second = submitted (fake_env True) ''emp1'' ''loc1'' ''2026-06-08'' ''2026-06-09'' ''key-2'' 2 demo_submitted"

lemma demo_second_dates: "countBusinessDays ''2026-06-08'' ''2026-06-09'' {} = Inr 2"
  "\<not> str_less ''2026-06-09'' (civil_date_string 0)" "\<not> str_le ''2026-06-08'' ''2026-06-02''"
  by code_simp+

lemma demo_submitted_balance:
  "balances (db demo_submitted) (''emp1'', ''loc1'') = Some (demo_balance 10 2)"
  by (simp add: demo_submitted_db(1) demo_warm_db fake_world_def empty_db_def demo_balance_def pk_of_def
      change_balance_def bal_def mut_reserve_def)

lemma demo_two_requests: "requests (db demo_two) = [demo_new, demo_second]"
proof -
  let ?E = "fake_env True" and ?w = "demo_submitted\<lparr>held := [demo_key]\<rparr>"
  have inv: "db_inv ?E (uuidNext ?w) (db ?w)"
    using reachable_inv[OF demo_reachable demo_inj] by (simp add: world_inv_def)
  have new: "idempotencyKey demo_new = ''key-1''" "endDate demo_new = ''2026-06-02''" "r_id demo_new = numbered 1"
    by (simp_all add: demo_new_def demo_request_def)
  have "submit_locked ?E ''emp1'' ''loc1'' ''2026-06-08'' ''2026-06-09'' ''key-2'' ?w =
     (Ok (submitted ?E ''emp1'' ''loc1'' ''2026-06-08'' ''2026-06-09'' ''key-2'' 2 ?w),
      ?w\<lparr>uuidNext := Suc (Suc (uuidNext ?w)),
        db := change_balance (mut_reserve 2) (''emp1'', ''loc1'')
          (set_request (submitted ?E ''emp1'' ''loc1'' ''2026-06-08'' ''2026-06-09'' ''key-2'' 2 ?w) (db ?w))\<rparr>)"
    by (rule submit_locked_ok[where b = "demo_balance 10 2", OF _ inv demo_inj _ _ demo_second_dates(1)])
      (use demo_second_dates demo_submitted_balance in \<open>simp_all add: demo_submitted_world demo_submitted_db(2)
         no_such_key_def new overlaps_def demo_balance_def\<close>)
  then have "requests (db demo_two) = upsert_by r_id demo_second [demo_new]"
    by (simp add: demo_two_def runExclusive_def demo_submitted_world demo_submitted_db(2) demo_second_def
        submitted_def)
  moreover have "r_id demo_second \<noteq> r_id demo_new"
    using injD[OF inj_numbered, of 3 1] by (auto simp: demo_second_def submitted_def demo_submitted_world new eval_nat_numeral)
  ultimately show ?thesis by (simp add: upsert_by_def)
qed

lemma demo_reachable_two: "reachable (fake_env True) demo_two"
  unfolding demo_two_def
  by (rule reachable_steps[OF demo_reachable steps.more[OF steps.none system_step.act[OF unit_step.submit]]])


text \<open>A batch without balances is ingested.\<close>

definition demo_corpus :: batch_corpus where
  "demo_corpus = \<lparr>bc_sequence = 1, bc_asOf = toISOString 0, bc_balances = []\<rparr>"

definition demo_batched :: "fake_hcm world" where
  "demo_batched = snd (ingestBatch (fake_env True) demo_corpus demo_warm)"

lemma demo_batched_step: "steps (fake_env True) demo_warm demo_batched"
  unfolding demo_batched_def using operations_run_as_steps(7) by (auto simp: runs_as_steps_def)

lemma demo_batched_sequence: "lastSequence (db demo_batched) = Some 1"
  by (simp add: demo_batched_def ingestBatch_def sequence_guard_def transaction_def query_apply andThen_def
      return_apply demo_warm_world lastSequence_def demo_corpus_def fault_free_simps log_batch_def upsert_by_def
      demo_warm_db fake_world_def empty_db_def)

lemma demo_reachable_batched: "reachable (fake_env True) demo_batched"
  by (rule reachable_steps[OF demo_reachable_warm demo_batched_step])

end
