(* ===== verification/Request_Properties.thy ===== *)
theory Request_Properties
  imports Demo_Worlds
begin

text \<open>
  The life of one request, operation by operation: what \<open>submit\<close>, \<open>approve\<close>, \<open>reject\<close>, \<open>cancel\<close> and
  \<open>expire\<close> of \<open>src/src/time-off-request/time-off-request.service.ts\<close> answer and store when the
  database does not fail, on every branch, with a concrete run of each.
\<close>

section \<open>The common frame\<close>

text \<open>
  The situation in which an operation on a stored request runs through: the database answers, the
  request's balance has been read from HCM before, nobody holds its lock.
\<close>

definition ready :: "'h env \<Rightarrow> request \<Rightarrow> 'h world \<Rightarrow> bool" where
  "ready E r w = (faults w = [] \<and> db_inv E (uuidNext w) (db w) \<and> r \<in> set (requests (db w))
     \<and> is_warm (balances (db w) (key_of r)) \<and> balanceKey (r_employeeId r) (r_locationId r) \<notin> set (held w))"

definition locked :: "request \<Rightarrow> 'h world \<Rightarrow> 'h world" where
  "locked r w = w\<lparr>held := balanceKey (r_employeeId r) (r_locationId r) # held w\<rparr>"

lemma readyD:
  assumes "ready E r w"
  shows "faults w = []" "db_inv E (uuidNext w) (db w)" "r \<in> set (requests (db w))"
    "balanceKey (r_employeeId r) (r_locationId r) \<notin> set (held w)"
    "\<exists>b. balances (db w) (r_employeeId r, r_locationId r) = Some b \<and> lastHcmAsOf b \<noteq> None"
  using assms by (auto simp: ready_def is_warm_def key_of_def split: option.splits)

lemma locked_simps [simp]:
  "db (locked r w) = db w" "faults (locked r w) = faults w" "clock (locked r w) = clock w"
  "dbClock (locked r w) = dbClock w" "uuidNext (locked r w) = uuidNext w" "hcm (locked r w) = hcm w"
  by (simp_all add: locked_def)

lemma queued_locked [simp]: "queued E op r (locked s w) = queued E op r w"
  by (simp add: queued_def)

lemma with_request_lock_run:
  assumes r: "ready E r w" and m: "m (locked r w) = (x, w')" "x \<noteq> Hang" "held w' = held (locked r w)"
  shows "with_request_lock E (r_id r) m w = (x, w'\<lparr>held := held w\<rparr>)"
proof -
  obtain b where b: "balances (db w) (r_employeeId r, r_locationId r) = Some b" "lastHcmAsOf b \<noteq> None"
    using readyD(5)[OF r] by blast
  have "runExclusive (balanceKey (r_employeeId r) (r_locationId r)) m w = (x, w'\<lparr>held := held w\<rparr>)"
    by (rule runExclusive_free) (use readyD(4)[OF r] m in \<open>simp_all add: locked_def\<close>)
  then show ?thesis
    using findRequest_of[OF readyD(2,3)[OF r]] getBalance_warm[OF b, of E]
    by (simp add: with_request_lock_def andThen_def)
qed

lemma locked_back: "(locked r w)\<lparr>hcm := h, uuidNext := n, db := d, held := held w\<rparr> = w\<lparr>hcm := h, uuidNext := n, db := d\<rparr>"
  "(locked r w)\<lparr>hcm := h, db := d, held := held w\<rparr> = w\<lparr>hcm := h, db := d\<rparr>"
  "(locked r w)\<lparr>uuidNext := n, db := d, held := held w\<rparr> = w\<lparr>uuidNext := n, db := d\<rparr>"
  "(locked r w)\<lparr>db := d, held := held w\<rparr> = w\<lparr>db := d\<rparr>"
  by (simp_all add: locked_def)

section \<open>Effects on one balance\<close>

lemma ready_keyed: "ready E r w \<Longrightarrow> balances_keyed (db w)"
  using db_invD(1)[OF readyD(2)] .

lemma ready_reserved:
  assumes "ready E r w" "status r = RequestStatus.PENDING"
  shows "days r \<le> reserved_of (db w) (key_of r)"
  using pending_days_le_reserved[OF readyD(2,3)[OF assms(1)]] assms(2) by (simp add: pending_days_def)

text \<open>The table after the request was saved: only its own row changed.\<close>

definition replaced :: "request \<Rightarrow> request list \<Rightarrow> request list" where
  "replaced r' rs = map (\<lambda>x. if r_id x = r_id r' then r' else x) rs"

lemma upsert_replaced:
  assumes "r \<in> set rs" "r_id r' = r_id r"
  shows "upsert_by r_id r' rs = replaced r' rs"
  using assms by (auto simp: upsert_by_def update_where_def replaced_def)

lemma queued_new:
  assumes "db_inv E (uuidNext w) (db w)" "inj (uuid E)" 
  shows "upsert_by o_id (queued E op r w) (outbox (db w)) = outbox (db w) @ [queued E op r w]"
  using fresh_id(2)[OF assms(2,1)] by (intro upsert_new) (simp add: queued_def)

text \<open>
  The database after an operation settled request \<open>r\<close>: the row of its balance is changed, its own row is
  replaced, rows are appended to the outbox, and nothing else is different.
\<close>

definition settled ::
  "request \<Rightarrow> (balance \<Rightarrow> balance) \<Rightarrow> request \<Rightarrow> outbox_row list \<Rightarrow> database \<Rightarrow> database" where
  "settled r f r' rows d = d\<lparr>balances := (balances d)(key_of r := map_option f (balances d (key_of r))),
     requests := replaced r' (requests d), outbox := outbox d @ rows\<rparr>"

lemmas mut_days = mut_reserve_def mut_release_def mut_commit_def mut_restore_def mut_snapshot_def

lemma change_other: "balances_keyed d \<Longrightarrow> keeps_pk f \<Longrightarrow> k' \<noteq> k \<Longrightarrow>
  balances (change_balance f k d) k' = balances d k'"
  by (simp add: balances_change)

lemma change_twice:
  assumes "balances_keyed d" "keeps_pk f" "keeps_pk g"
  shows "change_balance f k (change_balance g k d) = change_balance (f \<circ> g) k d"
  using pk_of_changed[OF assms(1,3), of k] assms(2)
  by (simp add: change_balance_def set_balance_def bal_def keeps_pk_def)

lemma settled_eq:
  assumes r: "ready E r w" "r_id r' = r_id r" and f: "keeps_pk g"
    "\<And>b. balances (db w) (key_of r) = Some b \<Longrightarrow> g b = f b"
  shows "set_request r' (change_balance g (key_of r) (db w)) = settled r f r' [] (db w)"
    "inj (uuid E) \<Longrightarrow> set_request r' (set_outbox (queued E op q w) (change_balance g (key_of r) (db w)))
       = settled r f r' [queued E op q w] (db w)"
proof -
  obtain b where b: "balances (db w) (key_of r) = Some b" using readyD(5)[OF r(1)] by (auto simp: key_of_def)
  have k: "pk_of (g b) = key_of r"
    using pk_of_changed[OF ready_keyed[OF r(1)] f(1), of "key_of r"] b by (simp add: bal_def)
  show "set_request r' (change_balance g (key_of r) (db w)) = settled r f r' [] (db w)"
    using b k f(2)[OF b] upsert_replaced[OF readyD(3)[OF r(1)] r(2)]
    by (simp add: settled_def set_request_def change_balance_def set_balance_def bal_def)
  show "set_request r' (set_outbox (queued E op q w) (change_balance g (key_of r) (db w)))
       = settled r f r' [queued E op q w] (db w)" if "inj (uuid E)"
    using b k f(2)[OF b] upsert_replaced[OF readyD(3)[OF r(1)] r(2)] queued_new[OF readyD(2)[OF r(1)] that]
    by (simp add: settled_def set_request_def set_outbox_def change_balance_def set_balance_def bal_def)
qed

section \<open>Concrete runs\<close>

lemma demo_ready:
  assumes "s \<in> {RequestStatus.PENDING, RequestStatus.PENDING_SYNC, RequestStatus.APPROVED, RequestStatus.CANCELLED}"
  shows "ready (fake_env lazy) (demo_request s) (demo_world s down n)"
  using demo_inv[of "fake_env lazy" s] demo_in[OF assms] assms
  by (auto simp: ready_def is_warm_def demo_db_def one_request_db_def demo_balance_def demo_request_def
      pk_of_def key_of_def)

lemma demo_request_simps:
  "r_id (demo_request s) = numbered 1" "key_of (demo_request s) = (''emp1'', ''loc1'')" "days (demo_request s) = 2"
  "status (demo_request s) = s" "r_employeeId (demo_request s) = ''emp1''"
  "r_locationId (demo_request s) = ''loc1''" "startDate (demo_request s) = ''2026-06-01''"
  "endDate (demo_request s) = ''2026-06-02''" "idempotencyKey (demo_request s) = ''key-1''"
  by (simp_all add: demo_request_def key_of_def)

lemma demo_days:
  "available_of (demo_db RequestStatus.PENDING) (''emp1'', ''loc1'') = 10"
  "reserved_of (demo_db RequestStatus.PENDING) (''emp1'', ''loc1'') = 2"
  "available_of (demo_db RequestStatus.APPROVED) (''emp1'', ''loc1'') = 8"
  "reserved_of (demo_db RequestStatus.APPROVED) (''emp1'', ''loc1'') = 0"
  by (simp_all add: demo_db_def one_request_db_def available_of_def reserved_of_def demo_balance_def pk_of_def)

lemma demo_hcm_down:
  "hcm_getBalance (fake_env lazy) ''emp1'' ''loc1'' (demo_hcm True n) =
     (Inl (HcmUnavailableError ''getBalance:emp1:loc1''), count_get (demo_hcm True n))"
  by (simp add: fake_env_def fake_getBalance_def demo_hcm_def count_get_def)

definition demo_answer :: "int \<Rightarrow> hcm_balance" where
  "demo_answer n = \<lparr>h_employeeId = ''emp1'', h_locationId = ''loc1'', h_balance = n, h_asOf = toISOString 0\<rparr>"

lemma demo_hcm_up:
  "hcm_getBalance (fake_env lazy) ''emp1'' ''loc1'' (demo_hcm False n) = (Inr (demo_answer n), count_get (demo_hcm False n))"
  by (simp add: fake_env_def fake_getBalance_def demo_hcm_def seedBalance_def f_put_def count_get_def new_fake_def
      fake_nowISO_def demo_answer_def Let_def)

section \<open>Approval\<close>

lemma approve_down_run:
  assumes r: "ready E r w" "inj (uuid E)" and st: "status r = RequestStatus.PENDING"
    "\<not> str_less (startDate r) (civil_date_string (clock w))"
    and down: "hcm_getBalance E (r_employeeId r) (r_locationId r) (hcm w) = (Inl (HcmUnavailableError op), h)"
  shows "approve E (r_id r) w = (Ok (committed_request (clock w) r), w\<lparr>hcm := h, uuidNext := Suc (uuidNext w),
      db := settled r (\<lambda>b. b\<lparr>available := available b - days r, reserved := reserved b - days r\<rparr>)
        (committed_request (clock w) r) [queued E FILE (committed_request (clock w) r) w] (db w)\<rparr>)"
proof -
  let ?r = "committed_request (clock w) r" and ?w = "locked r w"
  have "approve_locked E (r_id r) ?w =
     (Ok (committed_request (clock ?w) r),
      ?w\<lparr>hcm := h, uuidNext := Suc (uuidNext ?w),
        db := set_request (committed_request (clock ?w) r)
                (set_outbox (queued E FILE (committed_request (clock ?w) r) ?w)
                (change_balance (mut_commit (days r)) (key_of r) (db ?w)))\<rparr>)"
    by (rule approve_locked_hcm_down[where n = "uuidNext w"]) (use readyD[OF r(1)] st down in simp_all)
  moreover have "set_request ?r (set_outbox (queued E FILE ?r w) (change_balance (mut_commit (days r)) (key_of r) (db w)))
      = settled r (\<lambda>b. b\<lparr>available := available b - days r, reserved := reserved b - days r\<rparr>) ?r [queued E FILE ?r w] (db w)"
    by (rule settled_eq(2)[OF r(1) _ _ _ r(2)])
      (use ready_reserved[OF r(1) st(1)] in \<open>auto simp: committed_request_def mut_commit_def reserved_of_def\<close>)
  ultimately show ?thesis
    using with_request_lock_run[where m = "approve_locked E (r_id r)", OF r(1)] by (simp add: approve_def locked_back)
qed

text \<open>C16: Approving a PENDING request whose start is not past and whose balance has been read before, while HCM does not answer, commits it against the local balance: available and reserved of the balance both fall by its days, the request becomes PENDING_SYNC, one PENDING FILE row is queued under the next identifier, and nothing else changes but HCM's own state.\<close>

theorem approve_hcm_down:
  assumes "ready E r w" "inj (uuid E)" "status r = RequestStatus.PENDING"
    and "\<not> str_less (startDate r) (civil_date_string (clock w))"
    and "hcm_getBalance E (r_employeeId r) (r_locationId r) (hcm w) = (Inl (HcmUnavailableError op), h)"
  shows "approve E (r_id r) w = (Ok (committed_request (clock w) r), w\<lparr>hcm := h, uuidNext := Suc (uuidNext w),
      db := settled r (\<lambda>b. b\<lparr>available := available b - days r, reserved := reserved b - days r\<rparr>)
        (committed_request (clock w) r) [queued E FILE (committed_request (clock w) r) w] (db w)\<rparr>)"
  by (rule approve_down_run[OF assms])

lemma approve_hcm_down_witness:
  "fst (approve (fake_env True) (numbered 1) (demo_world RequestStatus.PENDING True 10))
      = Ok (committed_request 0 (demo_request RequestStatus.PENDING))
   \<and> balances (db (snd (approve (fake_env True) (numbered 1) (demo_world RequestStatus.PENDING True 10)))) (''emp1'', ''loc1'')
      = Some (demo_balance 8 0)"
proof -
  have "ready (fake_env True) (demo_request RequestStatus.PENDING) (demo_world RequestStatus.PENDING True 10)"
    by (rule demo_ready) simp
  from approve_hcm_down[OF this demo_inj, of "''getBalance:emp1:loc1''" "count_get (demo_hcm True 10)"]
  show ?thesis
    by (simp add: demo_request_simps demo_not_past demo_hcm_down settled_def demo_db_def one_request_db_def
        demo_balance_def pk_of_def)
qed

lemma approve_past_run:
  assumes r: "ready E r w" and st: "status r = RequestStatus.PENDING"
    "str_less (startDate r) (civil_date_string (clock w))"
  shows "approve E (r_id r) w = (Ok (r\<lparr>status := RequestStatus.REJECTED\<rparr>), w\<lparr>db := settled r
      (\<lambda>b. b\<lparr>reserved := reserved b - days r\<rparr>) (r\<lparr>status := RequestStatus.REJECTED\<rparr>) [] (db w)\<rparr>)"
proof -
  let ?w = "locked r w"
  have "approve_locked E (r_id r) ?w = release_and_reject r ?w"
    unfolding approve_locked_def
    using st findRequest_of[of E "uuidNext w" ?w r] readyD[OF r]
    by (simp add: andThen_def[of "findRequest _"] andThen_now)
  also have "\<dots> = (Ok (r\<lparr>status := RequestStatus.REJECTED\<rparr>), ?w\<lparr>db := set_request (r\<lparr>status := RequestStatus.REJECTED\<rparr>)
      (change_balance (mut_release (days r)) (key_of r) (db ?w))\<rparr>)"
    using release_and_reject_ok[of ?w E "uuidNext w" r] readyD[OF r] by simp
  finally have "approve_locked E (r_id r) ?w = \<dots>" .
  moreover have "set_request (r\<lparr>status := RequestStatus.REJECTED\<rparr>) (change_balance (mut_release (days r)) (key_of r) (db w))
      = settled r (\<lambda>b. b\<lparr>reserved := reserved b - days r\<rparr>) (r\<lparr>status := RequestStatus.REJECTED\<rparr>) [] (db w)"
    by (rule settled_eq(1)[OF r])
      (use ready_reserved[OF r st(1)] in \<open>auto simp: mut_release_def reserved_of_def\<close>)
  ultimately show ?thesis
    using with_request_lock_run[where m = "approve_locked E (r_id r)", OF r] by (simp add: approve_def locked_back)
qed

lemma approve_up_run:
  assumes r: "ready E r w" "inj (uuid E)" and st: "status r = RequestStatus.PENDING"
    "\<not> str_less (startDate r) (civil_date_string (clock w))"
    and up: "hcm_getBalance E (r_employeeId r) (r_locationId r) (hcm w) = (Inr s, h)"
      "(h_employeeId s, h_locationId s) = key_of r"
  shows "approve E (r_id r) w = (if days r \<le> h_balance s - reserved_of (db w) (key_of r)
     then (Ok (committed_request (clock w) r), w\<lparr>hcm := h, uuidNext := Suc (uuidNext w), db := settled r
       (\<lambda>b. b\<lparr>available := h_balance s - days r, reserved := reserved b - days r, lastHcmAsOf := Some (js_Date_parse (h_asOf s))\<rparr>)
       (committed_request (clock w) r) [queued E FILE (committed_request (clock w) r) w] (db w)\<rparr>)
     else (Ok (r\<lparr>status := RequestStatus.REJECTED\<rparr>), w\<lparr>hcm := h, db := settled r
       (\<lambda>b. b\<lparr>available := h_balance s, reserved := reserved b - days r, lastHcmAsOf := Some (js_Date_parse (h_asOf s))\<rparr>)
       (r\<lparr>status := RequestStatus.REJECTED\<rparr>) [] (db w)\<rparr>))"
proof -
  let ?w = "locked r w" and ?r = "committed_request (clock w) r" and ?no = "r\<lparr>status := RequestStatus.REJECTED\<rparr>"
  have twice: "change_balance f (key_of r) (refreshed r s (db w)) = change_balance (f \<circ> mut_snapshot s) (key_of r) (db w)"
    if "keeps_pk f" for f
    unfolding refreshed_def by (rule change_twice[OF ready_keyed[OF r(1)] that]) simp
  have keeps: "keeps_pk (mut_commit (days r) \<circ> mut_snapshot s)" "keeps_pk (mut_release (days r) \<circ> mut_snapshot s)"
    by (simp_all add: keeps_pk_def mut_commit_def mut_release_def mut_snapshot_def pk_of_def)
  have less: "days r \<le> reserved b" if "balances (db w) (key_of r) = Some b" for b
    using ready_reserved[OF r(1) st(1)] that by (simp add: reserved_of_def)
  have yes: "set_request ?r (set_outbox (queued E FILE ?r w) (change_balance (mut_commit (days r)) (key_of r) (refreshed r s (db w))))
      = settled r (\<lambda>b. b\<lparr>available := h_balance s - days r, reserved := reserved b - days r, lastHcmAsOf := Some (js_Date_parse (h_asOf s))\<rparr>)
          ?r [queued E FILE ?r w] (db w)"
    unfolding twice[OF keeps_pk_muts(3)]
    by (rule settled_eq(2)[OF r(1) _ keeps(1) _ r(2)])
      (use less in \<open>auto simp: committed_request_def mut_commit_def mut_snapshot_def\<close>)
  have no: "set_request ?no (change_balance (mut_release (days r)) (key_of r) (refreshed r s (db w)))
      = settled r (\<lambda>b. b\<lparr>available := h_balance s, reserved := reserved b - days r, lastHcmAsOf := Some (js_Date_parse (h_asOf s))\<rparr>)
          ?no [] (db w)"
    unfolding twice[OF keeps_pk_muts(2)]
    by (rule settled_eq(1)[OF r(1) _ keeps(2)]) (use less in \<open>auto simp: mut_release_def mut_snapshot_def\<close>)
  note run = approve_locked_hcm_up[where w = ?w and n = "uuidNext w" and r = r and E = E and s = s and h = h]
  show ?thesis
  proof (cases "h_balance s - reserved_of (db w) (key_of r) < days r")
    case True
    have "approve_locked E (r_id r) ?w = (Ok ?no, ?w\<lparr>hcm := h, db := set_request ?no
             (change_balance (mut_release (days r)) (key_of r) (refreshed r s (db ?w)))\<rparr>)"
      using run readyD[OF r(1)] st up True by simp
    from with_request_lock_run[where m = "approve_locked E (r_id r)", OF r(1) this] show ?thesis
      using True no by (simp add: approve_def locked_back)
  next
    case False
    have "approve_locked E (r_id r) ?w = (Ok (committed_request (clock ?w) r),
        ?w\<lparr>hcm := h, uuidNext := Suc (uuidNext ?w),
          db := set_request (committed_request (clock ?w) r)
                  (set_outbox (queued E FILE (committed_request (clock ?w) r) ?w)
                  (change_balance (mut_commit (days r)) (key_of r) (refreshed r s (db ?w))))\<rparr>)"
      using run readyD[OF r(1)] st up False by simp
    from with_request_lock_run[where m = "approve_locked E (r_id r)", OF r(1) this] show ?thesis
      using False yes by (simp add: approve_def locked_back)
  qed
qed

text \<open>C17: Approving a PENDING request whose balance has been read before. When its start is past it is rejected and its reservation released, and HCM is not asked. Otherwise, when HCM answers with a snapshot of the request's own balance, that value and its time are stored, and if the value less all reserved days covers the request it is committed (its days leave available and reserved, one FILE row is queued), else it is rejected and its reservation released. Nothing else changes.\<close>

theorem approve_hcm_up:
  assumes "ready E r w" "inj (uuid E)" "status r = RequestStatus.PENDING"
  shows "(str_less (startDate r) (civil_date_string (clock w)) \<longrightarrow>
      approve E (r_id r) w = (Ok (r\<lparr>status := RequestStatus.REJECTED\<rparr>), w\<lparr>db := settled r
        (\<lambda>b. b\<lparr>reserved := reserved b - days r\<rparr>) (r\<lparr>status := RequestStatus.REJECTED\<rparr>) [] (db w)\<rparr>))
    \<and> (\<not> str_less (startDate r) (civil_date_string (clock w))
       \<and> hcm_getBalance E (r_employeeId r) (r_locationId r) (hcm w) = (Inr s, h) \<and> (h_employeeId s, h_locationId s) = key_of r \<longrightarrow>
      approve E (r_id r) w = (if days r \<le> h_balance s - reserved_of (db w) (key_of r)
        then (Ok (committed_request (clock w) r), w\<lparr>hcm := h, uuidNext := Suc (uuidNext w), db := settled r
          (\<lambda>b. b\<lparr>available := h_balance s - days r, reserved := reserved b - days r, lastHcmAsOf := Some (js_Date_parse (h_asOf s))\<rparr>)
          (committed_request (clock w) r) [queued E FILE (committed_request (clock w) r) w] (db w)\<rparr>)
        else (Ok (r\<lparr>status := RequestStatus.REJECTED\<rparr>), w\<lparr>hcm := h, db := settled r
          (\<lambda>b. b\<lparr>available := h_balance s, reserved := reserved b - days r, lastHcmAsOf := Some (js_Date_parse (h_asOf s))\<rparr>)
          (r\<lparr>status := RequestStatus.REJECTED\<rparr>) [] (db w)\<rparr>)))"
  using approve_past_run[OF assms(1,3)] approve_up_run[OF assms] by blast

lemma approve_hcm_up_witness:
  "fst (approve (fake_env True) (numbered 1) (demo_world RequestStatus.PENDING False 10))
      = Ok (committed_request 0 (demo_request RequestStatus.PENDING))
   \<and> balances (db (snd (approve (fake_env True) (numbered 1) (demo_world RequestStatus.PENDING False 10)))) (''emp1'', ''loc1'')
      = Some (demo_balance 8 0)"
proof -
  have "ready (fake_env True) (demo_request RequestStatus.PENDING) (demo_world RequestStatus.PENDING False 10)"
    by (rule demo_ready) simp
  from approve_hcm_up[OF this demo_inj, of "demo_answer 10" "count_get (demo_hcm False 10)"]
  show ?thesis
    by (simp add: demo_request_simps demo_not_past demo_hcm_up demo_answer_def demo_days settled_def demo_db_def
        one_request_db_def demo_balance_def pk_of_def demo_parse reserved_of_def)
qed

text \<open>A request that is the only pending one of its balance.\<close>

lemma sole_pending:
  assumes "db_inv E n d" "r \<in> set (requests d)" "status r = RequestStatus.PENDING"
    "\<forall>x \<in> set (requests d). key_of x = key_of r \<and> status x = RequestStatus.PENDING \<longrightarrow> x = r"
  shows "reserved_of d (key_of r) = days r"
proof -
  let ?f = "\<lambda>x. if key_of x = key_of r then pending_days x else 0"
  have dist: "distinct (requests d)"
    using db_invD(2)[OF assms(1)] distinct_map[of r_id "requests d"] by (simp add: keys_distinct_def)
  have "?f x = (if x = r then days r else 0)" if "x \<in> set (requests d)" for x
    using that assms(3,4) by (auto simp: pending_days_def)
  then have "pending_sum d (key_of r) = sum_list (map (\<lambda>x. if x = r then days r else 0) (requests d))"
    unfolding pending_sum_def by (intro arg_cong[where f = sum_list] map_cong) auto
  also have "\<dots> = (\<Sum>x \<in> set (requests d). if x = r then days r else 0)"
    using dist by (rule sum_list_distinct_conv_sum_set)
  finally show ?thesis using db_invD(5)[OF assms(1), of "key_of r"] assms(2) by simp
qed

text \<open>C38: The availability check of an approval counts the request's own reservation against itself: a balance's only PENDING request is rejected although HCM reports enough days for it, whenever HCM reports less than twice its days.\<close>

theorem approve_counts_own_days_twice:
  assumes r: "ready E r w" "inj (uuid E)" and st: "status r = RequestStatus.PENDING"
    "\<not> str_less (startDate r) (civil_date_string (clock w))"
    and sole: "\<forall>x \<in> set (requests (db w)). key_of x = key_of r \<and> status x = RequestStatus.PENDING \<longrightarrow> x = r"
    and up: "hcm_getBalance E (r_employeeId r) (r_locationId r) (hcm w) = (Inr s, h)"
      "(h_employeeId s, h_locationId s) = key_of r"
    and enough: "days r \<le> h_balance s" "h_balance s < 2 * days r"
  shows "fst (approve E (r_id r) w) = Ok (r\<lparr>status := RequestStatus.REJECTED\<rparr>)"
proof -
  have "reserved_of (db (locked r w)) (key_of r) = days r"
    using sole_pending[OF readyD(2,3)[OF r(1)] st(1) sole] by simp
  then have "approve_locked E (r_id r) (locked r w) = (Ok (r\<lparr>status := RequestStatus.REJECTED\<rparr>),
        locked r w\<lparr>hcm := h, db := set_request (r\<lparr>status := RequestStatus.REJECTED\<rparr>)
             (change_balance (mut_release (days r)) (key_of r) (refreshed r s (db (locked r w))))\<rparr>)"
    using approve_locked_hcm_up[where w = "locked r w" and n = "uuidNext w" and r = r and E = E and s = s and h = h]
      readyD[OF r(1)] st up enough by simp
  from with_request_lock_run[where m = "approve_locked E (r_id r)", OF r(1) this]
  show ?thesis by (simp add: approve_def)
qed

lemma approve_counts_own_days_twice_witness:
  "fst (approve (fake_env True) (numbered 1) (demo_world RequestStatus.PENDING False 3))
     = Ok ((demo_request RequestStatus.PENDING)\<lparr>status := RequestStatus.REJECTED\<rparr>)"
proof -
  have "ready (fake_env True) (demo_request RequestStatus.PENDING) (demo_world RequestStatus.PENDING False 3)"
    by (rule demo_ready) simp
  from approve_counts_own_days_twice[OF this demo_inj, of "demo_answer 3" "count_get (demo_hcm False 3)"]
  show ?thesis
    by (simp add: demo_request_simps demo_not_past demo_hcm_up demo_answer_def demo_db_def one_request_db_def)
qed

section \<open>Withdrawing a request that HCM has not accepted\<close>

definition withdrawn :: "RequestStatus \<Rightarrow> request \<Rightarrow> database \<Rightarrow> database" where
  "withdrawn s r d =
     set_request (r\<lparr>status := s\<rparr>)
       (change_balance (if status r = RequestStatus.PENDING then mut_release (days r) else mut_restore (days r))
          (key_of r) (void_files (r_id r) d))"

lemma withdraw_locked:
  assumes f: "faults w = []" and inv: "db_inv E n (db w)" and r: "r \<in> set (requests (db w))"
    "status r = RequestStatus.PENDING \<or> status r = RequestStatus.PENDING_SYNC"
  shows "reject_locked (r_id r) w =
      (Ok (r\<lparr>status := RequestStatus.REJECTED\<rparr>), w\<lparr>db := withdrawn RequestStatus.REJECTED r (db w)\<rparr>)"
    "cancel_locked E (r_id r) w =
      (Ok (r\<lparr>status := RequestStatus.CANCELLED\<rparr>), w\<lparr>db := withdrawn RequestStatus.CANCELLED r (db w)\<rparr>)"
    "expire (r_id r) w =
      (Ok (r\<lparr>status := RequestStatus.EXPIRED\<rparr>), w\<lparr>db := withdrawn RequestStatus.EXPIRED r (db w)\<rparr>)"
proof -
  have free: "\<not> key_taken (r\<lparr>status := s\<rparr>) (change_balance g k (void_files i (db w)))"
    "\<not> key_taken (r\<lparr>status := s\<rparr>) (change_balance g k (db w))" for g k i s
    by (rule key_taken_own[OF inv r(1)]; simp)+
  have none: "status r = RequestStatus.PENDING \<Longrightarrow> void_files (r_id r) (db w) = db w"
    using pending_no_rows[OF inv r(1)] void_files_none by blast
  note go = andThen_def[of "findRequest _"] findRequest_of[OF inv r(1)] transaction_def andThen_def
    release_ok restore_ok voidPendingFileRows_def fault_free_simps save_request_fault_free return_apply
    void_files_change withdrawn_def f free
  show "reject_locked (r_id r) w =
      (Ok (r\<lparr>status := RequestStatus.REJECTED\<rparr>), w\<lparr>db := withdrawn RequestStatus.REJECTED r (db w)\<rparr>)"
    using r(2) none by (auto simp: reject_locked_def restore_and_void_def go simp flip: key_of_def)
  show "expire (r_id r) w =
      (Ok (r\<lparr>status := RequestStatus.EXPIRED\<rparr>), w\<lparr>db := withdrawn RequestStatus.EXPIRED r (db w)\<rparr>)"
    using r(2) none by (auto simp: expire_def restore_and_void_def go simp flip: key_of_def)
  show "cancel_locked E (r_id r) w =
      (Ok (r\<lparr>status := RequestStatus.CANCELLED\<rparr>), w\<lparr>db := withdrawn RequestStatus.CANCELLED r (db w)\<rparr>)"
    using r(2) none sync_file_not_sent[OF inv r(1)]
    by (auto simp: cancel_locked_def cancel_effect_def findFileRow_def query_apply go simp flip: key_of_def)
qed

lemma withdrawal_outcome:
  assumes r: "ready E r w" "status r = RequestStatus.PENDING \<or> status r = RequestStatus.PENDING_SYNC"
  shows "reject E (r_id r) w =
       (Ok (r\<lparr>status := RequestStatus.REJECTED\<rparr>), w\<lparr>db := withdrawn RequestStatus.REJECTED r (db w)\<rparr>)
    \<and> cancel E (r_id r) w =
       (Ok (r\<lparr>status := RequestStatus.CANCELLED\<rparr>), w\<lparr>db := withdrawn RequestStatus.CANCELLED r (db w)\<rparr>)
    \<and> expire (r_id r) w =
       (Ok (r\<lparr>status := RequestStatus.EXPIRED\<rparr>), w\<lparr>db := withdrawn RequestStatus.EXPIRED r (db w)\<rparr>)
    \<and> available_of (withdrawn s r (db w)) (key_of r) = available_of (db w) (key_of r) + committed_days r
    \<and> reserved_of (withdrawn s r (db w)) (key_of r) = reserved_of (db w) (key_of r) - pending_days r"
proof -
  note locked = withdraw_locked[where w = "locked r w" and n = "uuidNext w" and r = r]
  have "w\<lparr>held := held w\<rparr> = w" by simp
  then have same: "locked r w\<lparr>db := d, held := held w\<rparr> = w\<lparr>db := d\<rparr>" for d
    by (simp add: locked_def)
  have days: "available_of (withdrawn s r (db w)) (key_of r) = available_of (db w) (key_of r) + committed_days r"
    "reserved_of (withdrawn s r (db w)) (key_of r) = reserved_of (db w) (key_of r) - pending_days r"
    using r(2) ready_keyed[OF r(1)] ready_reserved[OF r(1)] 
    by (auto simp: withdrawn_def of_change mut_days of_bal committed_days_def pending_days_def)
  have "reject_locked (r_id r) (locked r w) = (Ok (r\<lparr>status := RequestStatus.REJECTED\<rparr>),
      locked r w\<lparr>db := withdrawn RequestStatus.REJECTED r (db w)\<rparr>)"
    using locked(1) readyD[OF r(1)] r(2) by simp
  from with_request_lock_run[where m = "reject_locked (r_id r)", OF r(1) this]
  have rej: "reject E (r_id r) w = (Ok (r\<lparr>status := RequestStatus.REJECTED\<rparr>),
      w\<lparr>db := withdrawn RequestStatus.REJECTED r (db w)\<rparr>)" by (simp add: reject_def same)
  have "cancel_locked E (r_id r) (locked r w) = (Ok (r\<lparr>status := RequestStatus.CANCELLED\<rparr>),
      locked r w\<lparr>db := withdrawn RequestStatus.CANCELLED r (db w)\<rparr>)"
    using locked(2) readyD[OF r(1)] r(2) by simp
  from with_request_lock_run[where m = "cancel_locked E (r_id r)", OF r(1) this]
  have can: "cancel E (r_id r) w = (Ok (r\<lparr>status := RequestStatus.CANCELLED\<rparr>),
      w\<lparr>db := withdrawn RequestStatus.CANCELLED r (db w)\<rparr>)" by (simp add: cancel_def same)
  show ?thesis
    using rej can days withdraw_locked(3)[OF readyD(1-3)[OF r(1)] r(2)] by simp
qed

text \<open>C18: Rejecting, cancelling and expiring a request that HCM has not acknowledged (PENDING or PENDING_SYNC) do the same up to the final status: the reservation is released or the deducted days are given back, and a queued FILE row is voided.\<close>

theorem withdrawal_undoes_the_request:
  assumes r: "ready E r w" "status r = RequestStatus.PENDING \<or> status r = RequestStatus.PENDING_SYNC"
  shows "reject E (r_id r) w =
       (Ok (r\<lparr>status := RequestStatus.REJECTED\<rparr>), w\<lparr>db := withdrawn RequestStatus.REJECTED r (db w)\<rparr>)
    \<and> cancel E (r_id r) w =
       (Ok (r\<lparr>status := RequestStatus.CANCELLED\<rparr>), w\<lparr>db := withdrawn RequestStatus.CANCELLED r (db w)\<rparr>)
    \<and> expire (r_id r) w =
       (Ok (r\<lparr>status := RequestStatus.EXPIRED\<rparr>), w\<lparr>db := withdrawn RequestStatus.EXPIRED r (db w)\<rparr>)
    \<and> available_of (withdrawn s r (db w)) (key_of r) = available_of (db w) (key_of r) + committed_days r
    \<and> reserved_of (withdrawn s r (db w)) (key_of r) = reserved_of (db w) (key_of r) - pending_days r"
  by (rule withdrawal_outcome[OF assms])

lemma withdrawal_undoes_the_request_witness:
  "fst (reject (fake_env True) (numbered 1) (demo_world RequestStatus.PENDING_SYNC False 10))
     = Ok ((demo_request RequestStatus.PENDING_SYNC)\<lparr>status := RequestStatus.REJECTED\<rparr>)
   \<and> reserved_of (withdrawn RequestStatus.EXPIRED (demo_request RequestStatus.PENDING) (demo_db RequestStatus.PENDING))
       (''emp1'', ''loc1'') = 0"
proof -
  have 1: "ready (fake_env True) (demo_request RequestStatus.PENDING_SYNC) (demo_world RequestStatus.PENDING_SYNC False 10)"
    and 2: "ready (fake_env True) (demo_request RequestStatus.PENDING) (demo_world RequestStatus.PENDING False 10)"
    by (rule demo_ready; simp)+
  show ?thesis
    using withdrawal_undoes_the_request[OF 1] withdrawal_undoes_the_request[OF 2]
    by (simp add: demo_request_simps demo_days pending_days_def)
qed

text \<open>Cancelling an APPROVED request gives its days back, marks it CANCELLED and queues one REVERSE row; reserved days and other balances do not change.\<close>

lemma cancel_of_approved_queues_reverse:
  assumes r: "ready E r w" "inj (uuid E)" "status r = RequestStatus.APPROVED"
  shows "cancel E (r_id r) w = (Ok (r\<lparr>status := RequestStatus.CANCELLED\<rparr>), w\<lparr>uuidNext := Suc (uuidNext w),
      db := settled r (\<lambda>b. b\<lparr>available := available b + days r\<rparr>) (r\<lparr>status := RequestStatus.CANCELLED\<rparr>)
        [queued E REVERSE r w] (db w)\<rparr>)"
proof -
  have "cancel_locked E (r_id r) (locked r w) =
     (Ok (r\<lparr>status := RequestStatus.CANCELLED\<rparr>),
      locked r w\<lparr>uuidNext := Suc (uuidNext w),
        db := set_request (r\<lparr>status := RequestStatus.CANCELLED\<rparr>) (set_outbox (queued E REVERSE r w)
                (change_balance (mut_restore (days r)) (key_of r) (db w)))\<rparr>)"
    using cancel_locked_approved[where w = "locked r w" and n = "uuidNext w" and r = r and E = E]
      readyD[OF r(1)] r(3) by simp
  moreover have "set_request (r\<lparr>status := RequestStatus.CANCELLED\<rparr>) (set_outbox (queued E REVERSE r w)
      (change_balance (mut_restore (days r)) (key_of r) (db w)))
      = settled r (\<lambda>b. b\<lparr>available := available b + days r\<rparr>) (r\<lparr>status := RequestStatus.CANCELLED\<rparr>) [queued E REVERSE r w] (db w)"
    by (rule settled_eq(2)[OF r(1) _ _ _ r(2)]) (simp_all add: mut_restore_def)
  ultimately show ?thesis
    using with_request_lock_run[where m = "cancel_locked E (r_id r)", OF r(1)] by (simp add: cancel_def locked_back)
qed

text \<open>Cancelling a CANCELLED request answers it again and changes nothing.\<close>

lemma cancel_is_idempotent:
  assumes r: "ready E r w" "status r = RequestStatus.CANCELLED"
  shows "cancel E (r_id r) w = (Ok r, w)"
proof -
  have "cancel_locked E (r_id r) (locked r w) = (Ok r, locked r w)"
    by (rule cancel_locked_again[where n = "uuidNext w"]) (use readyD[OF r(1)] r(2) in simp_all)
  from with_request_lock_run[where m = "cancel_locked E (r_id r)", OF r(1) this]
  show ?thesis by (simp add: cancel_def locked_def)
qed

section \<open>Submission\<close>

text \<open>A call for an employee and location: warm balance \<open>b\<close>, free lock.\<close>

definition open_for :: "string \<Rightarrow> string \<Rightarrow> balance \<Rightarrow> 'h world \<Rightarrow> bool" where
  "open_for e l b w = (balances (db w) (e, l) = Some b \<and> lastHcmAsOf b \<noteq> None
     \<and> balanceKey e l \<notin> set (held w))"

lemma submit_run:
  assumes w: "open_for e l b w"
    and m: "submit_locked E e l startD endD key (w\<lparr>held := balanceKey e l # held w\<rparr>) = (x, w')"
      "x \<noteq> Hang" "held w' = balanceKey e l # held w"
  shows "submit E e l startD endD key w = (x, w'\<lparr>held := held w\<rparr>)"
proof -
  have "runExclusive (balanceKey e l) (submit_locked E e l startD endD key) w = (x, w'\<lparr>held := held w\<rparr>)"
    by (rule runExclusive_free) (use w m in \<open>simp_all add: open_for_def\<close>)
  then show ?thesis
    using getBalance_warm[of w e l b E] w by (simp add: submit_def open_for_def andThen_def)
qed

lemma submit_outcome:
  assumes f: "faults w = []" and inv: "db_inv E (uuidNext w) (db w)" and inj: "inj (uuid E)"
    and w: "open_for e l b w" "n \<le> available b - reserved b"
    and fresh: "\<forall>r \<in> set (requests (db w)). idempotencyKey r \<noteq> key \<and> \<not> overlaps e l startD endD r"
    and n: "countBusinessDays startD endD {} = Inr n" "n \<noteq> 0"
    and past: "\<not> str_less endD (civil_date_string (clock w))"
  shows "submit E e l startD endD key w = (Ok (submitted E e l startD endD key n w),
       w\<lparr>uuidNext := Suc (Suc (uuidNext w)),
         db := change_balance (mut_reserve n) (e, l) (set_request (submitted E e l startD endD key n w) (db w))\<rparr>)"
    and "requests (set_request (submitted E e l startD endD key n w) (db w)) = requests (db w) @ [submitted E e l startD endD key n w]"
    and "balances (change_balance (mut_reserve n) (e, l) (set_request (submitted E e l startD endD key n w) (db w)))
       = (balances (db w))((e, l) \<mapsto> b\<lparr>reserved := reserved b + n\<rparr>)"
proof -
  let ?w = "w\<lparr>held := balanceKey e l # held w\<rparr>" and ?r = "submitted E e l startD endD key n w"
  have b: "balances (db w) (e, l) = Some b" "lastHcmAsOf b \<noteq> None" using w by (simp_all add: open_for_def)
  have "submit_locked E e l startD endD key ?w =
     (Ok (submitted E e l startD endD key n ?w),
      ?w\<lparr>uuidNext := Suc (Suc (uuidNext ?w)),
        db := change_balance (mut_reserve n) (e, l)
                (set_request (submitted E e l startD endD key n ?w) (db ?w))\<rparr>)"
    by (rule submit_locked_ok[where b = b])
      (use f inv inj n past b w(2) fresh in \<open>simp_all add: no_such_key_def find_None_all\<close>)
  from submit_run[OF w(1) this]
  show "submit E e l startD endD key w = (Ok ?r, (w\<lparr>uuidNext := Suc (Suc (uuidNext w)),
       db := change_balance (mut_reserve n) (e, l) (set_request ?r (db w))\<rparr>))"
    by (simp add: submitted_def)
  have "r_id ?r \<notin> r_id ` set (requests (db w))"
    unfolding image_iff using fresh_next[OF inj inv] by (simp add: submitted_def) metis
  then show "requests (set_request ?r (db w)) = requests (db w) @ [?r]"
    by (simp add: set_request_def upsert_new)
  have keyed: "balances_keyed (set_request ?r (db w))" using db_invD(1)[OF inv] by simp
  show "balances (change_balance (mut_reserve n) (e, l) (set_request ?r (db w)))
      = (balances (db w))((e, l) \<mapsto> b\<lparr>reserved := reserved b + n\<rparr>)"
    using b(1) by (simp add: balances_change[OF keyed] bal_def mut_reserve_def)
qed

lemma submitted_simps:
  "same_body (submitted E e l startD endD key n w) e l startD endD" "days (submitted E e l startD endD key n w) = n"
  "status (submitted E e l startD endD key n w) = RequestStatus.PENDING"
  "idempotencyKey (submitted E e l startD endD key n w) = key"
  "expiresAt (submitted E e l startD endD key n w) = clock w + ttlMs E"
  "key_of (submitted E e l startD endD key n w) = (e, l)"
  by (simp_all add: submitted_def new_request_def same_body_def key_of_def)

text \<open>C15: A submission with a new key, no overlap, at least one business day, an end not past and enough free days stores one PENDING request with its business days and expiry, and reserves exactly these days.\<close>

theorem submit_reserves_days:
  assumes f: "faults w = []" and inv: "db_inv E (uuidNext w) (db w)" and inj: "inj (uuid E)"
    and w: "open_for e l b w" "n \<le> available b - reserved b"
    and fresh: "\<forall>r \<in> set (requests (db w)). idempotencyKey r \<noteq> key \<and> \<not> overlaps e l startD endD r"
    and n: "countBusinessDays startD endD {} = Inr n" "n \<noteq> 0"
    and past: "\<not> str_less endD (civil_date_string (clock w))"
  shows "\<exists>r w'. submit E e l startD endD key w = (Ok r, w') \<and> same_body r e l startD endD
    \<and> days r = n \<and> status r = RequestStatus.PENDING \<and> idempotencyKey r = key
    \<and> expiresAt r = clock w + ttlMs E
    \<and> requests (db w') = requests (db w) @ [r] \<and> outbox (db w') = outbox (db w)
    \<and> balances (db w') = (balances (db w))((e, l) \<mapsto> b\<lparr>reserved := reserved b + n\<rparr>) \<and> held w' = held w"
  using submit_outcome[OF assms] submitted_simps[of E e l startD endD key n w] by simp

lemma submit_reserves_days_witness:
  "\<exists>r w'. submit (fake_env True) ''emp1'' ''loc1'' ''2026-06-01'' ''2026-06-02'' ''key-1'' demo_warm = (Ok r, w')
     \<and> days r = 2 \<and> requests (db w') = [r] \<and> balances (db w') (''emp1'', ''loc1'') = Some (demo_balance 10 2)"
proof -
  have inv: "db_inv (fake_env True) (uuidNext demo_warm) (db demo_warm)"
    using reachable_inv[OF demo_reachable_warm demo_inj] by (simp add: world_inv_def)
  have b: "balances (db demo_warm) (''emp1'', ''loc1'') = Some (demo_balance 10 0)"
    and none: "requests (db demo_warm) = []"
    by (simp_all add: demo_warm_db fake_world_def empty_db_def demo_balance_def pk_of_def)
  then have "open_for ''emp1'' ''loc1'' (demo_balance 10 0) demo_warm"
    by (simp add: open_for_def demo_warm_world demo_balance_def)
  from submit_reserves_days[OF demo_warm_world(2) inv demo_inj this _ _ demo_count, of "''key-1''"]
  show ?thesis by (auto simp: none demo_not_past demo_warm_world demo_balance_def)
qed

lemma reserved_nonneg: "db_inv E n d \<Longrightarrow> 0 \<le> reserved_of d k"
  using pending_sum_nonneg[of E n d k] db_invD(5)[of E n d k] by simp

text \<open>C20: Submitting a request and cancelling it again is a round trip: all balances, the outbox and the locks are as before, and what remains is one CANCELLED request.\<close>

theorem cancel_undoes_submit:
  assumes f: "faults w = []" and inv: "db_inv E (uuidNext w) (db w)" and inj: "inj (uuid E)"
    and w: "open_for e l b w" "n \<le> available b - reserved b"
    and fresh: "\<forall>r \<in> set (requests (db w)). idempotencyKey r \<noteq> key \<and> \<not> overlaps e l startD endD r"
    and n: "countBusinessDays startD endD {} = Inr n" "n \<noteq> 0"
    and past: "\<not> str_less endD (civil_date_string (clock w))"
  shows "\<exists>r w1 w2. submit E e l startD endD key w = (Ok r, w1)
    \<and> cancel E (r_id r) w1 = (Ok (r\<lparr>status := RequestStatus.CANCELLED\<rparr>), w2)
    \<and> balances (db w2) = balances (db w) \<and> outbox (db w2) = outbox (db w) \<and> held w2 = held w
    \<and> requests (db w2) = requests (db w) @ [r\<lparr>status := RequestStatus.CANCELLED\<rparr>]"
proof -
  let ?r = "submitted E e l startD endD key n w" and ?c = "RequestStatus.CANCELLED"
  let ?d = "change_balance (mut_reserve n) (e, l) (set_request ?r (db w))"
  let ?w = "w\<lparr>uuidNext := Suc (Suc (uuidNext w)), db := ?d\<rparr>"
  note sub = submit_outcome[OF assms] and r = submitted_simps[of E e l startD endD key n w]
  have rq: "requests ?d = requests (db w) @ [?r]" using sub(2) by simp
  have "world_inv E w" using f inv by (simp add: world_inv_def sole_writer_def)
  then have "safe E False (db w) (snd (submit E e l startD endD key w))"
    using submit_safe[OF inj, of "db w" e l startD endD key] world_inv_safe[of E w False] by (simp add: preserves_def)
  then have inv1: "db_inv E (uuidNext ?w) (db ?w)" using sub(1) by (simp add: safe_def world_inv_def)
  have re: "r_employeeId ?r = e" "r_locationId ?r = l" using r(6) by (simp_all add: key_of_def)
  have "ready E ?r ?w"
    using f w(1) inv1 rq sub(3) re r(6) by (simp add: ready_def is_warm_def open_for_def)
  note out = withdrawal_outcome[OF this]
  have can: "cancel E (r_id ?r) ?w = (Ok (?r\<lparr>status := ?c\<rparr>), ?w\<lparr>db := withdrawn ?c ?r ?d\<rparr>)"
    using out[of ?c] r(3) by simp
  have old: "r_id y \<noteq> r_id ?r" if "y \<in> set (requests (db w))" for y
    using fresh_next[OF inj inv that] by (simp add: submitted_def)
  have "void_files (r_id ?r) ?d = ?d"
    using void_files_none[OF pending_no_rows[OF inv1, of ?r]] rq r(3) by simp
  then have wd: "withdrawn ?c ?r ?d = set_request (?r\<lparr>status := ?c\<rparr>) (change_balance (mut_release n) (e, l) ?d)"
    using r by (simp add: withdrawn_def)
  have "requests (withdrawn ?c ?r ?d) = requests (db w) @ [?r\<lparr>status := ?c\<rparr>]"
  proof -
    have "requests (withdrawn ?c ?r ?d) = replaced (?r\<lparr>status := ?c\<rparr>) (requests (db w) @ [?r])"
      unfolding wd using rq upsert_replaced[of ?r "requests ?d" "?r\<lparr>status := ?c\<rparr>"] by simp
    then show ?thesis using old by (auto simp: replaced_def intro: map_idI)
  qed
  moreover have "balances (withdrawn ?c ?r ?d) = balances (db w)"
  proof -
    have "0 \<le> reserved b"
      using reserved_nonneg[OF inv, of "(e, l)"] w(1) by (simp add: reserved_of_def open_for_def)
    moreover have "balances_keyed ?d" using db_invD(1)[OF inv1] by simp
    ultimately show ?thesis
      unfolding wd using w(1) sub(3) by (auto simp: balances_change bal_def mut_release_def open_for_def fun_eq_iff)
  qed
  moreover have "outbox (withdrawn ?c ?r ?d) = outbox (db w)" unfolding wd by simp
  ultimately show ?thesis using sub(1) can by auto
qed

lemma cancel_undoes_submit_witness:
  "\<exists>r w1 w2. submit (fake_env True) ''emp1'' ''loc1'' ''2026-06-01'' ''2026-06-02'' ''key-1'' demo_warm = (Ok r, w1)
     \<and> cancel (fake_env True) (r_id r) w1 = (Ok (r\<lparr>status := RequestStatus.CANCELLED\<rparr>), w2)
     \<and> balances (db w2) = balances (db demo_warm)"
proof -
  have inv: "db_inv (fake_env True) (uuidNext demo_warm) (db demo_warm)"
    using reachable_inv[OF demo_reachable_warm demo_inj] by (simp add: world_inv_def)
  have b: "balances (db demo_warm) (''emp1'', ''loc1'') = Some (demo_balance 10 0)"
    and none: "requests (db demo_warm) = []"
    by (simp_all add: demo_warm_db fake_world_def empty_db_def demo_balance_def pk_of_def)
  then have "open_for ''emp1'' ''loc1'' (demo_balance 10 0) demo_warm"
    by (simp add: open_for_def demo_warm_world demo_balance_def)
  from cancel_undoes_submit[OF demo_warm_world(2) inv demo_inj this _ _ demo_count, of "''key-1''"]
  show ?thesis by (simp add: none demo_not_past demo_warm_world demo_balance_def) blast
qed

text \<open>C29: Submitting again under the key of an active request changes nothing: the same body is answered with the stored request, another body is refused.\<close>

theorem submit_again_replays:
  assumes "db_inv E (uuidNext w) (db w)" "r \<in> set (requests (db w))" "status r \<in> ACTIVE_STATUSES"
    and w: "open_for e l b w"
  shows "submit E e l startD endD (idempotencyKey r) w =
     ((if same_body r e l startD endD then Ok r
       else Raise (UnprocessableEntityException Idempotency_body_mismatch)), w)"
proof -
  let ?w = "w\<lparr>held := balanceKey e l # held w\<rparr>"
  have "submit_locked E e l startD endD (idempotencyKey r) ?w =
     ((if same_body r e l startD endD then Ok r
       else Raise (UnprocessableEntityException Idempotency_body_mismatch)), ?w)"
    by (rule submit_locked_replay[where n = "uuidNext w"]) (use assms in simp_all)
  from submit_run[OF w this] show ?thesis by simp
qed

lemma submit_again_replays_witness:
  "submit (fake_env True) ''emp1'' ''loc1'' ''2026-06-01'' ''2026-06-02'' ''key-1'' (demo_world RequestStatus.PENDING True 0)
     = (Ok (demo_request RequestStatus.PENDING), demo_world RequestStatus.PENDING True 0)"
proof -
  have r: "ready (fake_env True) (demo_request RequestStatus.PENDING) (demo_world RequestStatus.PENDING True 0)"
    by (rule demo_ready) simp
  have "open_for ''emp1'' ''loc1'' (demo_balance 10 2) (demo_world RequestStatus.PENDING True 0)"
    by (simp add: open_for_def demo_db_def one_request_db_def demo_balance_def pk_of_def)
  from submit_again_replays[OF readyD(2,3)[OF r] _ this, of "''2026-06-01''" "''2026-06-02''"]
  show ?thesis by (simp add: demo_request_simps same_body_def)
qed

text \<open>A submission under a new key whose dates overlap an active request of the same employee and location is refused and changes nothing.\<close>

lemma submit_refuses_overlap:
  assumes w: "open_for e l b w" and fresh: "\<forall>r \<in> set (requests (db w)). idempotencyKey r \<noteq> key"
    and r: "r \<in> set (requests (db w))" "overlaps e l startD endD r"
  shows "\<exists>i. submit E e l startD endD key w = (Raise (ConflictException (Range_overlaps i)), w)"
proof -
  let ?w = "w\<lparr>held := balanceKey e l # held w\<rparr>"
  obtain s where "List.find (overlaps e l startD endD) (requests (db w)) = Some s"
    using r find_None_all[of "overlaps e l startD endD" "requests (db w)"]
    by (cases "List.find (overlaps e l startD endD) (requests (db w))") auto
  then have "submit_locked E e l startD endD key ?w =
     (Raise (ConflictException (Range_overlaps (r_id s))), ?w)"
    by (intro submit_locked_overlap) (use fresh in \<open>simp_all add: no_such_key_def\<close>)
  from submit_run[OF w this] show ?thesis by auto
qed

text \<open>C36: A valid submission for a balance never read from HCM, made while HCM does not answer and lazy loading is on, never settles, and from then on every read and review of that balance waits for ever.\<close>

theorem cold_submit_never_settles:
  assumes cold: "\<not> is_warm (balances (db w) (e, l))" "balanceLazyLoadEnabled E" "balanceKey e l \<notin> set (held w)"
    and down: "hcm_getBalance E e l (hcm w) = (Inl (HcmUnavailableError op), h)"
    and fresh: "\<forall>r \<in> set (requests (db w)). idempotencyKey r \<noteq> key \<and> \<not> overlaps e l startD endD r"
    and n: "countBusinessDays startD endD {} = Inr n" "n \<noteq> 0"
    and past: "\<not> str_less endD (civil_date_string (clock w))"
  shows "\<exists>w'. submit E e l startD endD key w = (Hang, w') \<and> db w' = db w
    \<and> getBalance E e l w' = (Hang, w') \<and> resolveReview e l w' = (Hang, w')"
proof -
  let ?w = "w\<lparr>hcm := h, held := balanceKey e l # held w\<rparr>"
  have "submit_locked E e l startD endD key ?w = (Hang, ?w)"
    by (rule cold_submit_locked_waits)
      (use cold fresh n past in \<open>simp_all add: no_such_key_def find_None_all\<close>)
  then have "submit E e l startD endD key w = (Hang, ?w)"
    using cold_prewarm_down[OF cold down] cold(3) by (simp add: submit_def andThen_def runExclusive_def)
  then show ?thesis
    using cold_read_waits[of ?w e l E] cold
    by (intro exI[of _ ?w]) (simp add: resolveReview_def runExclusive_held)
qed

lemma cold_submit_never_settles_witness:
  "fst (submit (fake_env True) ''emp1'' ''loc1'' ''2026-06-01'' ''2026-06-02'' ''key-1''
      (fake_world empty_db 0 0 (demo_hcm True 10))) = Hang"
proof -
  let ?w = "fake_world empty_db 0 0 (demo_hcm True 10)"
  have "\<exists>w'. submit (fake_env True) ''emp1'' ''loc1'' ''2026-06-01'' ''2026-06-02'' ''key-1'' ?w = (Hang, w')
      \<and> db w' = db ?w \<and> getBalance (fake_env True) ''emp1'' ''loc1'' w' = (Hang, w')
      \<and> resolveReview ''emp1'' ''loc1'' w' = (Hang, w')"
    by (rule cold_submit_never_settles[OF _ _ _ _ _ demo_count])
      (simp_all add: fake_world_def empty_db_def is_warm_def demo_not_past,
        simp_all add: fake_env_def demo_hcm_down[unfolded fake_env_def, simplified])
  then show ?thesis by auto
qed
section \<open>Dates\<close>

text \<open>For real calendar dates the string comparisons of the overlap check decide whether the two ranges have a day in common.\<close>

lemma overlap_check_is_calendar_overlap:
  assumes "civil_valid a" "four_digit_year a" "civil_valid b" "four_digit_year b" "a \<le> b"
    and "civil_valid c" "four_digit_year c" "civil_valid d" "four_digit_year d" "c \<le> d"
    and "startDate r = iso_date c" "endDate r = iso_date d"
  shows "overlaps e l (iso_date a) (iso_date b) r \<longleftrightarrow>
    r_employeeId r = e \<and> r_locationId r = l \<and> status r \<in> ACTIVE_STATUSES
    \<and> {day_of_civil a..day_of_civil b} \<inter> {day_of_civil c..day_of_civil d} \<noteq> {}"
proof -
  have le: "str_le (iso_date x) (iso_date y) \<longleftrightarrow> day_of_civil x \<le> day_of_civil y"
    if "civil_valid x" "four_digit_year x" "civil_valid y" "four_digit_year y" for x y
    using that iso_date_less_iff[of y x] day_of_civil_less_iff[of y x] by (auto simp: str_le_def)
  have "day_of_civil a \<le> day_of_civil b" "day_of_civil c \<le> day_of_civil d"
    using assms by (simp_all add: iso_date_day)
  then have "{day_of_civil a..day_of_civil b} \<inter> {day_of_civil c..day_of_civil d} \<noteq> {} \<longleftrightarrow>
      day_of_civil c \<le> day_of_civil b \<and> day_of_civil a \<le> day_of_civil d"
    by simp
  then show ?thesis
    using assms le by (simp add: overlaps_def terminal_not_active)
qed

text \<open>C30: A key whose request has reached a terminal status can be used again: the submission
  stores a new PENDING request under the key and reserves its days, and the old request stays as it
  was under a key of its own.\<close>

theorem terminal_key_is_reusable:
  assumes f: "faults w = []" and inv: "db_inv E (uuidNext w) (db w)" and inj: "inj (uuid E)"
    and w: "open_for e l b w" "n \<le> available b - reserved b"
    and old: "old \<in> set (requests (db w))" "status old \<in> TERMINAL_STATUSES"
      "\<forall>r \<in> set (requests (db w)). idempotencyKey r \<noteq> terminal_key old \<and> \<not> overlaps e l startD endD r"
    and n: "countBusinessDays startD endD {} = Inr n" "n \<noteq> 0"
    and past: "\<not> str_less endD (civil_date_string (clock w))"
  shows "\<exists>r w'. submit E e l startD endD (idempotencyKey old) w = (Ok r, w') \<and> same_body r e l startD endD
    \<and> days r = n \<and> status r = RequestStatus.PENDING \<and> idempotencyKey r = idempotencyKey old
    \<and> requests (db w') = update_where (\<lambda>x. r_id x = r_id old)
        (\<lambda>x. x\<lparr>idempotencyKey := terminal_key old\<rparr>) (requests (db w)) @ [r]
    \<and> outbox (db w') = outbox (db w)
    \<and> balances (db w') = (balances (db w))((e, l) \<mapsto> b\<lparr>reserved := reserved b + n\<rparr>)"
proof -
  let ?w = "w\<lparr>held := balanceKey e l # held w\<rparr>" and ?d = "rename_key old (db w)"
  let ?r = "submitted E e l startD endD (idempotencyKey old) n w"
  have b: "balances (db w) (e, l) = Some b" "lastHcmAsOf b \<noteq> None" using w by (simp_all add: open_for_def)
  have new: "db_inv E (uuidNext w) ?d"
    using freed_inv[OF inv, of "Some old"] old by (simp add: key_freed_def freed_def no_such_key_def)
  have "submit_locked E e l startD endD (idempotencyKey old) ?w =
     (Ok (submitted E e l startD endD (idempotencyKey old) n ?w),
      ?w\<lparr>uuidNext := Suc (Suc (uuidNext ?w)),
        db := change_balance (mut_reserve n) (e, l)
                (set_request (submitted E e l startD endD (idempotencyKey old) n ?w) (rename_key old (db ?w)))\<rparr>)"
    by (rule submit_locked_terminal[where b = b])
      (use f inv inj n past b w(2) old in \<open>simp_all add: no_such_key_def find_None_all\<close>)
  from submit_run[OF w(1) this]
  have run: "submit E e l startD endD (idempotencyKey old) w = (Ok ?r, w\<lparr>uuidNext := Suc (Suc (uuidNext w)),
       db := change_balance (mut_reserve n) (e, l) (set_request ?r ?d)\<rparr>)"
    by (simp add: submitted_def)
  have "r_id ?r \<notin> r_id ` set (requests ?d)"
    unfolding image_iff using fresh_next[OF inj new] by (simp add: submitted_def) metis
  then have rq: "requests (set_request ?r ?d) = requests ?d @ [?r]"
    by (simp add: set_request_def upsert_new)
  have "balances_keyed (set_request ?r ?d)" using db_invD(1)[OF new] by simp
  then have "balances (change_balance (mut_reserve n) (e, l) (set_request ?r ?d))
      = (balances (db w))((e, l) \<mapsto> b\<lparr>reserved := reserved b + n\<rparr>)"
    using b(1) by (simp add: balances_change bal_def mut_reserve_def rename_key_def)
  then show ?thesis
    using run rq submitted_simps[of E e l startD endD "idempotencyKey old" n w] by (simp add: rename_key_def)
qed

lemma terminal_key_is_reusable_witness:
  "\<exists>r w'. submit (fake_env True) ''emp1'' ''loc1'' ''2026-06-01'' ''2026-06-02'' ''key-1''
       (demo_world RequestStatus.CANCELLED True 0) = (Ok r, w')
     \<and> days r = 2 \<and> idempotencyKey r = ''key-1''
     \<and> requests (db w') = [(demo_request RequestStatus.CANCELLED)\<lparr>idempotencyKey := ''key-1:terminal:'' @ numbered 1\<rparr>, r]"
proof -
  let ?w = "demo_world RequestStatus.CANCELLED True 0" and ?o = "demo_request RequestStatus.CANCELLED"
  have inv: "db_inv (fake_env True) (uuidNext ?w) (db ?w)"
    using demo_world_inv[of RequestStatus.CANCELLED] by (simp add: world_inv_def)
  have rq: "requests (demo_db RequestStatus.CANCELLED) = [?o]" by (simp add: demo_db_def one_request_db_def)
  have o: "status ?o = RequestStatus.CANCELLED" "idempotencyKey ?o = ''key-1''" "r_id ?o = numbered 1"
    by (simp_all add: demo_request_simps)
  have "open_for ''emp1'' ''loc1'' (demo_balance 10 0) ?w"
    by (simp add: open_for_def demo_db_def one_request_db_def demo_balance_def pk_of_def)
  from terminal_key_is_reusable[OF _ inv demo_inj this _ _ _ _ demo_count, of ?o]
  show ?thesis
    by (auto simp: rq o demo_not_past demo_balance_def overlaps_def terminal_not_active terminal_key_def)
qed

end
