(* ===== verification/Actor_Properties.thy ===== *)
theory Actor_Properties
  imports Request_Properties
begin

text \<open>
  What the scheduled and external actors achieve when the database does not fail: the reaper's
  sweep, one dispatch and repeated ticks of the outbox dispatcher, the ingestion of HCM batches, and
  the optimistic-lock retry and the reservation guard that all of them go through.
\<close>

section \<open>The sweep\<close>

definition lapsed :: "int \<Rightarrow> request \<Rightarrow> request" where
  "lapsed t x = (if sweepable t x then x\<lparr>status := RequestStatus.EXPIRED\<rparr> else x)"

lemma expire_one_run:
  assumes f: "faults w = []" "held w = []" and wi: "world_inv E w" and r: "r \<in> set (requests (db w))"
    "status r \<in> {RequestStatus.PENDING, RequestStatus.PENDING_SYNC}"
  obtains d where "expire_one r w = (Ok (), w\<lparr>db := d\<rparr>)" "world_inv E (w\<lparr>db := d\<rparr>)"
    "requests d = replaced (r\<lparr>status := RequestStatus.EXPIRED\<rparr>) (requests (db w))"
proof -
  let ?d = "withdrawn RequestStatus.EXPIRED r (db w)"
  have inv: "db_inv E (uuidNext w) (db w)" using wi by (simp add: world_inv_def)
  have ex: "expire (r_id r) w' = (Ok (r\<lparr>status := RequestStatus.EXPIRED\<rparr>), w'\<lparr>db := ?d\<rparr>)"
    if "db w' = db w" "faults w' = []" for w' :: "'a world"
    using withdraw_locked(3)[of w' E "uuidNext w" r] inv r that by auto
  have w: "w\<lparr>db := d, held := []\<rparr> = w\<lparr>db := d\<rparr>" for d using f(2) by simp
  have "expire_one r w = (Ok (), w\<lparr>db := ?d\<rparr>)"
    using ex[of "w\<lparr>held := [balanceKey (r_employeeId r) (r_locationId r)]\<rparr>"] f w
    by (simp add: expire_one_def runExclusive_def try_catch_def andThen_def return_apply)
  moreover have "world_inv E (snd (expire (r_id r) w))"
    using snd_spec[OF spec_expire[OF world_inv_safe[OF wi]]] by (simp add: safe_def)
  then have "world_inv E (w\<lparr>db := ?d\<rparr>)" using ex[of w] f(1) by simp
  moreover have "requests ?d = replaced (r\<lparr>status := RequestStatus.EXPIRED\<rparr>) (requests (db w))"
    using r(1) by (simp add: withdrawn_def upsert_replaced)
  ultimately show ?thesis using that by blast
qed

lemma expire_all_run:
  assumes "faults w = []" "held w = []" "world_inv E w" "distinct (map r_id rs)"
    "\<forall>r \<in> set rs. r \<in> set (requests (db w)) \<and> status r \<in> {RequestStatus.PENDING, RequestStatus.PENDING_SYNC}"
  shows "\<exists>d. for_each expire_one rs w = (Ok (), w\<lparr>db := d\<rparr>) \<and> world_inv E (w\<lparr>db := d\<rparr>)
    \<and> requests d = map (\<lambda>x. if r_id x \<in> r_id ` set rs then x\<lparr>status := RequestStatus.EXPIRED\<rparr> else x) (requests (db w))"
  using assms
proof (induction rs arbitrary: w)
  case Nil
  then show ?case by (intro exI[of _ "db w"]) (simp add: return_apply)
next
  case (Cons r rs)
  obtain d where d: "expire_one r w = (Ok (), w\<lparr>db := d\<rparr>)" "world_inv E (w\<lparr>db := d\<rparr>)"
    "requests d = replaced (r\<lparr>status := RequestStatus.EXPIRED\<rparr>) (requests (db w))"
    by (rule expire_one_run[OF Cons.prems(1-3)]) (use Cons.prems(5) in auto)
  have ids: "distinct (map r_id (requests (db w)))"
    using db_invD(2) Cons.prems(3) by (auto simp: world_inv_def keys_distinct_def)
  have rest: "x \<in> set (requests d)" if "x \<in> set rs" for x
  proof -
    have "r_id x \<noteq> r_id r" using Cons.prems(4) imageI[OF that, of r_id] by auto
    then show ?thesis using Cons.prems(5) that unfolding d(3) replaced_def by force
  qed
  obtain d' where d': "for_each expire_one rs (w\<lparr>db := d\<rparr>) = (Ok (), w\<lparr>db := d'\<rparr>)" "world_inv E (w\<lparr>db := d'\<rparr>)"
    "requests d' = map (\<lambda>x. if r_id x \<in> r_id ` set rs then x\<lparr>status := RequestStatus.EXPIRED\<rparr> else x) (requests d)"
    using Cons.IH[of "w\<lparr>db := d\<rparr>"] Cons.prems d(2) rest by auto
  have "x = r" if "x \<in> set (requests (db w))" "r_id x = r_id r" for x
    using key_unique[OF ids that(1) _ that(2)] Cons.prems(5) by simp
  then have "requests d' = map (\<lambda>x. if r_id x \<in> r_id ` set (r # rs) then x\<lparr>status := RequestStatus.EXPIRED\<rparr> else x)
      (requests (db w))"
    unfolding d'(3) d(3) replaced_def by auto
  with d(1) d'(1,2) show ?case by (intro exI[of _ d']) (simp add: andThen_def)
qed

text \<open>A sweep of the reaper expires exactly the PENDING and PENDING_SYNC requests whose time to live has passed, leaves all others as they are, and afterwards no such request is left.\<close>

lemma sweep_expires_exactly_the_lapsed:
  assumes "faults w = []" "held w = []" "world_inv E w"
  shows "\<exists>d. sweep w = (Ok (), w\<lparr>db := d\<rparr>) \<and> requests d = map (lapsed (clock w)) (requests (db w))
    \<and> (\<forall>r \<in> set (requests d). \<not> sweepable (clock w) r)"
proof -
  let ?rs = "filter (sweepable (clock w)) (requests (db w))"
  have ids: "distinct (map r_id (requests (db w)))"
    using db_invD(2) assms(3) by (auto simp: world_inv_def keys_distinct_def)
  then have "distinct (map r_id ?rs)" by (rule distinct_map_filter)
  moreover have "\<forall>r \<in> set ?rs. r \<in> set (requests (db w)) \<and> status r \<in> {RequestStatus.PENDING, RequestStatus.PENDING_SYNC}"
    by (simp add: sweepable_def)
  ultimately obtain d where d: "for_each expire_one ?rs w = (Ok (), w\<lparr>db := d\<rparr>)"
    "requests d = map (\<lambda>x. if r_id x \<in> r_id ` set ?rs then x\<lparr>status := RequestStatus.EXPIRED\<rparr> else x) (requests (db w))"
    using expire_all_run[OF assms, of ?rs] by blast
  have "r_id x \<in> r_id ` set ?rs \<longleftrightarrow> sweepable (clock w) x" if x: "x \<in> set (requests (db w))" for x
  proof
    assume "r_id x \<in> r_id ` set ?rs"
    then obtain y where "y \<in> set (requests (db w))" "sweepable (clock w) y" "r_id x = r_id y" by auto
    then show "sweepable (clock w) x" using key_unique[OF ids x] by metis
  qed (use x in auto)
  then have rs: "requests d = map (lapsed (clock w)) (requests (db w))"
    unfolding d(2) lapsed_def by (intro map_cong) auto
  moreover have "\<forall>r \<in> set (requests d). \<not> sweepable (clock w) r"
    unfolding rs by (auto simp: lapsed_def sweepable_def)
  ultimately show ?thesis
    using d(1) by (intro exI[of _ d]) (simp add: sweep_def andThen_def now_apply query_apply)
qed

text \<open>What the dispatcher makes of the client's answer: any exception is a refusal.\<close>

definition verdict :: "int \<Rightarrow> exception + hcm_result \<Rightarrow> js_date option" where
  "verdict t answer = (case answer of
      Inl _ \<Rightarrow> None
    | Inr v \<Rightarrow> if ok v then Some (ack_time t (ackedAt v)) else None)"

lemma hcm_attempt_verdict:
  assumes "hcm_write E x (hcm w) = (answer, h)"
  shows "hcm_attempt E (attempted x) w = (Ok (verdict (clock w) answer), w\<lparr>hcm := h\<rparr>)"
  using assms
  by (cases answer; cases "operation x") (simp_all add: hcm_attempt_def try_catch_def andThen_def call_hcm_def hcm_write_def verdict_def
      now_apply return_apply)

lemma find_row_of:
  assumes "db_inv E n d" "x \<in> set (outbox d)"
  shows "List.find (\<lambda>y. o_id y = o_id x) (outbox d) = Some x"
  using find_key_eq[of o_id "outbox d" x] db_inv_outbox_ids(1)[OF assms(1)] assms(2) by simp

lemma dispatchOne_pending:
  assumes inv: "db_inv E n (db w)" and x: "x \<in> set (outbox (db w))" "o_status x = OutboxStatus.PENDING"
    and r: "r \<in> set (requests (db w))" "aggregateId x = r_id r"
  shows "dispatchOne E (o_id x) w =
    runExclusive (balanceKey (r_employeeId r) (r_locationId r)) (dispatch_locked E (o_id x)) w"
  using x(2) find_row_of[OF inv x(1)] findRequest_of[OF inv r(1)] r(2)
  by (simp add: dispatchOne_def findOutbox_def andThen_query andThen_def[of "findRequest _"])

lemma dispatchOne_verdict:
  assumes f: "faults w = []" and inv: "db_inv E (uuidNext w) (db w)" and x: "x \<in> set (outbox (db w))"
    "o_status x = OutboxStatus.PENDING" and r: "r \<in> set (requests (db w))" "aggregateId x = r_id r"
    and free: "balanceKey (r_employeeId r) (r_locationId r) \<notin> set (held w)"
    and a: "hcm_write E x (hcm w) = (answer, h)"
  shows "dispatchOne E (o_id x) w =
     (Ok (), w\<lparr>hcm := h,
       uuidNext := uuidNext w + (if gives_up E x (verdict (clock w) answer) then 1 else 0),
       db := dispatched E x r (verdict (clock w) answer) w\<rparr>)"
proof -
  let ?w = "locked r w"
  have "dispatch_locked E (o_id x) ?w =
     (Ok (), ?w\<lparr>hcm := h, uuidNext := uuidNext ?w + (if gives_up E x (verdict (clock w) answer) then 1 else 0),
              db := dispatched E x r (verdict (clock w) answer) ?w\<rparr>)"
    using hcm_attempt_verdict[of E x ?w answer h] a
    by (intro dispatch_locked_ok[where n = "uuidNext w"]) (simp_all add: f inv x r)
  moreover have "dispatched E x r outcome ?w = dispatched E x r outcome w" for outcome
    by (simp add: dispatched_def split: option.split)
  ultimately show ?thesis
    unfolding dispatchOne_pending[OF inv x r]
    using runExclusive_free[OF free, of "dispatch_locked E (o_id x)"] by (simp add: locked_def)
qed

text \<open>C12: The three phases of a dispatch add up to one update determined by HCM's verdict: a confirmed FILE approves the request and marks the row SENT, a refusal below the cap counts the attempt, a FILE refused at the cap gives the days back, rejects the request and queues a REVERSE row.\<close>

theorem dispatch_records_verdict:
  assumes f: "faults w = []" and inv: "db_inv E (uuidNext w) (db w)" and x: "x \<in> set (outbox (db w))"
    "o_status x = OutboxStatus.PENDING" and r: "r \<in> set (requests (db w))" "aggregateId x = r_id r"
    and free: "balanceKey (r_employeeId r) (r_locationId r) \<notin> set (held w)"
    and a: "hcm_write E x (hcm w) = (answer, h)"
  shows "dispatchOne E (o_id x) w =
     (Ok (), w\<lparr>hcm := h,
       uuidNext := uuidNext w + (if gives_up E x (verdict (clock w) answer) then 1 else 0),
       db := dispatched E x r (verdict (clock w) answer) w\<rparr>)"
  by (rule dispatchOne_verdict[OF assms])

lemma dispatch_records_verdict_witness:
  "dispatchOne (fake_env True) (numbered 2) (demo_world RequestStatus.PENDING_SYNC True 10) =
     (Ok (), (demo_world RequestStatus.PENDING_SYNC True 10)
        \<lparr>hcm := count_file (demo_hcm True 10), uuidNext := 4,
         db := set_outbox (attempted (demo_file OutboxStatus.PENDING)) (demo_db RequestStatus.PENDING_SYNC)\<rparr>)"
proof -
  let ?w = "demo_world RequestStatus.PENDING_SYNC True 10" and ?x = "demo_file OutboxStatus.PENDING"
  have r: "ready (fake_env True) (demo_request RequestStatus.PENDING_SYNC) ?w" by (rule demo_ready) simp
  have x: "?x \<in> set (outbox (db ?w))" by (simp add: demo_db_def one_request_db_def)
  have a: "hcm_write (fake_env True) ?x (hcm ?w) = (Inr (refused ''unreachable''), count_file (demo_hcm True 10))"
    by (simp add: hcm_write_def demo_shape fake_env_def fake_fileTimeOff_def fake_file_def demo_hcm_def Let_def)
  have few: "attempts ?x + 1 < hcmRetryMaxAttempts (fake_env True)"
    by (simp add: demo_file_def buildOutboxRow_def fake_env_def)
  show ?thesis
    using dispatch_records_verdict[OF readyD(1,2)[OF r] x _ readyD(3)[OF r] _ readyD(4)[OF r] a] few
    by (simp add: demo_shape demo_request_simps verdict_def refused_def dispatched_def gives_up_def)
qed

section \<open>Ticks of the dispatcher\<close>

text \<open>A quiet world: no failing saves, no lock held, the invariant.\<close>

definition quiet :: "'h env \<Rightarrow> 'h world \<Rightarrow> bool" where
  "quiet E w = (faults w = [] \<and> held w = [] \<and> world_inv E w)"

lemma quiet_dispatch_pending:
  assumes q: "quiet E w" and inj: "inj (uuid E)" and x: "x \<in> set (outbox (db w))" "o_status x = OutboxStatus.PENDING"
  obtains w' x' where "dispatchOne E (o_id x) w = (Ok (), w')" "quiet E w'"
    "x' \<in> set (outbox (db w'))" "o_id x' = o_id x"
    "o_status x' \<noteq> OutboxStatus.PENDING \<or>
       attempts x' = attempts x + 1 \<and> attempts x' < hcmRetryMaxAttempts E"
proof -
  have inv: "db_inv E (uuidNext w) (db w)" using q by (simp add: quiet_def world_inv_def)
  obtain r where r: "r \<in> set (requests (db w))" "r_id r = aggregateId x"
    by (rule row_has_request[OF inv x(1)])
  let ?w = "locked r w"
  have wl: "faults ?w = []" "world_inv E ?w" "x \<in> set (outbox (db ?w))"
    using q x by (simp_all add: quiet_def world_inv_def locked_def)
  obtain w1 x1 where one: "dispatch_locked E (o_id x) ?w = (Ok (), w1)" "faults w1 = []" "world_inv E w1"
    "x1 \<in> set (outbox (db w1))" "o_id x1 = o_id x"
    "o_status x1 \<noteq> OutboxStatus.PENDING \<or>
       attempts x1 = attempts x + 1 \<and> attempts x1 < hcmRetryMaxAttempts E"
    by (rule dispatch_once[OF wl(1,2) inj wl(3) x(2)])
  obtain oc h where "hcm_attempt E (attempted x) ?w = (Ok oc, ?w\<lparr>hcm := h\<rparr>)"
    using hcm_attempt_returns[of E "attempted x" ?w] by blast
  then have "held w1 = held ?w"
    using dispatch_locked_ok[OF wl(1), of E "uuidNext w" x r oc h] inv x r one(1) by simp
  then have "runExclusive (balanceKey (r_employeeId r) (r_locationId r)) (dispatch_locked E (o_id x)) w
      = (Ok (), w1\<lparr>held := []\<rparr>)"
    using one(1) q by (simp add: runExclusive_def locked_def quiet_def)
  then have "dispatchOne E (o_id x) w = (Ok (), w1\<lparr>held := []\<rparr>)"
    using dispatchOne_pending[OF inv x r(1) r(2)[symmetric]] by simp
  moreover have "quiet E (w1\<lparr>held := []\<rparr>)" using one(2,3) by (simp add: quiet_def world_inv_def)
  ultimately show ?thesis by (rule that[OF _ _ _ one(5,6)]) (simp add: one(4))
qed

lemma quiet_dispatch:
  assumes q: "quiet E w" and inj: "inj (uuid E)"
  shows "\<exists>w'. dispatchOne E i w = (Ok (), w') \<and> quiet E w' \<and> lifecycle (db w) (db w')"
proof -
  have inv: "db_inv E (uuidNext w) (db w)" and wi: "world_inv E w"
    using q by (simp_all add: quiet_def world_inv_def)
  have life: "lifecycle (db w) (db (snd (dispatchOne E i w)))"
    using snd_spec[OF spec_dispatchOne[OF world_inv_safe[OF wi] inj]] by (simp add: safe_def evolves_def)
  show ?thesis
  proof (cases "\<exists>x \<in> set (outbox (db w)). o_id x = i \<and> o_status x = OutboxStatus.PENDING")
    case True
    then obtain x where x: "x \<in> set (outbox (db w))" "o_status x = OutboxStatus.PENDING" "o_id x = i" by blast
    obtain w' x' where "dispatchOne E (o_id x) w = (Ok (), w')" "quiet E w'"
      by (rule quiet_dispatch_pending[OF q inj x(1,2)])
    then show ?thesis using life x(3) by auto
  next
    case False
    have "dispatchOne E i w = (Ok (), w)"
    proof (cases "List.find (\<lambda>y. o_id y = i) (outbox (db w))")
      case (Some y)
      then show ?thesis using False find_Some_in[OF Some]
        by (auto simp: dispatchOne_def findOutbox_def andThen_query return_apply)
    qed (simp add: dispatchOne_def findOutbox_def andThen_query return_apply)
    then show ?thesis using q by simp
  qed
qed

text \<open>The progress of one row: settled, or one more attempt counted with the cap not reached.\<close>

definition progressed :: "'h env \<Rightarrow> outbox_row \<Rightarrow> database \<Rightarrow> bool" where
  "progressed E x d = (\<exists>x' \<in> set (outbox d). o_id x' = o_id x \<and>
     (o_status x' \<noteq> OutboxStatus.PENDING \<or> attempts x < attempts x' \<and> attempts x + 1 < hcmRetryMaxAttempts E))"

lemma lifecycle_row:
  assumes "lifecycle d d'" "x \<in> set (outbox d)"
  obtains x' where "x' \<in> set (outbox d')" "row_evolves x x'"
  using assms unfolding lifecycle_def all_evolve_def by blast

lemma progressed_later:
  assumes "lifecycle d d'" "progressed E x d"
  shows "progressed E x d'"
proof -
  obtain y where y: "y \<in> set (outbox d)" "o_id y = o_id x"
    "o_status y \<noteq> OutboxStatus.PENDING \<or> attempts x < attempts y \<and> attempts x + 1 < hcmRetryMaxAttempts E"
    using assms(2) by (auto simp: progressed_def)
  obtain z where z: "z \<in> set (outbox d')" "row_evolves y z" by (rule lifecycle_row[OF assms(1) y(1)])
  then show ?thesis using y unfolding progressed_def row_evolves_def by (intro bexI[of _ z]) auto
qed

lemma progressed_earlier:
  assumes "row_evolves x y" "progressed E y d"
  shows "progressed E x d"
  using assms unfolding progressed_def row_evolves_def by force

lemma dispatch_rows:
  assumes "quiet E w" "inj (uuid E)"
  shows "\<exists>w'. for_each (\<lambda>row. dispatchOne E (o_id row)) rows w = (Ok (), w') \<and> quiet E w'
    \<and> lifecycle (db w) (db w')
    \<and> (\<forall>x \<in> set (outbox (db w)). o_id x \<in> o_id ` set rows \<longrightarrow> progressed E x (db w'))"
  using assms
proof (induction rows arbitrary: w)
  case Nil
  then show ?case by (simp add: return_apply)
next
  case (Cons row rows)
  obtain w1 where w1: "dispatchOne E (o_id row) w = (Ok (), w1)" "quiet E w1" "lifecycle (db w) (db w1)"
    using quiet_dispatch[OF Cons.prems] by blast
  obtain w2 where w2: "for_each (\<lambda>row. dispatchOne E (o_id row)) rows w1 = (Ok (), w2)" "quiet E w2"
    "lifecycle (db w1) (db w2)"
    "\<forall>x \<in> set (outbox (db w1)). o_id x \<in> o_id ` set rows \<longrightarrow> progressed E x (db w2)"
    using Cons.IH[OF w1(2) Cons.prems(2)] by blast
  have "progressed E x (db w2)" if x: "x \<in> set (outbox (db w))" "o_id x \<in> o_id ` set (row # rows)" for x
  proof (cases "o_id x \<in> o_id ` set rows")
    case True
    obtain y where y: "y \<in> set (outbox (db w1))" "row_evolves x y" by (rule lifecycle_row[OF w1(3) x(1)])
    then have "progressed E y (db w2)" using w2(4) True by (simp add: row_evolves_def)
    then show ?thesis by (rule progressed_earlier[OF y(2)])
  next
    case False
    then have i: "o_id row = o_id x" using x(2) by auto
    have "progressed E x (db w1)"
    proof (cases "o_status x = OutboxStatus.PENDING")
      case True
      obtain w' x' where "dispatchOne E (o_id x) w = (Ok (), w')" "x' \<in> set (outbox (db w'))" "o_id x' = o_id x"
        "o_status x' \<noteq> OutboxStatus.PENDING \<or> attempts x' = attempts x + 1 \<and> attempts x' < hcmRetryMaxAttempts E"
        by (rule quiet_dispatch_pending[OF Cons.prems x(1) True])
      then show ?thesis using w1(1) i unfolding progressed_def by auto
    next
      case False
      obtain y where "y \<in> set (outbox (db w1))" "row_evolves x y" by (rule lifecycle_row[OF w1(3) x(1)])
      then show ?thesis using False unfolding progressed_def row_evolves_def by auto
    qed
    then show ?thesis by (rule progressed_later[OF w2(3)])
  qed
  moreover have "for_each (\<lambda>row. dispatchOne E (o_id row)) (row # rows) w = (Ok (), w2)"
    using w1(1) w2(1) by (simp add: andThen_def)
  ultimately show ?case using w2(2) lifecycle_trans[OF w1(3) w2(3)] by blast
qed

fun ticks :: "'h env \<Rightarrow> nat \<Rightarrow> (unit, 'h) svc" where
  "ticks E 0 = return ()"
| "ticks E (Suc k) = andThen (dispatchPending E) (\<lambda>_. ticks E k)"

lemma one_tick:
  assumes "quiet E w" "inj (uuid E)"
  shows "\<exists>w'. dispatchPending E w = (Ok (), w') \<and> quiet E w' \<and> lifecycle (db w) (db w')
    \<and> (\<forall>x \<in> set (outbox (db w)). progressed E x (db w'))"
proof -
  obtain w' where w': "for_each (\<lambda>row. dispatchOne E (o_id row)) (pendingRows (db w)) w = (Ok (), w')"
    "quiet E w'" "lifecycle (db w) (db w')"
    "\<forall>x \<in> set (outbox (db w)). o_id x \<in> o_id ` set (pendingRows (db w)) \<longrightarrow> progressed E x (db w')"
    using dispatch_rows[OF assms, of "pendingRows (db w)"] by blast
  have "progressed E x (db w')" if x: "x \<in> set (outbox (db w))" for x
  proof (cases "o_status x = OutboxStatus.PENDING")
    case True
    then have "x \<in> set (pendingRows (db w))" using x by (simp add: pendingRows_def)
    then show ?thesis using w'(4) x by blast
  next
    case False
    obtain y where "y \<in> set (outbox (db w'))" "row_evolves x y" by (rule lifecycle_row[OF w'(3) x])
    then show ?thesis using False unfolding progressed_def row_evolves_def by auto
  qed
  moreover have "dispatchPending E w = (Ok (), w')" using w'(1) by (simp add: dispatchPending_def andThen_query)
  ultimately show ?thesis using w'(2,3) by blast
qed

lemma ticks_keep_settled:
  assumes "quiet E w" "inj (uuid E)" "y \<in> set (outbox (db w))" "o_status y \<noteq> OutboxStatus.PENDING"
  shows "\<exists>w'. ticks E k w = (Ok (), w') \<and>
    (\<exists>z \<in> set (outbox (db w')). o_id z = o_id y \<and> o_status z \<noteq> OutboxStatus.PENDING)"
  using assms
proof (induction k arbitrary: w y)
  case 0
  then show ?case by (auto simp: return_apply)
next
  case (Suc k)
  obtain w1 where w1: "dispatchPending E w = (Ok (), w1)" "quiet E w1" "lifecycle (db w) (db w1)"
    using one_tick[OF Suc.prems(1,2)] by blast
  obtain z where z: "z \<in> set (outbox (db w1))" "row_evolves y z"
    by (rule lifecycle_row[OF w1(3) Suc.prems(3)])
  then show ?case
    using Suc.IH[OF w1(2) Suc.prems(2) z(1)] Suc.prems(4) w1(1) by (simp add: andThen_def row_evolves_def)
qed

text \<open>C11: However HCM answers, after as many ticks as attempts are left (at least one) every outbox row has left PENDING: the dispatcher never retries for ever.\<close>

theorem dispatcher_settles_every_row:
  assumes "quiet E w" "inj (uuid E)" "x \<in> set (outbox (db w))"
    and "1 \<le> k" "hcmRetryMaxAttempts E - attempts x \<le> int k"
  shows "\<exists>w'. ticks E k w = (Ok (), w') \<and>
     (\<exists>x' \<in> set (outbox (db w')). o_id x' = o_id x \<and> o_status x' \<noteq> OutboxStatus.PENDING)"
  using assms
proof (induction k arbitrary: w x)
  case (Suc k)
  obtain w1 where w1: "dispatchPending E w = (Ok (), w1)" "quiet E w1" "\<forall>x \<in> set (outbox (db w)). progressed E x (db w1)"
    using one_tick[OF Suc.prems(1,2)] by blast
  then obtain y where y: "y \<in> set (outbox (db w1))" "o_id y = o_id x"
    "o_status y \<noteq> OutboxStatus.PENDING \<or> attempts x < attempts y \<and> attempts x + 1 < hcmRetryMaxAttempts E"
    using Suc.prems(3) unfolding progressed_def by blast
  have run: "ticks E (Suc k) w = ticks E k w1" using w1(1) by (simp add: andThen_def)
  show ?case
  proof (cases "k = 0")
    case True
    then have "\<not> attempts x + 1 < hcmRetryMaxAttempts E" using Suc.prems(5) by simp
    then show ?thesis using y run True by (auto simp: return_apply)
  next
    case False
    show ?thesis
    proof (cases "o_status y = OutboxStatus.PENDING")
      case True
      then have "hcmRetryMaxAttempts E - attempts y \<le> int k" using y(3) Suc.prems(5) by simp
      with Suc.IH[OF w1(2) Suc.prems(2) y(1)] False y(2) show ?thesis unfolding run by simp
    next
      case False
      then show ?thesis
        unfolding run using ticks_keep_settled[OF w1(2) Suc.prems(2) y(1)] y(2) by simp
    qed
  qed
qed simp

lemma dispatcher_settles_every_row_witness:
  "\<exists>w'. ticks (fake_env True) 5 (demo_world RequestStatus.PENDING_SYNC True 10) = (Ok (), w') \<and>
     (\<exists>x' \<in> set (outbox (db w')). o_id x' = numbered 2 \<and> o_status x' \<noteq> OutboxStatus.PENDING)"
proof -
  have "world_inv (fake_env True) (demo_world RequestStatus.PENDING_SYNC True 10)" by (rule demo_world_inv) simp
  then have "quiet (fake_env True) (demo_world RequestStatus.PENDING_SYNC True 10)" by (simp add: quiet_def)
  moreover have "demo_file OutboxStatus.PENDING \<in> set (outbox (db (demo_world RequestStatus.PENDING_SYNC True 10)))"
    by (simp add: demo_db_def one_request_db_def)
  ultimately show ?thesis
    using dispatcher_settles_every_row[OF _ demo_inj, of True _ "demo_file OutboxStatus.PENDING" 5]
    by (simp add: demo_shape demo_file_def buildOutboxRow_def fake_env_def)
qed

section \<open>Reconciliation\<close>

text \<open>A cancelled request has at most one REVERSE row to send.\<close>

definition to_reverse :: "database \<Rightarrow> request \<Rightarrow> bool" where
  "to_reverse d r = (status r = RequestStatus.CANCELLED
     \<and> (\<exists>x\<in>set (outbox d). aggregateId x = r_id r \<and> operation x = REVERSE \<and> o_status x = OutboxStatus.PENDING))"

lemma one_reverse:
  assumes "db_inv E n d" "r \<in> set (requests d)" "status r = RequestStatus.CANCELLED"
  shows "length (filter (\<lambda>x. aggregateId x = r_id r) (filter (\<lambda>x. operation x = REVERSE \<and> o_status x = OutboxStatus.PENDING) (outbox d)))
    = (if to_reverse d r then 1 else 0)"
proof -
  let ?p = "\<lambda>x. operation x = REVERSE \<and> o_status x = OutboxStatus.PENDING"
  let ?s = "filter (\<lambda>p. p = (REVERSE, OutboxStatus.PENDING)) (shape (rows_of (r_id r) d))"
  let ?n = "length (filter ?p (rows_of (r_id r) d))"
  have same: "filter (\<lambda>x. aggregateId x = r_id r) (filter ?p (outbox d)) = filter ?p (rows_of (r_id r) d)"
    by (simp add: rows_of_def conj_commute)
  have len: "length (filter ?p xs) = length (filter (\<lambda>p. p = (REVERSE, OutboxStatus.PENDING)) (shape xs))" for xs
    by (induction xs) (auto simp: shape_def)
  have "length ?s \<le> 1"
    using db_invD(6)[OF assms(1,2)] assms(3) by (auto simp: request_ok_def status_shape_def)
  then have le: "?n \<le> 1" unfolding len .
  have "to_reverse d r \<longleftrightarrow> filter ?p (rows_of (r_id r) d) \<noteq> []"
    using assms(3) by (auto simp: to_reverse_def filter_empty_conv rows_of_def)
  then have "to_reverse d r \<longleftrightarrow> 0 < ?n" by (simp only: length_greater_0_conv)
  from zero_or_one[OF le this] have "?n = (if to_reverse d r then 1 else 0)" .
  then show ?thesis unfolding same .
qed

lemma reversals_sum:
  assumes "db_inv E n d"
  shows "sum_list (map days (pendingReverseRows e l d))
    = sum_list (map days (filter (\<lambda>r. key_of r = (e, l) \<and> to_reverse d r) (requests d)))"
proof -
  let ?X = "filter (\<lambda>x. operation x = REVERSE \<and> o_status x = OutboxStatus.PENDING) (outbox d)"
  let ?P = "\<lambda>x r. r_id r = aggregateId x \<and> r_employeeId r = e \<and> r_locationId r = l \<and> status r = RequestStatus.CANCELLED"
  have "sum_list (map days (pendingReverseRows e l d)) = (\<Sum>x\<leftarrow>?X. \<Sum>r\<leftarrow>requests d. if ?P x r then days r else 0)"
    by (simp add: pendingReverseRows_def sum_list_map_concat sum_list_map_filter')
  also have "\<dots> = (\<Sum>r\<leftarrow>requests d. \<Sum>x\<leftarrow>?X. if ?P x r then days r else 0)" by (rule sum_list_swap)
  also have "\<dots> = (\<Sum>r\<leftarrow>requests d. if key_of r = (e, l) \<and> to_reverse d r then days r else 0)"
  proof (rule arg_cong[where f = sum_list], rule map_cong[OF refl])
    fix r assume r: "r \<in> set (requests d)"
    show "(\<Sum>x\<leftarrow>?X. if ?P x r then days r else 0) = (if key_of r = (e, l) \<and> to_reverse d r then days r else 0)"
    proof (cases "key_of r = (e, l) \<and> status r = RequestStatus.CANCELLED")
      case True
      then have P: "?P x r = (aggregateId x = r_id r)" for x by (auto simp: key_of_def)
      have "(\<Sum>x\<leftarrow>?X. if ?P x r then days r else 0) = (\<Sum>x\<leftarrow>?X. if aggregateId x = r_id r then days r else 0)"
        unfolding P ..
      also have "\<dots> = int (length (filter (\<lambda>x. aggregateId x = r_id r) ?X)) * days r"
        by (rule sum_list_cond_length)
      finally show ?thesis using one_reverse[OF assms r] True by simp
    next
      case False
      then have P: "?P x r = False" for x by (auto simp: key_of_def)
      have T: "(key_of r = (e, l) \<and> to_reverse d r) = False" using False by (auto simp: to_reverse_def)
      show ?thesis unfolding P T if_False by simp
    qed
  qed
  also have "\<dots> = sum_list (map days (filter (\<lambda>r. key_of r = (e, l) \<and> to_reverse d r) (requests d)))"
    by (simp add: sum_list_map_filter')
  finally show ?thesis .
qed

text \<open>A time whose year has four digits, and the UTC day of a time.\<close>

definition plain_time :: "int \<Rightarrow> bool" where
  "plain_time t = four_digit_year (civil_of_day (t div ms_per_day))"

definition utc_day_of :: "int \<Rightarrow> int" where
  "utc_day_of t = t div ms_per_day"

text \<open>A committed request that HCM has not acknowledged, or has on a later day than the snapshot's.\<close>

definition acked_later :: "int \<Rightarrow> request \<Rightarrow> bool" where
  "acked_later t r = (status r \<in> {RequestStatus.PENDING_SYNC, RequestStatus.APPROVED}
     \<and> (\<forall>a. hcmAckAt r = Some (Date_at a) \<longrightarrow> utc_day_of t < utc_day_of a))"

lemma unacked_by_day:
  assumes "stores_utc_text E" "plain_time t"
    and "\<forall>r\<in>set (requests d). \<forall>a. hcmAckAt r = Some a \<longrightarrow> (\<exists>u. a = Date_at u \<and> plain_time u)"
  shows "unackedApprovals E e l (Date_at t) d = filter (\<lambda>r. key_of r = (e, l) \<and> acked_later t r) (requests d)"
  unfolding unackedApprovals_def
proof (rule filter_cong[OF refl])
  fix r assume r: "r \<in> set (requests d)"
  show "(r_employeeId r = e \<and> r_locationId r = l \<and> status r \<in> {RequestStatus.APPROVED, RequestStatus.PENDING_SYNC}
      \<and> (case hcmAckAt r of None \<Rightarrow> True | Some a \<Rightarrow> str_less (iso_parameter (Date_at t)) (sqlDatetime E a)))
    = (key_of r = (e, l) \<and> acked_later t r)"
  proof (cases "hcmAckAt r")
    case None
    then show ?thesis by (auto simp: key_of_def acked_later_def)
  next
    case (Some a)
    then obtain u where u: "a = Date_at u" "plain_time u" using assms(3) r by blast
    then have "str_less (iso_parameter (Date_at t)) (sqlDatetime E a) \<longleftrightarrow> utc_day_of t < utc_day_of u"
      using assms(1,2) iso_below_utc_datetime[of t u]
      by (simp add: stores_utc_text_def plain_time_def iso_parameter_def utc_day_of_def)
    then show ?thesis using Some u(1) by (auto simp: key_of_def acked_later_def)
  qed
qed


lemma reconcile_entry_run:
  assumes f: "faults w = []" and inv: "db_inv E n (db w)" and valid: "asOf \<noteq> Invalid_Date"
    and free: "balanceKey (h_employeeId x) (h_locationId x) \<notin> set (held w)"
  shows "\<exists>ev. reconcile_entry E asOf x w = (Ok (), w\<lparr>db := (db w)\<lparr>
        balances := (balances (db w))((h_employeeId x, h_locationId x) \<mapsto>
           mut_reconcile (recon_available E x asOf (db w)) (reserved_of (db w) (h_employeeId x, h_locationId x)) asOf
             (bal (db w) (h_employeeId x, h_locationId x))),
        reconEvents := reconEvents (db w) @ [ev]\<rparr>\<rparr>)
    \<and> localValue ev = available_of (db w) (h_employeeId x, h_locationId x) \<and> e_hcmValue ev = h_balance x
    \<and> (resolution ev = FLAGGED_NEGATIVE \<longleftrightarrow> recon_available E x asOf (db w) < 0)"
proof -
  let ?k = "(h_employeeId x, h_locationId x)"
  have pk: "pk_of (mut_reconcile a q asOf (bal (db w) ?k)) = ?k" for a q
    using db_invD(1)[OF inv] pk_of_bal[of "db w" ?k] by (simp add: mut_reconcile_def pk_of_def)
  have q: "sum_rows days (activeReservations (h_employeeId x) (h_locationId x) (db w)) = reserved_of (db w) ?k"
    by (simp add: active_sum db_invD(5)[OF inv])
  have av: "recon_available E x asOf (db w) = h_balance x
      - sum_rows days (unackedApprovals E (h_employeeId x) (h_locationId x) asOf (db w))
      + sum_rows days (pendingReverseRows (h_employeeId x) (h_locationId x) (db w))"
    by (simp add: recon_available_def sum_rows_sum_list)
  show ?thesis
    unfolding reconcile_entry_def av
    using f free valid
    by (auto simp: runExclusive_def transaction_def reconcileBalance_def check_date_def Let_def findOrCreate_apply
        query_apply andThen_def saveWithRetry_ok fault_free_simps return_apply q set_balance_def pk of_bal)
qed

text \<open>C27: Reconciling a balance against HCM's snapshot stores the snapshot's value less the days of the committed
  (PENDING_SYNC or APPROVED) requests of that balance that HCM has not acknowledged, or has acknowledged on a later
  UTC day than the snapshot's, plus the days of its cancelled requests whose REVERSE is still to be sent; it keeps
  the reserved days, marks the snapshot's time, flags a negative result for review, adds one event and changes
  nothing else. The database is assumed to keep dates as its driver documents (UTC text with a blank before the
  time) and the years to have four digits. An acknowledgement later on the snapshot's own day counts as contained
  in the snapshot, against the rule the code's comment gives.\<close>

theorem reconciliation_replays_local_changes:
  assumes "faults w = []" "db_inv E n (db w)" "balanceKey e l \<notin> set (held w)"
    and stored: "stores_utc_text E" "plain_time t"
      "\<forall>r\<in>set (requests (db w)). \<forall>a. hcmAckAt r = Some a \<longrightarrow> (\<exists>u. a = Date_at u \<and> plain_time u)"
  shows "\<exists>b ev. reconcile_entry E (Date_at t) \<lparr>h_employeeId = e, h_locationId = l, h_balance = v, h_asOf = s\<rparr> w
      = (Ok (), w\<lparr>db := (db w)\<lparr>balances := (balances (db w))((e, l) \<mapsto> b), reconEvents := reconEvents (db w) @ [ev]\<rparr>\<rparr>)
    \<and> available b = v - sum_list (map days (filter (\<lambda>r. key_of r = (e, l) \<and> acked_later t r) (requests (db w))))
                      + sum_list (map days (filter (\<lambda>r. key_of r = (e, l) \<and> to_reverse (db w) r) (requests (db w))))
    \<and> b_employeeId b = e \<and> b_locationId b = l
    \<and> reserved b = reserved_of (db w) (e, l) \<and> lastHcmAsOf b = Some (Date_at t)
    \<and> (needsReview b \<longleftrightarrow> available b < 0 \<or> (\<exists>b0. balances (db w) (e, l) = Some b0 \<and> needsReview b0))
    \<and> localValue ev = available_of (db w) (e, l) \<and> e_hcmValue ev = v
    \<and> (resolution ev = FLAGGED_NEGATIVE \<longleftrightarrow> available b < 0)"
proof -
  let ?x = "\<lparr>h_employeeId = e, h_locationId = l, h_balance = v, h_asOf = s\<rparr>"
  have av: "recon_available E ?x (Date_at t) (db w)
      = v - sum_list (map days (filter (\<lambda>r. key_of r = (e, l) \<and> acked_later t r) (requests (db w))))
          + sum_list (map days (filter (\<lambda>r. key_of r = (e, l) \<and> to_reverse (db w) r) (requests (db w))))"
    by (simp add: recon_available_def unacked_by_day[OF stored] reversals_sum[OF assms(2)])
  have pk: "b_employeeId (bal (db w) (e, l)) = e \<and> b_locationId (bal (db w) (e, l)) = l"
    using pk_of_bal[OF db_invD(1)[OF assms(2)], of "(e, l)"] by (simp add: pk_of_def)
  have rev: "needsReview (bal (db w) (e, l)) \<longleftrightarrow> (\<exists>b0. balances (db w) (e, l) = Some b0 \<and> needsReview b0)"
    by (cases "balances (db w) (e, l)") (simp_all add: bal_def fresh_balance_def)
  obtain ev where ev: "reconcile_entry E (Date_at t) ?x w = (Ok (), w\<lparr>db := (db w)\<lparr>balances := (balances (db w))((e, l) \<mapsto>
        mut_reconcile (recon_available E ?x (Date_at t) (db w)) (reserved_of (db w) (e, l)) (Date_at t) (bal (db w) (e, l))),
        reconEvents := reconEvents (db w) @ [ev]\<rparr>\<rparr>)"
    "localValue ev = available_of (db w) (e, l)" "e_hcmValue ev = v"
    "resolution ev = FLAGGED_NEGATIVE \<longleftrightarrow> recon_available E ?x (Date_at t) (db w) < 0"
    using reconcile_entry_run[OF assms(1,2), of "Date_at t" ?x] assms(3) by auto
  show ?thesis
    by (rule exI, rule exI[of _ ev], intro conjI, rule ev(1)) (use ev(2-) av pk rev in \<open>simp_all add: mut_reconcile_def\<close>)
qed

lemma fake_text: "stores_utc_text (fake_env lazy)"
  by (simp add: stores_utc_text_def fake_env_def)

text \<open>HCM acknowledged the two days on day 0 at 13:53. A value of ten taken the evening before does not contain them
  and they are replayed; nor does one taken at one in the morning of day 0, but with it they are not.\<close>

definition acked_world :: "fake_hcm world" where
  "acked_world = fake_world (one_request_db (demo_balance 8 0)
     ((demo_request RequestStatus.APPROVED)\<lparr>hcmAckAt := Some (Date_at 50000000)\<rparr>) [demo_file SENT]) 0 4 (demo_hcm False 10)"

lemma acked_db:
  "db acked_world = one_request_db (demo_balance 8 0)
     ((demo_request RequestStatus.APPROVED)\<lparr>hcmAckAt := Some (Date_at 50000000)\<rparr>) [demo_file SENT]"
  "faults acked_world = []" "held acked_world = []"
  by (simp_all add: acked_world_def fake_world_def)

lemma acked_inv: "db_inv (fake_env True) 4 (db acked_world)"
  unfolding acked_db
proof (rule one_request_inv)
  let ?r = "(demo_request RequestStatus.APPROVED)\<lparr>hcmAckAt := Some (Date_at 50000000)\<rparr>"
  show "request_ok ?r [demo_file SENT]"
    using demo_dates demo_count demo_rows(1)[of RequestStatus.APPROVED SENT]
    by (simp add: request_ok_def stamps_ok_def demo_request_def status_shape_def shape_def demo_shape row_matches_def
        buildFileCommand_def)
qed (simp_all add: pk_of_def key_of_def demo_balance_def demo_request_def pending_days_def demo_shape demo_ids)

lemma plain_close: "plain_time (- 3600000)" "plain_time 3600000" "plain_time 50000000"
  unfolding plain_time_def four_digit_year_def by code_simp+

lemma acked_days:
  "utc_day_of (- 3600000) = - 1" "utc_day_of 3600000 = 0" "utc_day_of 50000000 = 0"
  by (simp_all add: utc_day_of_def ms_per_day_def)

lemma reconciliation_replays_local_changes_witness:
  "(\<exists>b w'. reconcile_entry (fake_env True) (Date_at (- 3600000))
       \<lparr>h_employeeId = ''emp1'', h_locationId = ''loc1'', h_balance = 10, h_asOf = toISOString 0\<rparr> acked_world = (Ok (), w')
     \<and> balances (db w') (''emp1'', ''loc1'') = Some b \<and> available b = 8)
   \<and> (\<exists>b w'. reconcile_entry (fake_env True) (Date_at 3600000)
       \<lparr>h_employeeId = ''emp1'', h_locationId = ''loc1'', h_balance = 10, h_asOf = toISOString 0\<rparr> acked_world = (Ok (), w')
     \<and> balances (db w') (''emp1'', ''loc1'') = Some b \<and> available b = 10)"
proof -
  have acks: "\<forall>r\<in>set (requests (db acked_world)). \<forall>a. hcmAckAt r = Some a \<longrightarrow> (\<exists>u. a = Date_at u \<and> plain_time u)"
    by (simp add: acked_db one_request_db_def plain_close)
  note run = reconciliation_replays_local_changes[OF acked_db(2) acked_inv _ fake_text _ acks,
      of "''emp1''" "''loc1''" _ 10 "toISOString 0"]
  have rows: "filter (\<lambda>r. key_of r = (''emp1'', ''loc1'') \<and> to_reverse (db acked_world) r) (requests (db acked_world)) = []"
    by (simp add: acked_db one_request_db_def to_reverse_def demo_request_simps)
  have late: "filter (\<lambda>r. key_of r = (''emp1'', ''loc1'') \<and> acked_later t r) (requests (db acked_world))
      = (if utc_day_of t < 0 then requests (db acked_world) else [])" for t
    by (simp add: acked_db one_request_db_def acked_later_def demo_request_def key_of_def acked_days)
  have days: "sum_list (map days (requests (db acked_world))) = 2"
    by (simp add: acked_db one_request_db_def demo_request_def)
  show ?thesis
    using run[OF _ plain_close(1)] run[OF _ plain_close(2)] days
    by (auto simp: acked_db(3) rows late acked_days)
qed

text \<open>C28: After a batch has been ingested, the same batch and every batch with a lower or equal sequence number is refused: it adds one STALE_REJECTED event and changes nothing else.\<close>

theorem batch_is_ingested_once:
  assumes "faults w = []" "ingestBatch E corpus w = (Ok (), w1)" "bc_sequence late \<le> bc_sequence corpus"
  shows "ingestBatch E late w1 = (Ok (), w1\<lparr>db := (db w1)\<lparr>reconEvents := reconEvents (db w1) @ [stale_event]\<rparr>\<rparr>)"
proof -
  obtain m where "faults w1 = []" "lastSequence (db w1) = Some m" "bc_sequence corpus \<le> m"
    using ingestBatch_logged[OF assms(1,2)] by blast
  then show ?thesis using assms(3) by (intro ingestBatch_stale[where n = m]) simp_all
qed

lemma batch_is_ingested_once_witness:
  "ingestBatch (fake_env True) demo_corpus demo_batched
     = (Ok (), demo_batched\<lparr>db := (db demo_batched)\<lparr>reconEvents := reconEvents (db demo_batched) @ [stale_event]\<rparr>\<rparr>)"
proof -
  have "ingestBatch (fake_env True) demo_corpus demo_warm = (Ok (), demo_batched)"
    by (simp add: demo_batched_def ingestBatch_def sequence_guard_def transaction_def query_apply andThen_def
      return_apply demo_warm_world lastSequence_def demo_corpus_def fault_free_simps demo_warm_db fake_world_def empty_db_def)
  then show ?thesis by (rule batch_is_ingested_once[OF demo_warm_world(2)]) simp
qed

text \<open>A batch whose asOf is not readable as a date fails with a RangeError at its first balance, and nothing of it is stored.\<close>

lemma batch_with_unreadable_date_fails:
  assumes "\<forall>n. lastSequence (db w) = Some n \<longrightarrow> n < bc_sequence corpus"
    and "js_Date_parse (bc_asOf corpus) = Invalid_Date" "bc_balances corpus = entry # rest"
    and "balanceKey (h_employeeId entry) (h_locationId entry) \<notin> set (held w)"
  shows "ingestBatch E corpus w = (Raise RangeError, w)"
proof -
  have guard: "sequence_guard corpus w = (Ok False, w)"
    using assms(1) by (cases "lastSequence (db w)")
      (auto simp: sequence_guard_def transaction_def query_apply andThen_def return_apply)
  have rec: "reconcileBalance E entry Invalid_Date w' = (Raise RangeError, w')" for w'
    by (simp add: reconcileBalance_def check_date_def findOrCreate_apply andThen_def throw_apply)
  have "reconcile_entry E Invalid_Date entry w = (Raise RangeError, w)"
    using assms(4) by (simp add: reconcile_entry_def runExclusive_def transaction_def rec)
  then show ?thesis using guard assms(2,3) by (simp add: ingestBatch_def andThen_def Let_def)
qed

section \<open>Optimistic retries\<close>

text \<open>\<open>rows\<close> are the rows other writers leave behind at the first saves; \<open>fs\<close> is what comes after.\<close>

text \<open>C26: A balance change that meets up to five concurrent writers is applied once, to the newest row (no update is lost); with more than five the version mismatch is raised.\<close>

theorem retry_applies_change_to_newest_row:
  assumes "\<forall>row \<in> set rows. pk_of row = pk_of b" "keeps_pk f"
    and "faults w = map (\<lambda>row. Version_mismatch (Some row)) rows @ fs" "fs = [] \<or> hd fs = No_fault"
  shows "if length rows \<le> MAX_OPTIMISTIC_RETRIES
    then saveWithRetry b f w = (Ok (), w\<lparr>faults := tl fs, db := set_balance (f (last (b # rows))) (db w)\<rparr>)
    else fst (saveWithRetry b f w) = Raise OptimisticLockVersionMismatchError"
proof (cases "length rows \<le> MAX_OPTIMISTIC_RETRIES")
  case True
  have "last (f b # map f rows) = f (last (b # rows))" by (simp add: last_map)
  then show ?thesis
    using True save_attempts_contended[OF True assms(1) _ assms(2-4), of "f b"] assms(2)
    by (simp add: saveWithRetry_def keeps_pk_def)
next
  case False
  let ?m = "Suc MAX_OPTIMISTIC_RETRIES"
  have "fst (saveWithRetry b f w) = Raise OptimisticLockVersionMismatchError"
    unfolding saveWithRetry_def
  proof (rule save_attempts_exhausted[where rows = "take ?m rows"])
    show "length (take ?m rows) = ?m" using False by simp
    show "\<forall>row \<in> set (take ?m rows). pk_of row = pk_of b" using assms(1) by (meson in_set_takeD)
    show "pk_of (f b) = pk_of b" using assms(2) by (simp add: keeps_pk_def)
    show "keeps_pk f" by fact
    show "faults w = map (\<lambda>row. Version_mismatch (Some row)) (take ?m rows)
        @ (map (\<lambda>row. Version_mismatch (Some row)) (drop ?m rows) @ fs)"
      using assms(3) by (simp flip: map_append append_assoc)
  qed
  then show ?thesis using False by simp
qed

lemma retry_applies_change_to_newest_row_witness:
  "saveWithRetry (demo_balance 10 0) (mut_reserve 3)
      ((demo_world RequestStatus.PENDING False 10)\<lparr>faults := [Version_mismatch (Some (demo_balance 10 9))]\<rparr>)
   = (Ok (), (demo_world RequestStatus.PENDING False 10)
        \<lparr>faults := [], db := set_balance (demo_balance 10 12) (demo_db RequestStatus.PENDING)\<rparr>)"
  using retry_applies_change_to_newest_row[of "[demo_balance 10 9]" "demo_balance 10 0" "mut_reserve 3"
      "(demo_world RequestStatus.PENDING False 10)\<lparr>faults := [Version_mismatch (Some (demo_balance 10 9))]\<rparr>" "[]"]
  by (simp add: MAX_OPTIMISTIC_RETRIES_def pk_of_def demo_balance_def mut_reserve_def)

text \<open>C25: A reservation is refused, without any change, exactly when it exceeds the free days; otherwise it raises the reserved days by its amount, which then do not exceed the available days.\<close>

theorem reserve_never_oversells:
  assumes "faults w = []" "balances_keyed (db w)"
  shows "let free = available_of (db w) (e, l) - reserved_of (db w) (e, l)
    in if free < n
       then reserve e l n w = (Raise (ConflictException (Insufficient_balance n free
              (available_of (db w) (e, l)) (reserved_of (db w) (e, l)))), w)
       else \<exists>w'. reserve e l n w = (Ok (), w') \<and> available_of (db w') (e, l) = available_of (db w) (e, l)
              \<and> reserved_of (db w') (e, l) = reserved_of (db w) (e, l) + n
              \<and> reserved_of (db w') (e, l) \<le> available_of (db w') (e, l)"
  using assms by (auto simp: reserve_ok insufficient_def of_bal Let_def of_change mut_reserve_def)

lemma reserve_never_oversells_witness:
  "reserve ''emp1'' ''loc1'' 9 (demo_world RequestStatus.PENDING False 10)
     = (Raise (ConflictException (Insufficient_balance 9 8 10 2)), demo_world RequestStatus.PENDING False 10)"
proof -
  have "balances_keyed (demo_db RequestStatus.PENDING)"
    using db_invD(1)[OF demo_inv[of "fake_env True" RequestStatus.PENDING]] by simp
  then show ?thesis
    using reserve_never_oversells[of "demo_world RequestStatus.PENDING False 10" "''emp1''" "''loc1''" 9]
    by (simp add: demo_days)
qed

end
