(* ===== verification/Controllers.thy ===== *)
theory Controllers
  imports Outbox_Dispatcher Reconciliation
begin

text \<open>
  The HTTP boundary: \<open>balance.controller.ts\<close>, \<open>time-off-request.controller.ts\<close>,
  \<open>batch.controller.ts\<close> and the validators of their bodies. An absent header is the empty string
  here: both are falsy in the source. The validation library's ISO-8601 check is a parameter. The
  path parameter of the request routes has been parsed as a UUID by the framework.
\<close>

section \<open>Validated bodies\<close>

definition id_ok :: "string \<Rightarrow> bool" where
  "id_ok s = (s \<noteq> [] \<and> length s \<le> 128)"

definition get_balance_dto_valid :: "string \<Rightarrow> string \<Rightarrow> bool" where
  "get_balance_dto_valid employeeId locationId = (id_ok employeeId \<and> id_ok locationId)"

definition resolve_review_dto_valid :: "string \<Rightarrow> string \<Rightarrow> bool" where
  "resolve_review_dto_valid employeeId locationId = (id_ok employeeId \<and> id_ok locationId)"

definition hcm_balance_dto_valid :: "(string \<Rightarrow> bool) \<Rightarrow> hcm_balance \<Rightarrow> bool" where
  "hcm_balance_dto_valid isISO8601 b =
     (id_ok (h_employeeId b) \<and> id_ok (h_locationId b) \<and> isISO8601 (h_asOf b))"

definition batch_dto_valid :: "(string \<Rightarrow> bool) \<Rightarrow> batch_corpus \<Rightarrow> bool" where
  "batch_dto_valid isISO8601 c =
     (0 < bc_sequence c \<and> isISO8601 (bc_asOf c) \<and> length (bc_balances c) \<le> 10000
      \<and> list_all (hcm_balance_dto_valid isISO8601) (bc_balances c))"

text \<open>Bodies no route takes (the identifier comes from the path); the UUID check is a parameter.\<close>

definition approve_dto_valid :: "(string \<Rightarrow> bool) \<Rightarrow> string \<Rightarrow> bool" where
  "approve_dto_valid isUUID i = isUUID i"

definition cancel_dto_valid :: "(string \<Rightarrow> bool) \<Rightarrow> string \<Rightarrow> bool" where
  "cancel_dto_valid isUUID i = isUUID i"

text \<open>The reason is optional; \<open>Some None\<close> is a reason that is not a string.\<close>

definition reject_dto_valid :: "(string \<Rightarrow> bool) \<Rightarrow> string \<Rightarrow> string option option \<Rightarrow> bool" where
  "reject_dto_valid isUUID i reason = (isUUID i \<and> reason \<noteq> Some None)"

section \<open>Principals\<close>

definition check_principal :: "string \<Rightarrow> string \<Rightarrow> (unit, 'h) svc" where
  "check_principal principalId role =
     (if principalId = [] then throw (BadRequestException Header_employee_required)
      else if role \<noteq> ''employee'' \<and> role \<noteq> ''manager''
      then throw (BadRequestException Header_role_invalid)
      else return ())"

section \<open>Balance routes\<close>

definition http_getBalance ::
  "'h env \<Rightarrow> string \<Rightarrow> string \<Rightarrow> string \<Rightarrow> string \<Rightarrow> (balance_view, 'h) svc" where
  "http_getBalance E employeeId locationId principalId role =
     andThen (check_principal principalId role) (\<lambda>_.
     if role \<noteq> ''manager'' \<and> employeeId \<noteq> principalId
     then throw (ForbiddenException Own_balance_only)
     else getBalance E employeeId locationId)"

definition http_resolveReview ::
  "string \<Rightarrow> string \<Rightarrow> string \<Rightarrow> string \<Rightarrow> (bool, 'h) svc" where
  "http_resolveReview employeeId locationId principalId role =
     andThen (check_principal principalId role) (\<lambda>_.
     if role \<noteq> ''manager'' then throw (ForbiddenException Managers_only_resolve)
     else andThen (resolveReview employeeId locationId) (\<lambda>_. return True))"

section \<open>Request routes\<close>

definition http_submit ::
  "'h env \<Rightarrow> string \<Rightarrow> string \<Rightarrow> string \<Rightarrow> string \<Rightarrow> string \<Rightarrow> string \<Rightarrow> string \<Rightarrow> (request, 'h) svc" where
  "http_submit E employeeId locationId startD endD key principalId role =
     andThen (check_principal principalId role) (\<lambda>_.
     if key = [] \<or> 200 < length key then throw (BadRequestException Header_idempotency_key_invalid)
     else if employeeId \<noteq> principalId then throw (ForbiddenException Submit_for_self_only)
     else submit E employeeId locationId startD endD key)"

definition http_approve :: "'h env \<Rightarrow> string \<Rightarrow> string \<Rightarrow> string \<Rightarrow> (request, 'h) svc" where
  "http_approve E requestId managerId role =
     andThen (check_principal managerId role) (\<lambda>_.
     if role \<noteq> ''manager'' then throw (ForbiddenException Managers_only_approve)
     else approve E requestId)"

definition http_reject :: "'h env \<Rightarrow> string \<Rightarrow> string \<Rightarrow> string \<Rightarrow> (request, 'h) svc" where
  "http_reject E requestId managerId role =
     andThen (check_principal managerId role) (\<lambda>_.
     if role \<noteq> ''manager'' then throw (ForbiddenException Managers_only_reject)
     else reject E requestId)"

definition http_cancel :: "'h env \<Rightarrow> string \<Rightarrow> string \<Rightarrow> string \<Rightarrow> (request, 'h) svc" where
  "http_cancel E requestId principalId role =
     andThen (check_principal principalId role) (\<lambda>_.
     andThen
       (if role \<noteq> ''manager'' then
          andThen (findById requestId) (\<lambda>existing. case existing of
            None \<Rightarrow> throw (NotFoundException (Not_found requestId))
          | Some r \<Rightarrow>
              if r_employeeId r \<noteq> principalId then throw (ForbiddenException Cancel_own_only)
              else return ())
        else return ())
       (\<lambda>_. cancel E requestId))"

section \<open>Batch route\<close>

definition http_ingestBatch :: "'h env \<Rightarrow> batch_corpus \<Rightarrow> (bool, 'h) svc" where
  "http_ingestBatch E body =
     andThen
       (ingestBatch E
          \<lparr>bc_sequence = bc_sequence body, bc_asOf = bc_asOf body,
           bc_balances = map (\<lambda>b. \<lparr>h_employeeId = h_employeeId b, h_locationId = h_locationId b,
                                   h_balance = h_balance b, h_asOf = h_asOf b\<rparr>) (bc_balances body)\<rparr>)
       (\<lambda>_. return True)"

section \<open>Who may do what\<close>

lemma check_principal_apply:
  "check_principal p role w =
     (if p = [] then Raise (BadRequestException Header_employee_required)
      else if role \<noteq> ''employee'' \<and> role \<noteq> ''manager'' then Raise (BadRequestException Header_role_invalid)
      else Ok (), w)"
  by (simp add: check_principal_def throw_apply return_apply)

lemma guarded:
  "andThen (check_principal p role) f w =
     (if p = [] then (Raise (BadRequestException Header_employee_required), w)
      else if role \<noteq> ''employee'' \<and> role \<noteq> ''manager'' then (Raise (BadRequestException Header_role_invalid), w)
      else f () w)"
  by (simp add: andThen_def check_principal_apply)

end
