(* ===== verification/Boundary_Properties.thy ===== *)
theory Boundary_Properties
  imports Actor_Properties Controllers
begin

text \<open>
  Properties of the two boundaries of the service: the delivery of commands to HCM across a crash
  (\<open>hcm/outbox-dispatcher.service.ts\<close> against an endpoint that honours idempotency keys, ADR-008),
  and the HTTP routes' checks of who is calling (\<open>time-off-request.controller.ts\<close>,
  \<open>balance.controller.ts\<close>).
\<close>

section \<open>Crash between HCM and the local commit\<close>

text \<open>
  The process dies in a dispatch after HCM took the command: transaction 1 is committed, the
  answer is lost, the lock table is gone.
\<close>

definition crashed_after_file :: "outbox_row \<Rightarrow> fake_hcm world \<Rightarrow> fake_hcm world" where
  "crashed_after_file x w =
     (snd (begin_attempt (o_id x) w))\<lparr>hcm := snd (fake_fileTimeOff (payload x) (hcm w)), held := []\<rparr>"

definition hcm_balance_of :: "hcm_command \<Rightarrow> fake_hcm \<Rightarrow> int option" where
  "hcm_balance_of c h = map_option sb_balance (map_of (f_store h) (storeKey (c_employeeId c) (c_locationId c)))"

lemma fake_file_deducts:
  assumes "fake_open h" "f_scenario h \<noteq> Silent_insufficient" "fake_stored (c_idempotencyKey c) h = None"
    and "hcm_balance_of c h = Some b" "c_days c \<le> b"
  shows "ok (fst (fake_file c h)) \<and> hcm_balance_of c (snd (fake_file c h)) = Some (b - c_days c)"
  using assms
  by (auto simp: fake_open_def fake_stored_def fake_file_def fake_prior_def fake_acked_def hcm_balance_of_def
      f_put_def fake_remember_def Let_def split: option.splits)

text \<open>When the process dies after HCM accepted a FILE but before the acknowledgement is recorded, the next dispatch of the row approves the request and marks the row SENT, and HCM has deducted the days exactly once.\<close>

lemma crash_then_retry_files_once:
  assumes f: "faults w = []" and inv: "db_inv E (uuidNext w) (db w)" and x: "x \<in> set (outbox (db w))"
    "o_status x = OutboxStatus.PENDING" "operation x = FILE"
    and r: "r \<in> set (requests (db w))" "aggregateId x = r_id r" and E: "hcm_fileTimeOff E = fake_fileTimeOff"
    and h: "fake_open (hcm w)" "f_scenario (hcm w) \<noteq> Silent_insufficient"
      "fake_stored (c_idempotencyKey (payload x)) (hcm w) = None"
      "hcm_balance_of (payload x) (hcm w) = Some b" "c_days (payload x) \<le> b"
  shows "\<exists>acked w'. dispatchOne E (o_id x) (crashed_after_file x w) = (Ok (), w')
    \<and> db w' = set_request (r\<lparr>hcmAckAt := Some acked, status := RequestStatus.APPROVED\<rparr>)
                (set_outbox ((attempted (attempted x))\<lparr>o_status := SENT\<rparr>) (db (crashed_after_file x w)))
    \<and> hcm_balance_of (payload x) (hcm w') = Some (b - c_days (payload x))"
proof -
  let ?c = "payload x" and ?h = "snd (fake_file (payload x) (hcm w))" and ?x = "attempted x"
  have w1: "crashed_after_file x w = w\<lparr>db := set_outbox ?x (db w), hcm := ?h, held := []\<rparr>"
    by (simp add: crashed_after_file_def begin_attempt_ok[OF f inv x(1,2) r] fake_fileTimeOff_def split_beta)
  have inv1: "db_inv E (uuidNext w) (set_outbox ?x (db w))"
    using count_attempt[OF inv r(1) x(1) r(2) _ refl, where c = False] by (simp add: attempted_def)
  have x1: "?x \<in> set (outbox (set_outbox ?x (db w)))"
    by (simp add: set_outbox_def upsert_has)
  have first: "ok (fst (fake_file ?c (hcm w)))" "hcm_balance_of ?c ?h = Some (b - c_days ?c)"
    using fake_file_deducts[OF h] by simp_all
  have "fake_open ?h" "fake_stored (c_idempotencyKey ?c) ?h = Some True"
    using fake_file_records[OF h(1), of ?c] first(1) by simp_all
  then have again: "ok (fst (fake_file ?c ?h))" "fake_view (snd (fake_file ?c ?h)) = fake_view ?h"
    using fake_file_replays[of ?h ?c True] by simp_all
  have sent: "hcm_write E ?x (hcm (crashed_after_file x w)) = (Inr (fst (fake_file ?c ?h)), snd (fake_file ?c ?h))"
    using x(3) by (simp add: hcm_write_def E fake_fileTimeOff_def w1 split_beta)
  have "hcm_balance_of ?c (snd (fake_file ?c ?h)) = Some (b - c_days ?c)"
    using again(2) first(2) by (simp add: fake_view_def hcm_balance_of_def)
  moreover have "dispatchOne E (o_id ?x) (crashed_after_file x w) = (Ok (), (crashed_after_file x w)
      \<lparr>hcm := snd (fake_file ?c ?h), db := dispatched E ?x r (Some (ack_time (clock w) (ackedAt (fst (fake_file ?c ?h)))))
         (crashed_after_file x w)\<rparr>)"
    using dispatchOne_verdict[OF _ _ _ _ _ _ _ sent, of r] inv1 x1 x r f again(1)
    by (simp add: w1 verdict_def gives_up_def)
  ultimately show ?thesis
    using x(3) by (simp add: dispatched_def) (rule exI, rule refl)
qed

section \<open>Commands whose fate HCM alone knows\<close>

lemma rows_of_map:
  assumes "\<And>y. y \<in> set (outbox d) \<Longrightarrow> aggregateId (f y) = aggregateId y" "outbox d' = map f (outbox d)"
  shows "rows_of i d' = map f (rows_of i d)"
  using assms by (auto simp: rows_of_def filter_map o_def intro!: arg_cong[where f = "map f"] filter_cong)

lemma set_outbox_map:
  assumes "db_inv E n d" "x \<in> set (outbox d)" "o_id x' = o_id x"
  shows "outbox (set_outbox x' d) = map (\<lambda>y. if y = x then x' else y) (outbox d)"
proof -
  have "o_id y = o_id x' \<longleftrightarrow> y = x" if "y \<in> set (outbox d)" for y
    using key_unique[OF db_inv_outbox_ids(1)[OF assms(1)] that assms(2)] assms(3) by auto
  then show ?thesis
    using assms(2,3) by (auto simp: set_outbox_def upsert_by_def update_where_def)
qed

lemma sync_rows:
  assumes "db_inv E n d" "r \<in> set (requests d)" "status r = RequestStatus.PENDING_SYNC"
    and "x \<in> set (outbox d)" "aggregateId x = r_id r"
  shows "rows_of (r_id r) d = [x]" "operation x = FILE" "o_status x = OutboxStatus.PENDING"
proof -
  have "shape (rows_of (r_id r) d) = [(FILE, OutboxStatus.PENDING)]"
    using db_invD(6)[OF assms(1,2)] assms(3) by (simp add: request_ok_def status_shape_def)
  moreover have "x \<in> set (rows_of (r_id r) d)" using assms(4,5) by (simp add: rows_of_def)
  ultimately show "rows_of (r_id r) d = [x]" "operation x = FILE" "o_status x = OutboxStatus.PENDING"
    by (auto simp: shape_def map_eq_Cons_conv)
qed

lemma rows_after_crash_and_void:
  assumes inv: "db_inv E n d" and r: "r \<in> set (requests d)" "status r = RequestStatus.PENDING_SYNC"
    and x: "x \<in> set (outbox d)" "aggregateId x = r_id r"
  shows "rows_of (r_id r) (void_files (r_id r) (set_outbox (attempted x) d)) = [(attempted x)\<lparr>o_status := VOIDED\<rparr>]"
proof -
  note rows = sync_rows[OF inv r x]
  have "rows_of (r_id r) (set_outbox (attempted x) d) = [attempted x]"
    using rows_of_map[of d "\<lambda>y. if y = x then attempted x else y"] set_outbox_map[OF inv x(1), of "attempted x"] rows(1)
    by simp
  moreover have "rows_of (r_id r) (void_files (r_id r) d') = map (\<lambda>y. if voids (r_id r) y then void_row y else y) (rows_of (r_id r) d')"
    for d' by (rule rows_of_map) (simp_all add: void_files_def update_where_def void_row_def)
  ultimately show ?thesis using rows x(2) by (simp add: voids_def void_row_def)
qed

text \<open>C40: When HCM accepted a FILE but the answer was lost in a crash, rejecting the PENDING_SYNC request gives its days back locally and voids the row without queueing a REVERSE, while HCM keeps the deduction.\<close>

theorem rejection_after_lost_ack_diverges:
  assumes r: "ready E r w" "status r = RequestStatus.PENDING_SYNC" and x: "x \<in> set (outbox (db w))" "aggregateId x = r_id r"
    and h: "fake_open (hcm w)" "f_scenario (hcm w) \<noteq> Silent_insufficient"
      "fake_stored (c_idempotencyKey (payload x)) (hcm w) = None"
      "hcm_balance_of (payload x) (hcm w) = Some b" "c_days (payload x) \<le> b"
  shows "\<exists>w'. reject E (r_id r) (crashed_after_file x w) = (Ok (r\<lparr>status := RequestStatus.REJECTED\<rparr>), w')
    \<and> rows_of (r_id r) (db w') = [(attempted x)\<lparr>o_status := VOIDED\<rparr>]
    \<and> available_of (db w') (key_of r) = available_of (db w) (key_of r) + days r
    \<and> hcm_balance_of (payload x) (hcm w') = Some (b - c_days (payload x))"
proof -
  let ?c = "crashed_after_file x w" and ?d = "set_outbox (attempted x) (db w)"
  note inv = readyD(2)[OF r(1)] note rr = readyD(3)[OF r(1)] note rows = sync_rows[OF inv rr r(2) x]
  have c: "?c = w\<lparr>db := ?d, hcm := snd (fake_file (payload x) (hcm w)), held := []\<rparr>"
    by (simp add: crashed_after_file_def begin_attempt_ok[OF readyD(1)[OF r(1)] inv x(1) rows(3) rr x(2)]
        fake_fileTimeOff_def split_beta)
  have "db_inv E (uuidNext w) ?d"
    using count_attempt[OF inv rr x _ refl, where c = False] by (simp add: attempted_def)
  then have ready: "ready E r ?c"
    using r(1) by (simp add: c ready_def)
  have "reject E (r_id r) ?c = (Ok (r\<lparr>status := RequestStatus.REJECTED\<rparr>),
      ?c\<lparr>db := withdrawn RequestStatus.REJECTED r ?d\<rparr>)"
    using withdrawal_outcome[OF ready] r(2) by (simp add: c)
  moreover have "rows_of (r_id r) (withdrawn RequestStatus.REJECTED r ?d) = [(attempted x)\<lparr>o_status := VOIDED\<rparr>]"
    using rows_after_crash_and_void[OF inv rr r(2) x] by (simp add: withdrawn_def rows_of_def)
  moreover have "available_of (withdrawn RequestStatus.REJECTED r ?d) (key_of r) = available_of (db w) (key_of r) + days r"
    using withdrawal_outcome[OF ready, of RequestStatus.REJECTED] r(2) by (simp add: c committed_days_def available_of_def)
  moreover have "hcm_balance_of (payload x) (hcm ?c) = Some (b - c_days (payload x))"
    using fake_file_deducts[OF h] by (simp add: c)
  ultimately show ?thesis by auto
qed

lemma demo_file_payload:
  "c_employeeId (payload (demo_file s)) = ''emp1''" "c_locationId (payload (demo_file s)) = ''loc1''" "c_days (payload (demo_file s)) = 2"
  by (simp_all add: demo_file_def buildOutboxRow_def buildFileCommand_def demo_request_def)

lemma demo_hcm_fresh:
  "fake_open (demo_hcm False n)" "f_scenario (demo_hcm False n) \<noteq> Silent_insufficient" "fake_stored k (demo_hcm d n) = None"
  "hcm_balance_of (payload (demo_file s)) (demo_hcm d n) = Some n"
  by (simp_all add: fake_open_def fake_dedups_def fake_stored_def hcm_balance_of_def demo_hcm_def seedBalance_def
      f_put_def new_fake_def demo_file_payload)

lemma rejection_after_lost_ack_diverges_witness:
  "\<exists>w'. reject (fake_env True) (numbered 1)
        (crashed_after_file (demo_file OutboxStatus.PENDING) (demo_world RequestStatus.PENDING_SYNC False 10))
        = (Ok ((demo_request RequestStatus.PENDING_SYNC)\<lparr>status := RequestStatus.REJECTED\<rparr>), w')
     \<and> hcm_balance_of (payload (demo_file OutboxStatus.PENDING)) (hcm w') = Some 8"
proof -
  let ?w = "demo_world RequestStatus.PENDING_SYNC False 10" and ?x = "demo_file OutboxStatus.PENDING"
  have r: "ready (fake_env True) (demo_request RequestStatus.PENDING_SYNC) ?w" by (rule demo_ready) simp
  have x: "?x \<in> set (outbox (db ?w))" by (simp add: demo_db_def one_request_db_def)
  show ?thesis
    using rejection_after_lost_ack_diverges[OF r _ x, of 10]
    by (simp add: demo_shape demo_request_simps demo_hcm_fresh demo_file_payload) blast
qed

text \<open>HCM comes back: the scenario is \<open>Correct\<close> from here on.\<close>

definition hcm_back :: "fake_hcm world \<Rightarrow> fake_hcm world" where
  "hcm_back w = w\<lparr>hcm := setScenario Correct (hcm w)\<rparr>"

lemma fake_reverse_credits:
  assumes "fake_open h" "fake_stored (c_idempotencyKey c) h = None" "hcm_balance_of c h = Some b"
  shows "ok (fst (fake_reverse c h)) \<and> hcm_balance_of c (snd (fake_reverse c h)) = Some (b + c_days c)"
  using assms
  by (auto simp: fake_open_def fake_stored_def fake_reverse_def fake_prior_def fake_acked_def hcm_balance_of_def
      f_put_def fake_remember_def Let_def split: option.splits)

text \<open>C39: When HCM is down for the last attempt of a FILE that never reached it, the dispatcher gives up and queues a REVERSE; delivered once HCM is back, that REVERSE raises HCM's balance by days that were never deducted.\<close>

theorem giving_up_overcredits_hcm:
  assumes q: "quiet E w" and inj: "inj (uuid E)" and x: "x \<in> set (outbox (db w))"
    "o_status x = OutboxStatus.PENDING" "operation x = FILE" "hcmRetryMaxAttempts E \<le> attempts x + 1"
    and r: "r \<in> set (requests (db w))" "aggregateId x = r_id r"
    and E: "hcm_fileTimeOff E = fake_fileTimeOff" "hcm_reverseTimeOff E = fake_reverseTimeOff"
    and h: "f_scenario (hcm w) = Timeout" "fake_stored (hcmIdempotencyKey r @ '':REVERSE'') (hcm w) = None"
      "hcm_balance_of (payload x) (hcm w) = Some b"
  shows "\<exists>w1 w2. dispatchOne E (o_id x) w = (Ok (), w1) \<and> queued E REVERSE r w \<in> set (outbox (db w1))
    \<and> dispatchOne E (o_id (queued E REVERSE r w)) (hcm_back w1) = (Ok (), w2)
    \<and> hcm_balance_of (payload x) (hcm w1) = Some b \<and> hcm_balance_of (payload x) (hcm w2) = Some (b + days r)"
proof -
  let ?y = "queued E REVERSE r w" and ?r = "r\<lparr>status := RequestStatus.REJECTED\<rparr>"
  have f: "faults w = []" "held w = []" and wi: "world_inv E w" and inv: "db_inv E (uuidNext w) (db w)"
    using q by (simp_all add: quiet_def world_inv_def)
  have "hcm_write E x (hcm w) = (Inr (refused ''unreachable''), count_file (hcm w))"
    using x(3) h(1) by (simp add: hcm_write_def E fake_fileTimeOff_def fake_file_def)
  from dispatchOne_verdict[OF f(1) inv x(1,2) r _ this]
  have d1: "dispatchOne E (o_id x) w = (Ok (), w\<lparr>hcm := count_file (hcm w), uuidNext := uuidNext w + 1,
      db := dispatched E x r None w\<rparr>)" (is "_ = (_, ?w1)")
    using f(2) x(3,4) by (simp add: verdict_def refused_def gives_up_def)
  have q1: "quiet E ?w1"
    using quiet_dispatch[OF q inj, of "o_id x"] d1 by simp
  then have w1: "faults (hcm_back ?w1) = []" "db_inv E (uuidNext (hcm_back ?w1)) (db (hcm_back ?w1))" "held (hcm_back ?w1) = []"
    by (simp_all add: quiet_def world_inv_def hcm_back_def)
  have y: "?y \<in> set (outbox (dispatched E x r None w))" and r1: "?r \<in> set (requests (dispatched E x r None w))"
    using x(3,4) by (simp_all add: dispatched_def set_outbox_def set_request_def change_balance_def set_balance_def upsert_has)
  have yy: "o_status ?y = OutboxStatus.PENDING" "aggregateId ?y = r_id ?r" "operation ?y = REVERSE"
    "payload ?y = buildReverseCommand r"
    by (simp_all add: queued_def buildOutboxRow_def)
  have m: "row_matches r x"
    using db_invD(6)[OF inv r(1)] x(1) r(2) by (simp add: request_ok_def rows_of_def)
  then have px: "hcm_balance_of (payload x) = hcm_balance_of (payload ?y)"
    using x(3) by (auto simp: yy row_matches_def hcm_balance_of_def buildFileCommand_def buildReverseCommand_def)
  let ?h = "setScenario Correct (count_file (hcm w))"
  have h1: "fake_open ?h" "fake_stored (c_idempotencyKey (payload ?y)) ?h = None" "hcm_balance_of (payload ?y) ?h = Some b"
    using h px by (simp_all add: fake_open_def fake_dedups_def setScenario_def fake_stored_def yy buildReverseCommand_def
        hcm_balance_of_def)
  have hb: "hcm (hcm_back ?w1) = ?h" by (simp add: hcm_back_def)
  have sent: "hcm_write E ?y (hcm (hcm_back ?w1)) = (Inr (fst (fake_reverse (payload ?y) ?h)), snd (fake_reverse (payload ?y) ?h))"
    unfolding hb by (simp add: hcm_write_def E fake_reverseTimeOff_def yy(3) split_beta)
  have "fst (dispatchOne E (o_id ?y) (hcm_back ?w1)) = Ok ()
      \<and> hcm (snd (dispatchOne E (o_id ?y) (hcm_back ?w1))) = snd (fake_reverse (payload ?y) ?h)"
    using dispatchOne_verdict[OF w1(1,2) _ yy(1) _ yy(2) _ sent] w1(3) y r1 by (simp add: hcm_back_def)
  moreover have "hcm_balance_of (payload x) (snd (fake_reverse (payload ?y) ?h)) = Some (b + days r)"
    using fake_reverse_credits[OF h1] px by (simp add: yy buildReverseCommand_def)
  moreover have "hcm_balance_of (payload x) (hcm ?w1) = Some b" using h(3) by (simp add: hcm_balance_of_def)
  ultimately show ?thesis
    using d1 y by (intro exI[of _ ?w1] exI[of _ "snd (dispatchOne E (o_id ?y) (hcm_back ?w1))"]) (auto simp: prod_eq_iff)
qed

definition one_attempt_env :: "fake_hcm env" where
  "one_attempt_env = (fake_env True)\<lparr>hcmRetryMaxAttempts := 1\<rparr>"

lemma giving_up_overcredits_hcm_witness:
  "\<exists>w1 w2. dispatchOne one_attempt_env (numbered 2) (demo_world RequestStatus.PENDING_SYNC True 10) = (Ok (), w1)
     \<and> dispatchOne one_attempt_env (numbered 4) (hcm_back w1) = (Ok (), w2)
     \<and> hcm_balance_of (payload (demo_file OutboxStatus.PENDING)) (hcm w2) = Some 12"
proof -
  let ?w = "demo_world RequestStatus.PENDING_SYNC True 10" and ?x = "demo_file OutboxStatus.PENDING"
    and ?r = "demo_request RequestStatus.PENDING_SYNC"
  have env: "uuid one_attempt_env = numbered" "hcmRetryMaxAttempts one_attempt_env = 1"
    "hcm_fileTimeOff one_attempt_env = fake_fileTimeOff" "hcm_reverseTimeOff one_attempt_env = fake_reverseTimeOff"
    by (simp_all add: one_attempt_env_def fake_env_def)
  have q: "quiet one_attempt_env ?w"
    using demo_inv[of one_attempt_env RequestStatus.PENDING_SYNC] env(1)
    by (simp add: quiet_def world_inv_def sole_writer_def)
  have inj: "inj (uuid one_attempt_env)" using inj_numbered env(1) by simp
  have x: "?x \<in> set (outbox (db ?w))" by (simp add: demo_db_def one_request_db_def)
  have r: "?r \<in> set (requests (db ?w))" by simp
  have few: "hcmRetryMaxAttempts one_attempt_env \<le> attempts ?x + 1"
    using env(2) by (simp add: demo_file_def buildOutboxRow_def)
  have down: "f_scenario (hcm ?w) = Timeout" by (simp add: demo_hcm_def)
  have id: "o_id (queued one_attempt_env REVERSE ?r ?w) = numbered 4" by (simp add: queued_def env(1))
  show ?thesis
    using giving_up_overcredits_hcm[OF q inj x _ _ few r _ env(3,4) down, of 10] id
    by (simp add: demo_shape demo_request_simps demo_hcm_fresh) blast
qed

section \<open>Who may do what\<close>

text \<open>An employee is refused, with nothing changed, whatever only managers may do (approve, reject, resolve a review) and whatever concerns somebody else (reading their balance, submitting for them, cancelling their request).\<close>

lemma employees_act_for_themselves_only:
  assumes "p \<noteq> []" "e \<noteq> p" "key \<noteq> []" "length key \<le> 200"
    and "List.find (\<lambda>r. r_id r = i) (requests (db w)) = Some r" "r_employeeId r \<noteq> p"
  shows "http_approve E i p ''employee'' w = (Raise (ForbiddenException Managers_only_approve), w)
    \<and> http_reject E i p ''employee'' w = (Raise (ForbiddenException Managers_only_reject), w)
    \<and> http_resolveReview e l p ''employee'' w = (Raise (ForbiddenException Managers_only_resolve), w)
    \<and> http_getBalance E e l p ''employee'' w = (Raise (ForbiddenException Own_balance_only), w)
    \<and> http_submit E e l startD endD key p ''employee'' w = (Raise (ForbiddenException Submit_for_self_only), w)
    \<and> http_cancel E i p ''employee'' w = (Raise (ForbiddenException Cancel_own_only), w)"
  using assms
  by (simp add: http_approve_def http_reject_def http_resolveReview_def http_getBalance_def http_submit_def
      http_cancel_def check_principal_apply throw_apply findById_def andThen_def query_apply findRequest_def)

text \<open>Every route with principal headers refuses a caller without an employee id or with an unknown role as a bad request, before anything is read or changed.\<close>

lemma callers_must_identify_themselves:
  assumes "p = [] \<or> role \<notin> {''employee'', ''manager''}"
  shows "\<exists>m. http_approve E i p role w = (Raise (BadRequestException m), w)
    \<and> http_reject E i p role w = (Raise (BadRequestException m), w)
    \<and> http_cancel E i p role w = (Raise (BadRequestException m), w)
    \<and> http_submit E e l startD endD key p role w = (Raise (BadRequestException m), w)
    \<and> http_getBalance E e l p role w = (Raise (BadRequestException m), w)
    \<and> http_resolveReview e l p role w = (Raise (BadRequestException m), w)"
  using assms
  by (auto simp: http_approve_def http_reject_def http_resolveReview_def http_getBalance_def http_submit_def
      http_cancel_def guarded)

end
