(* ===== verification/Svc_Runs.thy ===== *)
theory Svc_Runs
  imports Svc_Spec
begin

text \<open>
  Operations cut at their \<open>await\<close>s. A \<open>run\<close> is what is left of an operation: its outcome, or a
  block that runs to its end without being interrupted, followed by another run. The event loop
  lets other operations go on between two blocks. \<open>alone\<close> is the operation when nobody else moves;
  \<open>fine\<close> is a rely-guarantee reading of a run: whatever the others do within the rely relation,
  every block stays within the guarantee.
\<close>

datatype ('a, 'h) run = Fin "'a outcome" | Then "'h world \<Rightarrow> ('a, 'h) run \<times> 'h world"

definition block :: "('a, 'h) svc \<Rightarrow> ('a, 'h) run" where
  "block m = Then (map_prod Fin id \<circ> m)"

primrec bind :: "('a, 'h) run \<Rightarrow> ('a \<Rightarrow> ('b, 'h) run) \<Rightarrow> ('b, 'h) run" where
  "bind (Fin out) f = (case out of Ok x \<Rightarrow> f x | Raise e \<Rightarrow> Fin (Raise e) | Hang \<Rightarrow> Fin Hang)"
| "bind (Then g) f = Then (map_prod (\<lambda>r. bind r f) id \<circ> g)"

primrec catch :: "('a, 'h) run \<Rightarrow> (exception \<Rightarrow> ('a, 'h) run) \<Rightarrow> ('a, 'h) run" where
  "catch (Fin out) h = (case out of Raise e \<Rightarrow> h e | _ \<Rightarrow> Fin out)"
| "catch (Then g) h = Then (map_prod (\<lambda>r. catch r h) id \<circ> g)"

text \<open>The operation run to its end without interference.\<close>

primrec alone :: "('a, 'h) run \<Rightarrow> ('a, 'h) svc" where
  "alone (Fin out) = Pair out"
| "alone (Then g) = (\<lambda>w. case (map_prod alone id \<circ> g) w of (m, w') \<Rightarrow> m w')"

section \<open>A run nobody interrupts\<close>

lemma alone_Then: "alone (Then g) w = alone (fst (g w)) (snd (g w))"
  by (cases "g w") simp

lemma bind_Then: "bind (Then g) f = Then (\<lambda>w. (bind (fst (g w)) f, snd (g w)))"
  and catch_Then: "catch (Then g) h = Then (\<lambda>w. (catch (fst (g w)) h, snd (g w)))"
  by (auto simp: fun_eq_iff map_prod_def split: prod.split)

lemma run_induct [case_names Fin Then]:
  assumes "\<And>out. P (Fin out)" "\<And>g. (\<And>w. P (fst (g w))) \<Longrightarrow> P (Then g)"
  shows "P r"
proof (induction r)
  case (Then g)
  have "fst p \<in> Basic_BNFs.fsts p" for p :: "('a, 'b) run \<times> 'b world"
    by (cases p) simp
  then have "P (fst (g w))" for w by (rule Then.IH[OF rangeI])
  then show ?case by (rule assms(2))
qed (rule assms(1))

lemma alone_block [simp]: "alone (block m) = m"
  by (rule ext) (simp add: block_def alone_Then del: alone.simps(2))

lemma alone_bind [simp]: "alone (bind r f) = andThen (alone r) (\<lambda>x. alone (f x))"
proof (induction r rule: run_induct)
  case (Fin out)
  then show ?case by (cases out) (simp_all add: fun_eq_iff andThen_def)
next
  case (Then g)
  show ?case
    by (rule ext) (simp add: bind_Then alone_Then Then.IH andThen_def del: bind.simps(2) alone.simps(2))
qed

lemma alone_catch [simp]: "alone (catch r h) = try_catch (alone r) (\<lambda>e. alone (h e))"
proof (induction r rule: run_induct)
  case (Fin out)
  then show ?case by (cases out) (simp_all add: fun_eq_iff try_catch_def)
next
  case (Then g)
  show ?case
    by (rule ext) (simp add: catch_Then alone_Then Then.IH try_catch_def del: catch.simps(2) alone.simps(2))
qed

lemma alone_returns [simp]: "alone (Fin (Ok x)) = return x" "alone (Fin (Raise e)) = throw e"
  by (simp_all add: fun_eq_iff return_def throw_def)

lemma alone_cases [simp]:
  "alone (if b then r else s) = (if b then alone r else alone s)"
  "alone (case v of None \<Rightarrow> r | Some x \<Rightarrow> f x) = (case v of None \<Rightarrow> alone r | Some x \<Rightarrow> alone (f x))"
  "alone (case p of (x, y) \<Rightarrow> g x y) = (case p of (x, y) \<Rightarrow> alone (g x y))"
  by (simp_all split: option.split prod.split)

lemma alone_Hang [simp]: "alone (Fin Hang) w = (Hang, w)"
  by simp

declare alone.simps [simp del]

section \<open>Rely and guarantee\<close>

primrec fine ::
  "('h world \<Rightarrow> 'h world \<Rightarrow> bool) \<Rightarrow> ('h world \<Rightarrow> 'h world \<Rightarrow> bool) \<Rightarrow> ('a \<Rightarrow> 'h world \<Rightarrow> bool) \<Rightarrow>
   ('h world \<Rightarrow> bool) \<Rightarrow> ('a, 'h) run \<Rightarrow> 'h world \<Rightarrow> bool" where
  "fine R G Q F (Fin out) = (\<lambda>w. \<forall>w1. R w w1 \<longrightarrow>
     (case out of Ok x \<Rightarrow> Q x w1 | Raise _ \<Rightarrow> F w1 | Hang \<Rightarrow> True))"
| "fine R G Q F (Then g) = (\<lambda>w. \<forall>w1. R w w1 \<longrightarrow>
     (case (map_prod (fine R G Q F) id \<circ> g) w1 of (p, w') \<Rightarrow> G w1 w' \<and> p w'))"

lemma fine_Then:
  "fine R G Q F (Then g) w \<longleftrightarrow>
     (\<forall>w1. R w w1 \<longrightarrow> G w1 (snd (g w1)) \<and> fine R G Q F (fst (g w1)) (snd (g w1)))"
  by (simp add: case_prod_unfold)

declare bind.simps(2) [simp del] catch.simps(2) [simp del] fine.simps(2) [simp del]

text \<open>
  \<open>ok\<close> is the invariant every operation keeps and may count on; the rely relation is a preorder on
  the worlds that satisfy it.
\<close>

locale interference =
  fixes ok :: "'h world \<Rightarrow> bool" and rely guar :: "'h world \<Rightarrow> 'h world \<Rightarrow> bool"
  assumes rely_refl: "ok w \<Longrightarrow> rely w w"
    and rely_trans: "rely a b \<Longrightarrow> rely b c \<Longrightarrow> rely a c"
    and rely_ok: "rely a b \<Longrightarrow> ok b"
    and guar_ok: "guar a b \<Longrightarrow> ok b"
begin

lemma fine_rely: "fine rely guar Q F r w \<Longrightarrow> rely w w1 \<Longrightarrow> fine rely guar Q F r w1"
  by (cases r) (auto simp: fine_Then intro: rely_trans)

lemma fine_mono:
  assumes "fine rely guar Q F r w" "\<And>x w'. ok w' \<Longrightarrow> Q x w' \<Longrightarrow> Q' x w'" "\<And>w'. ok w' \<Longrightarrow> F w' \<Longrightarrow> F' w'"
  shows "fine rely guar Q' F' r w"
  using assms(1)
proof (induction r arbitrary: w rule: run_induct)
  case (Fin out)
  then show ?case using assms(2,3) rely_ok by (auto split: outcome.splits)
qed (simp add: fine_Then)

lemma fine_bind:
  assumes "fine rely guar (\<lambda>x. fine rely guar Q F (f x)) F r w" "ok w"
  shows "fine rely guar Q F (bind r f) w"
  using assms
proof (induction r arbitrary: w rule: run_induct)
  case (Fin out)
  then show ?case using rely_refl by (cases out) auto
next
  case (Then g)
  then show ?case using guar_ok by (auto simp: bind_Then fine_Then)
qed

lemma fine_catch:
  assumes "fine rely guar Q F' r w" "ok w" "\<And>e w'. ok w' \<Longrightarrow> F' w' \<Longrightarrow> fine rely guar Q F (h e) w'"
  shows "fine rely guar Q F (catch r h) w"
  using assms(1,2)
proof (induction r arbitrary: w rule: run_induct)
  case (Fin out)
  then show ?case using rely_refl assms(3) by (cases out) auto
next
  case (Then g)
  then show ?case using guar_ok by (auto simp: catch_Then fine_Then)
qed

lemma fine_block:
  assumes "\<And>w1. rely w w1 \<Longrightarrow>
    spec m (\<lambda>x w'. guar w1 w' \<and> (\<forall>w2. rely w' w2 \<longrightarrow> Q x w2)) (\<lambda>w'. guar w1 w' \<and> (\<forall>w2. rely w' w2 \<longrightarrow> F w2)) w1"
  shows "fine rely guar Q F (block m) w"
  unfolding block_def fine_Then
proof (intro allI impI)
  fix w1 assume "rely w w1"
  then show "guar w1 (snd ((map_prod Fin id \<circ> m) w1)) \<and>
      fine rely guar Q F (fst ((map_prod Fin id \<circ> m) w1)) (snd ((map_prod Fin id \<circ> m) w1))"
    using assms[of w1] by (auto simp: spec_def split: prod.splits outcome.splits)
qed

lemma fine_return: "(\<And>w1. rely w w1 \<Longrightarrow> Q x w1) \<Longrightarrow> fine rely guar Q F (Fin (Ok x)) w"
  and fine_throw: "(\<And>w1. rely w w1 \<Longrightarrow> F w1) \<Longrightarrow> fine rely guar Q F (Fin (Raise e)) w"
  by simp_all

end

end
