(* ===== verification/Handler_Runs.thy ===== *)
theory Handler_Runs
  imports Svc_Runs Actors_Inv
begin

text \<open>
  The critical sections of the services as runs: the same statements in the same order as in
  \<open>time-off-request.service.ts\<close>, \<open>outbox-dispatcher.service.ts\<close> and \<open>balance.service.ts\<close>, cut
  wherever the code awaits. One block is a query, a call of the HCM client, a transaction, or a
  read-modify-write of one balance row (which the version column makes atomic). What happens
  between two awaits (the clock, \<open>randomUUID\<close>) belongs to the block that follows. Run without
  interruption they are the operations of the service theories.
\<close>

abbreviation give :: "'a \<Rightarrow> ('a, 'h) run" where
  "give x \<equiv> Fin (Ok x)"

abbreviation fail :: "exception \<Rightarrow> ('a, 'h) run" where
  "fail e \<equiv> Fin (Raise e)"

section \<open>submit\<close>

definition create_block ::
  "'h env \<Rightarrow> string \<Rightarrow> string \<Rightarrow> string \<Rightarrow> string \<Rightarrow> string \<Rightarrow> request option \<Rightarrow> int \<Rightarrow> (request, 'h) svc" where
  "create_block E employeeId locationId startD endD key existing n =
     andThen now (\<lambda>t2.
     andThen (fresh_uuid E) (\<lambda>hcmKey.
     create_and_reserve E existing (new_request E employeeId locationId startD endD key n t2 hcmKey)))"

definition submit_fresh_run ::
  "'h env \<Rightarrow> string \<Rightarrow> string \<Rightarrow> string \<Rightarrow> string \<Rightarrow> string \<Rightarrow> request option \<Rightarrow> (request, 'h) run" where
  "submit_fresh_run E employeeId locationId startD endD key existing =
     bind (block (findOverlapping employeeId locationId startD endD)) (\<lambda>overlapping.
     case overlapping of
       Some r \<Rightarrow> fail (ConflictException (Range_overlaps (r_id r)))
     | None \<Rightarrow>
         bind (block (lift_result (countBusinessDays startD endD {}))) (\<lambda>n.
         if n = 0 then fail (BadRequestException No_business_days)
         else
           bind (block now) (\<lambda>t.
           if str_less endD (civil_date_string t) then fail (BadRequestException End_in_past)
           else
             bind (block (validateAvailability E employeeId locationId n)) (\<lambda>_.
             bind (block (create_block E employeeId locationId startD endD key existing n)) (\<lambda>req.
             bind (block (findRequest (r_id req))) (\<lambda>saved.
             give (case saved of Some s \<Rightarrow> s | None \<Rightarrow> req)))))))"

definition submit_run ::
  "'h env \<Rightarrow> string \<Rightarrow> string \<Rightarrow> string \<Rightarrow> string \<Rightarrow> string \<Rightarrow> (request, 'h) run" where
  "submit_run E employeeId locationId startD endD key =
     bind (block (findByIdempotencyKey key)) (\<lambda>existing.
     case existing of
       Some r \<Rightarrow>
         if status r \<in> ACTIVE_STATUSES
         then (if same_body r employeeId locationId startD endD then give r
               else fail (UnprocessableEntityException Idempotency_body_mismatch))
         else submit_fresh_run E employeeId locationId startD endD key (Some r)
     | None \<Rightarrow> submit_fresh_run E employeeId locationId startD endD key None)"

section \<open>approve\<close>

definition refresh_run :: "'h env \<Rightarrow> request \<Rightarrow> (request option, 'h) run" where
  "refresh_run E req =
     catch
       (bind (block (call_hcm (hcm_getBalance E (r_employeeId req) (r_locationId req)))) (\<lambda>snapshot.
        bind (block (applyHcmSnapshot snapshot)) (\<lambda>_.
        bind (block (getBalance E (r_employeeId req) (r_locationId req))) (\<lambda>v. case v of
          None \<Rightarrow> fail TypeError
        | Some (b, _) \<Rightarrow>
            if available b - reserved b < days req
            then bind (block (release_and_reject req)) (\<lambda>r. give (Some r))
            else give None))))
       (\<lambda>e. case e of HcmUnavailableError _ \<Rightarrow> give None | _ \<Rightarrow> fail e)"

definition approve_run :: "'h env \<Rightarrow> string \<Rightarrow> (request, 'h) run" where
  "approve_run E requestId =
     bind (block (findRequest requestId)) (\<lambda>found. case found of
       None \<Rightarrow> fail (NotFoundException (Not_found requestId))
     | Some req \<Rightarrow>
         if status req \<noteq> RequestStatus.PENDING
         then fail (BadRequestException (Cannot_approve (status req)))
         else
           bind (block now) (\<lambda>t.
           if str_less (startDate req) (civil_date_string t) then block (release_and_reject req)
           else
             bind (refresh_run E req) (\<lambda>r. case r of
               Some rejected \<Rightarrow> give rejected
             | None \<Rightarrow> block (andThen now (\<lambda>t2. commit_and_enqueue E req t2)))))"

section \<open>reject, cancel, expire\<close>

definition reject_run :: "string \<Rightarrow> (request, 'h) run" where
  "reject_run requestId =
     bind (block (findRequest requestId)) (\<lambda>found. case found of
       None \<Rightarrow> fail (NotFoundException (Not_found requestId))
     | Some req \<Rightarrow>
         if status req \<noteq> RequestStatus.PENDING \<and> status req \<noteq> RequestStatus.PENDING_SYNC
         then fail (BadRequestException (Cannot_reject (status req)))
         else block (transaction
             (andThen (if status req = RequestStatus.PENDING
                       then release (r_employeeId req) (r_locationId req) (days req)
                       else restore_and_void req) (\<lambda>_.
              andThen (save_request (req\<lparr>status := RequestStatus.REJECTED\<rparr>)) (\<lambda>_.
              return (req\<lparr>status := RequestStatus.REJECTED\<rparr>))))))"

definition cancel_run :: "'h env \<Rightarrow> string \<Rightarrow> (request, 'h) run" where
  "cancel_run E requestId =
     bind (block (findRequest requestId)) (\<lambda>found. case found of
       None \<Rightarrow> fail (NotFoundException (Not_found requestId))
     | Some req \<Rightarrow>
         if status req = RequestStatus.CANCELLED then give req
         else if status req \<noteq> RequestStatus.PENDING \<and> status req \<noteq> RequestStatus.PENDING_SYNC
                 \<and> status req \<noteq> RequestStatus.APPROVED
         then fail (BadRequestException (Cannot_cancel (status req)))
         else block (transaction
             (andThen (cancel_effect E req) (\<lambda>_.
              andThen (save_request (req\<lparr>status := RequestStatus.CANCELLED\<rparr>)) (\<lambda>_.
              return (req\<lparr>status := RequestStatus.CANCELLED\<rparr>))))))"

definition expire_run :: "string \<Rightarrow> (request, 'h) run" where
  "expire_run requestId =
     bind (block (findRequest requestId)) (\<lambda>found. case found of
       None \<Rightarrow> fail (NotFoundException (Not_found requestId))
     | Some req \<Rightarrow>
         if status req \<noteq> RequestStatus.PENDING \<and> status req \<noteq> RequestStatus.PENDING_SYNC
         then fail (BadRequestException (Cannot_expire (status req)))
         else block (transaction
             (andThen (if status req = RequestStatus.PENDING
                       then andThen (release (r_employeeId req) (r_locationId req) (days req))
                              (\<lambda>_. voidPendingFileRows (r_id req))
                       else restore_and_void req) (\<lambda>_.
              andThen (save_request (req\<lparr>status := RequestStatus.EXPIRED\<rparr>)) (\<lambda>_.
              return (req\<lparr>status := RequestStatus.EXPIRED\<rparr>))))))"

section \<open>The dispatcher and the cold read\<close>

definition hcm_attempt_run :: "'h env \<Rightarrow> outbox_row \<Rightarrow> (js_date option, 'h) run" where
  "hcm_attempt_run E row =
     catch
       (bind (block (call_hcm (case operation row of
                    FILE \<Rightarrow> hcm_fileTimeOff E (payload row)
                  | REVERSE \<Rightarrow> hcm_reverseTimeOff E (payload row)))) (\<lambda>res.
        bind (block now) (\<lambda>t.
        give (if ok res then Some (ack_time t (ackedAt res)) else None))))
       (\<lambda>_. give None)"

definition dispatch_run :: "'h env \<Rightarrow> string \<Rightarrow> (unit, 'h) run" where
  "dispatch_run E outboxId =
     bind (block (begin_attempt outboxId)) (\<lambda>started. case started of
       None \<Rightarrow> give ()
     | Some (row, req) \<Rightarrow>
         bind (hcm_attempt_run E row) (\<lambda>outcome. block (finish_attempt E row req outcome)))"

definition hydrate_run :: "'h env \<Rightarrow> string \<Rightarrow> string \<Rightarrow> (balance_view, 'h) run" where
  "hydrate_run E employeeId locationId =
     bind (block (findBalance employeeId locationId)) (\<lambda>fresh.
     if is_warm fresh then give (map_option (\<lambda>b. (b, False)) fresh)
     else
       bind
         (catch
           (bind (block (call_hcm (hcm_getBalance E employeeId locationId))) (\<lambda>s. give (Some s)))
           (\<lambda>e. case e of HcmUnavailableError _ \<Rightarrow> give None | _ \<Rightarrow> fail e))
         (\<lambda>snapshot. case snapshot of
            None \<Rightarrow> give (Some (fresh_balance employeeId locationId, True))
          | Some s \<Rightarrow>
              bind (block (applyHcmSnapshot s)) (\<lambda>_.
              bind (block (findBalance employeeId locationId)) (\<lambda>row.
              give (map_option (\<lambda>b. (b, False)) row)))))"

text \<open>The part of \<open>getBalance\<close> that runs without the lock: a query and, when lazy loading is
  switched off and there is no row, the save of a zero row. \<open>None\<close>: the cold path, under the
  lock, is to follow.\<close>

definition read_run :: "'h env \<Rightarrow> string \<Rightarrow> string \<Rightarrow> (balance_view option, 'h) run" where
  "read_run E employeeId locationId =
     bind (block (findBalance employeeId locationId)) (\<lambda>row.
     if is_warm row then give (Some (map_option (\<lambda>b. (b, False)) row))
     else if \<not> balanceLazyLoadEnabled E then
       (case row of
          Some b \<Rightarrow> give (Some (Some (b, False)))
        | None \<Rightarrow>
            bind (block (save_balance (fresh_balance employeeId locationId))) (\<lambda>_.
            give (Some (Some (fresh_balance employeeId locationId, False)))))
     else give None)"

section \<open>Without interruption they are the operations\<close>

lemma alone_unavailable [simp]:
  "alone (case e of HcmUnavailableError _ \<Rightarrow> give None | _ \<Rightarrow> fail e) =
   (case e of HcmUnavailableError _ \<Rightarrow> return None | _ \<Rightarrow> throw e)"
  by (cases e) simp_all

lemma andThen_assoc: "andThen (andThen m f) g = andThen m (\<lambda>x. andThen (f x) g)"
  by (auto simp: fun_eq_iff andThen_def split: prod.splits outcome.splits)

lemma alone_submit: "alone (submit_run E e l s d key) = submit_locked E e l s d key"
  unfolding submit_run_def submit_locked_def submit_fresh_run_def submit_fresh_def create_block_def
  by (simp add: andThen_assoc cong: if_cong option.case_cong)

lemma alone_refresh: "alone (refresh_run E req) = refresh_from_hcm E req"
  unfolding refresh_run_def refresh_from_hcm_def by (simp add: case_prod_unfold cong: if_cong option.case_cong)

lemma alone_approve: "alone (approve_run E i) = approve_locked E i"
  unfolding approve_run_def approve_locked_def by (simp add: alone_refresh cong: if_cong option.case_cong)

lemma alone_settle:
  "alone (reject_run i) = reject_locked i" "alone (cancel_run E i) = cancel_locked E i"
  "alone (expire_run i) = expire i"
  unfolding reject_run_def reject_locked_def cancel_run_def cancel_locked_def expire_run_def expire_def
  by (simp_all cong: if_cong option.case_cong)

lemma alone_dispatch: "alone (dispatch_run E i) = dispatch_locked E i"
  unfolding dispatch_run_def dispatch_locked_def hcm_attempt_run_def hcm_attempt_def
  by (simp cong: option.case_cong)

lemma alone_hydrate: "alone (hydrate_run E e l) = hydrate E e l"
  unfolding hydrate_run_def hydrate_def by (simp cong: if_cong option.case_cong)

end
