(* ===== verification/Frames.thy ===== *)
theory Frames
  imports Handler_Runs
begin

text \<open>
  What a critical section leaves alone: the requests of every other balance, and their outbox
  rows. The one exception in the code is the idempotency key of a terminal request, which a
  resubmission under the same key renames whatever balance the old request belongs to.
\<close>

definition request_key :: "request \<Rightarrow> string" where
  "request_key r = balanceKey (r_employeeId r) (r_locationId r)"

definition kept :: "request \<Rightarrow> request \<Rightarrow> bool" where
  "kept r r' = (r' = r \<or> (status r \<in> TERMINAL_STATUSES \<and> (\<exists>k. r' = r\<lparr>idempotencyKey := k\<rparr>)))"

text \<open>The requests of balance \<open>k\<close> and their rows are the same in \<open>d'\<close> as in \<open>d\<close>.\<close>

definition keeps :: "string \<Rightarrow> database \<Rightarrow> database \<Rightarrow> bool" where
  "keeps k d d' =
     ((\<forall>r \<in> set (requests d). request_key r = k \<longrightarrow>
         (\<exists>r' \<in> set (requests d'). kept r r') \<and> rows_of (r_id r) d' = rows_of (r_id r) d)
      \<and> (\<forall>r' \<in> set (requests d'). request_key r' = k \<longrightarrow> (\<exists>r \<in> set (requests d). kept r r')))"

definition touches_only :: "string \<Rightarrow> database \<Rightarrow> database \<Rightarrow> bool" where
  "touches_only k d d' = (\<forall>k'. k' \<noteq> k \<longrightarrow> keeps k' d d')"

section \<open>keeps is a preorder\<close>

lemma kept_refl [simp]: "kept r r"
  by (simp add: kept_def)

lemma kept_same:
  assumes "kept r r'"
  shows "r_id r' = r_id r" "request_key r' = request_key r" "status r' = status r"
  using assms by (auto simp: kept_def request_key_def)

lemma kept_trans: "kept a b \<Longrightarrow> kept b c \<Longrightarrow> kept a c"
  by (auto simp: kept_def)

lemma kept_active: "kept r r' \<Longrightarrow> status r \<notin> TERMINAL_STATUSES \<Longrightarrow> r' = r"
  by (auto simp: kept_def)

lemma keeps_refl [simp]: "keeps k d d"
  by (auto simp: keeps_def intro: kept_refl)

lemma keeps_trans:
  assumes "keeps k a b" "keeps k b c"
  shows "keeps k a c"
  unfolding keeps_def
proof (intro conjI ballI impI)
  fix r assume r: "r \<in> set (requests a)" "request_key r = k"
  obtain r1 where r1: "r1 \<in> set (requests b)" "kept r r1" "rows_of (r_id r) b = rows_of (r_id r) a"
    using assms(1) r unfolding keeps_def by blast
  with r(2) assms(2) kept_same[OF r1(2)]
  obtain r2 where r2: "r2 \<in> set (requests c)" "kept r1 r2" "rows_of (r_id r1) c = rows_of (r_id r1) b"
    unfolding keeps_def by metis
  show "\<exists>r' \<in> set (requests c). kept r r'" using r1 r2 kept_trans by blast
  show "rows_of (r_id r) c = rows_of (r_id r) a" using r1 r2 kept_same(1)[OF r1(2)] by simp
next
  fix r2 assume r2: "r2 \<in> set (requests c)" "request_key r2 = k"
  obtain r1 where r1: "r1 \<in> set (requests b)" "kept r1 r2"
    using assms(2) r2 unfolding keeps_def by blast
  with r2(2) kept_same[OF r1(2)] assms(1)
  obtain r where "r \<in> set (requests a)" "kept r r1" unfolding keeps_def by metis
  then show "\<exists>r \<in> set (requests a). kept r r2" using r1 kept_trans by blast
qed

lemma touches_only_refl [simp]: "touches_only k d d"
  by (simp add: touches_only_def)

lemma touches_only_trans: "touches_only k a b \<Longrightarrow> touches_only k b c \<Longrightarrow> touches_only k a c"
  unfolding touches_only_def using keeps_trans by blast

section \<open>Updates of one balance\<close>

lemma set_upsert: "set (upsert_by key x xs) = insert x {y \<in> set xs. key y \<noteq> key x}"
  by (cases "\<exists>y \<in> set xs. key y = key x")
    (auto simp: upsert_by_def in_set_update_where split: if_splits)

lemma touches_same:
  "requests d' = requests d \<Longrightarrow> outbox d' = outbox d \<Longrightarrow> touches_only k d d'"
  by (auto simp: touches_only_def keeps_def rows_of_def intro: kept_refl)

text \<open>One request is saved, and the outbox changes in rows of that request only.\<close>

lemma touches_save:
  assumes rs: "requests d' = upsert_by r_id r' (requests d)"
    and k: "request_key r' = k" "\<And>s. s \<in> set (requests d) \<Longrightarrow> r_id s = r_id r' \<Longrightarrow> request_key s = k"
    and ox: "\<And>j. j \<noteq> r_id r' \<Longrightarrow> rows_of j d' = rows_of j d"
  shows "touches_only k d d'"
  unfolding touches_only_def keeps_def rs set_upsert
proof (intro allI impI conjI ballI)
  fix k' r assume r: "k' \<noteq> k" "r \<in> set (requests d)" "request_key r = k'"
  then have "r_id r \<noteq> r_id r'" using k by blast
  then show "\<exists>r'' \<in> insert r' {y \<in> set (requests d). r_id y \<noteq> r_id r'}. kept r r''"
    and "rows_of (r_id r) d' = rows_of (r_id r) d" using r(2) ox kept_refl by blast+
next
  fix k' r assume "k' \<noteq> k" "r \<in> insert r' {y \<in> set (requests d). r_id y \<noteq> r_id r'}" "request_key r = k'"
  then show "\<exists>r0 \<in> set (requests d). kept r0 r" using k(1) kept_refl by blast
qed

lemma rows_set_outbox:
  assumes "\<And>y. y \<in> set (outbox d) \<Longrightarrow> o_id y = o_id x \<Longrightarrow> aggregateId y = aggregateId x" "j \<noteq> aggregateId x"
    and "outbox d' = upsert_by o_id x (outbox d)"
  shows "rows_of j d' = rows_of j d"
proof (cases "\<exists>y \<in> set (outbox d). o_id y = o_id x")
  case True
  have "rows_of j d' = update_where (\<lambda>y. o_id y = o_id x) (\<lambda>_. x) (rows_of j d)"
    using True assms(1) by (simp add: rows_of_def assms(3) upsert_by_def filter_update_where)
  also have "\<dots> = rows_of j d"
    using assms(1,2) by (intro update_where_none) (auto simp: rows_of_def)
  finally show ?thesis .
next
  case False
  then show ?thesis using assms(2) by (simp add: rows_of_def assms(3) upsert_by_def)
qed

lemma rows_void_files: "j \<noteq> i \<Longrightarrow> rows_of j (void_files i d) = rows_of j d"
  unfolding rows_of_def void_files_simps
  by (subst filter_update_where) (auto simp: voids_def void_row_def intro!: update_where_none)

text \<open>Only rows of one request change.\<close>

lemma touches_rows:
  assumes "requests d' = requests d" "\<And>j. j \<noteq> i \<Longrightarrow> rows_of j d' = rows_of j d"
    and "\<And>s. s \<in> set (requests d) \<Longrightarrow> r_id s = i \<Longrightarrow> request_key s = k"
  shows "touches_only k d d'"
  unfolding touches_only_def keeps_def assms(1) using assms(2,3) kept_refl by blast

lemma touches_rename:
  assumes "distinct (map r_id (requests d))" "r0 \<in> set (requests d)" "r_id r0 = r_id r"
    and "status r0 \<in> TERMINAL_STATUSES"
  shows "touches_only k d (rename_key r d)"
proof -
  have eq: "s = r0" if "s \<in> set (requests d)" "r_id s = r_id r" for s
    using key_unique[OF assms(1) that(1) assms(2)] assms(3) that(2) by simp
  let ?f = "\<lambda>s. if r_id s = r_id r then s\<lparr>idempotencyKey := terminal_key r\<rparr> else s"
  have k: "kept s (?f s)" if "s \<in> set (requests d)" for s
    using eq[OF that] assms(4) by (auto simp: kept_def)
  have set': "set (requests (rename_key r d)) = ?f ` set (requests d)"
    by (simp add: rename_key_def update_where_def)
  have rows: "rows_of j (rename_key r d) = rows_of j d" for j by (simp add: rows_of_def rename_key_def)
  show ?thesis
    unfolding touches_only_def keeps_def set' using k rows by blast
qed

section \<open>Every block stays in its balance\<close>

definition still :: "'h world \<Rightarrow> 'h world \<Rightarrow> bool" where
  "still w w' = (uuidNext w \<le> uuidNext w' \<and> held w' = held w)"

definition moved :: "string \<Rightarrow> 'h world \<Rightarrow> 'h world \<Rightarrow> bool" where
  "moved k w w' = (touches_only k (db w) (db w') \<and> still w w')"

lemma moved_refl [simp]: "moved k w w"
  by (simp add: moved_def still_def)

lemma moved_trans: "moved k a b \<Longrightarrow> moved k b c \<Longrightarrow> moved k a c"
  unfolding moved_def still_def using touches_only_trans by (metis order_trans)

lemma moved_tx:
  assumes "spec m (\<lambda>_. moved k w) (still w) w"
  shows "spec (transaction m) (\<lambda>_. moved k w) (moved k w) w"
  by (rule spec_transaction, rule spec_mono[OF assms]) (simp_all add: moved_def still_def)

lemma held_upd [simp]: "still w (w'\<lparr>db := d\<rparr>) = still w w'" "still w (w'\<lparr>hcm := h\<rparr>) = still w w'"
  "still w (drop_fault w') = still w w'"
  by (simp_all add: still_def)

lemma still_uuid [simp]: "still w (w'\<lparr>uuidNext := n\<rparr>) = (uuidNext w \<le> n \<and> held w' = held w)"
  by (simp add: still_def)

lemma still_refl [simp]: "still w w"
  by (simp add: still_def)

lemma moved_same [simp]:
  "moved k w (w'\<lparr>hcm := h\<rparr>) = moved k w w'" "moved k w (drop_fault w') = moved k w w'"
  by (simp_all add: moved_def)

lemma moved_db: "touches_only k (db w) d \<Longrightarrow> still w w' \<Longrightarrow> moved k w (w'\<lparr>db := d\<rparr>)"
  by (simp add: moved_def)

lemma only_balances_moved: "only_balances w w' \<Longrightarrow> held w' = held w \<Longrightarrow> moved k w w'"
  by (simp add: only_balances_def moved_def still_def touches_same)

text \<open>The record a handler holds of a stored request: the stored one, up to a renamed key.\<close>

definition holds :: "request \<Rightarrow> database \<Rightarrow> bool" where
  "holds r d = (\<exists>r0 \<in> set (requests d). kept r r0)"

lemma holdsI: "r \<in> set (requests d) \<Longrightarrow> holds r d"
  unfolding holds_def using kept_refl by blast

lemma touches_settle:
  assumes inv: "db_inv E n d" and r: "holds r d"
    and rs: "requests d' = upsert_by r_id r' (requests d)"
    and r': "r_id r' = r_id r" "request_key r' = request_key r"
    and ox: "\<And>j. j \<noteq> r_id r \<Longrightarrow> rows_of j d' = rows_of j d"
  shows "touches_only (request_key r) d d'"
proof (rule touches_save[OF rs r'(2)])
  obtain r0 where r0: "r0 \<in> set (requests d)" "kept r r0" using r by (auto simp: holds_def)
  have dist: "distinct (map r_id (requests d))" using db_invD(2)[OF inv] by (simp add: keys_distinct_def)
  fix s assume "s \<in> set (requests d)" "r_id s = r_id r'"
  then have "s = r0" using key_unique[OF dist _ r0(1)] kept_same(1)[OF r0(2)] r'(1) by simp
  then show "request_key s = request_key r" using kept_same(2)[OF r0(2)] by simp
qed (use ox r' in simp)

lemma status_keeps_key [simp]:
  "request_key (r\<lparr>status := s\<rparr>) = request_key r" "request_key (r\<lparr>hcmAckAt := a\<rparr>) = request_key r"
  "request_key (r\<lparr>committedAt := c\<rparr>) = request_key r" "request_key (r\<lparr>r_id := i\<rparr>) = request_key r"
  by (simp_all add: request_key_def)

lemma rows_simps [simp]:
  "rows_of j (set_request r d) = rows_of j d" "rows_of j (change_balance f k d) = rows_of j d"
  by (simp_all add: rows_of_def)

text \<open>A row that is new, or replaces a row of the same request.\<close>

lemma rows_of_saved:
  assumes "db_inv E n d" "x \<in> set (outbox d)" "o_id x' = o_id x" "aggregateId x' = aggregateId x"
    "j \<noteq> aggregateId x" "outbox d' = outbox d"
  shows "rows_of j (set_outbox x' d') = rows_of j d"
proof -
  have "aggregateId y = aggregateId x'" if "y \<in> set (outbox d')" "o_id y = o_id x'" for y
    using key_unique[OF db_inv_outbox_ids(1)[OF assms(1)], of y x] assms that by simp
  then have "rows_of j (set_outbox x' d') = rows_of j d'"
    using assms(4,5) by (intro rows_set_outbox[where x = x']) simp_all
  then show ?thesis by (simp add: rows_of_def assms(6))
qed

lemma rows_of_inserted:
  assumes "inj (uuid E)" "db_inv E n d" "o_id x = uuid E n" "j \<noteq> aggregateId x"
    and "\<And>y. y \<in> set (outbox d') \<Longrightarrow> aggregateId y = aggregateId x \<or> y \<in> set (outbox d)"
  shows "rows_of j (set_outbox x d') = rows_of j d'"
proof (rule rows_set_outbox[where x = x])
  fix y assume y: "y \<in> set (outbox d')" "o_id y = o_id x"
  have "y \<notin> set (outbox d)"
    using fresh_id(2)[OF assms(1,2)] y(2) assms(3) by (metis imageI)
  with assms(5)[OF y(1)] show "aggregateId y = aggregateId x" by blast
qed (use assms in simp_all)

lemma inserted_aggregate [simp]: "aggregateId ((buildOutboxRow r op)\<lparr>o_id := i, o_createdAt := t\<rparr>) = r_id r"
  by (simp add: buildOutboxRow_def)

lemma world_invD:
  assumes "world_inv E w"
  shows "db_inv E (uuidNext w) (db w)" "sole_writer w"
  using assms by (simp_all add: world_inv_def)

lemma moved_release_and_reject:
  assumes inv: "world_inv E w" and r: "holds r (db w)"
  shows "spec (release_and_reject r) (\<lambda>_. moved (request_key r) w) (moved (request_key r) w) w"
  unfolding release_and_reject_def
  by (rule moved_tx, intro spec_rules)
    (use world_invD[OF inv] in \<open>auto intro!: moved_db touches_settle[OF world_invD(1)[OF inv] r]\<close>)

lemma moved_restore_and_void:
  assumes inv: "world_inv E w" and r: "holds r (db w)" "r_id r' = r_id r" "request_key r' = request_key r"
  shows "spec (andThen (restore_and_void r) (\<lambda>_. andThen (save_request r') (\<lambda>_. return r')))
     (\<lambda>_. moved (request_key r) w) (still w) w"
  unfolding restore_and_void_def
  by (intro spec_rules) (use world_invD[OF inv] r(2,3) in
    \<open>auto intro!: moved_db touches_settle[OF world_invD(1)[OF inv] r(1)] simp: rows_void_files\<close>)

lemma moved_release:
  assumes inv: "world_inv E w" and r: "holds r (db w)" "r_id r' = r_id r" "request_key r' = request_key r"
  shows "spec (andThen (release (r_employeeId r) (r_locationId r) (days r)) (\<lambda>_.
      andThen (save_request r') (\<lambda>_. return r'))) (\<lambda>_. moved (request_key r) w) (still w) w"
  by (intro spec_rules) (use world_invD[OF inv] r(2,3) in
    \<open>auto intro!: moved_db touches_settle[OF world_invD(1)[OF inv] r(1)]\<close>)

lemma moved_release_and_void:
  assumes inv: "world_inv E w" and r: "holds r (db w)" "r_id r' = r_id r" "request_key r' = request_key r"
  shows "spec (andThen (andThen (release (r_employeeId r) (r_locationId r) (days r))
      (\<lambda>_. voidPendingFileRows (r_id r))) (\<lambda>_. andThen (save_request r') (\<lambda>_. return r')))
     (\<lambda>_. moved (request_key r) w) (still w) w"
  by (intro spec_rules) (use world_invD[OF inv] r(2,3) in
    \<open>auto intro!: moved_db touches_settle[OF world_invD(1)[OF inv] r(1)] simp: rows_void_files\<close>)

lemma moved_commit_and_enqueue:
  assumes inv: "world_inv E w" and inj: "inj (uuid E)" and r: "holds r (db w)"
  shows "spec (commit_and_enqueue E r t) (\<lambda>_. moved (request_key r) w) (moved (request_key r) w) w"
proof -
  let ?r = "r\<lparr>committedAt := Some t, status := RequestStatus.PENDING_SYNC\<rparr>"
  have "rows_of j (set_outbox ((buildOutboxRow ?r FILE)\<lparr>o_id := uuid E (uuidNext w), o_createdAt := u\<rparr>)
          (change_balance f k (db w))) = rows_of j (db w)" if "j \<noteq> r_id r" for j u f k
    using rows_of_inserted[OF inj world_invD(1)[OF inv], where d' = "change_balance f k (db w)"] that by simp
  then show ?thesis
    unfolding commit_and_enqueue_def Let_def
    by (intro moved_tx spec_rules) (use world_invD[OF inv] in
      \<open>auto intro!: moved_db touches_settle[OF world_invD(1)[OF inv] r]\<close>)
qed

lemma moved_cancel_effect:
  assumes inv: "world_inv E w" and inj: "inj (uuid E)" and r: "holds r (db w)"
    and r': "r_id r' = r_id r" "request_key r' = request_key r"
  shows "spec (andThen (cancel_effect E r) (\<lambda>_. andThen (save_request r') (\<lambda>_. return r')))
     (\<lambda>_. moved (request_key r) w) (still w) w"
proof -
  have new: "rows_of j (set_outbox ((buildOutboxRow r REVERSE)\<lparr>o_id := uuid E (uuidNext w), o_createdAt := u\<rparr>)
          (change_balance f k (db w))) = rows_of j (db w)" if "j \<noteq> r_id r" for j u f k
    using rows_of_inserted[OF inj world_invD(1)[OF inv], where d' = "change_balance f k (db w)"] that by simp
  show ?thesis
    unfolding cancel_effect_def restore_and_reverse_def findFileRow_def Let_def
    by (intro spec_rules) (use world_invD[OF inv] r' new in
      \<open>auto intro!: moved_db touches_settle[OF world_invD(1)[OF inv] r] simp: rows_void_files\<close>)
qed

lemma moved_balance:
  assumes "sole_writer w"
  shows "spec (andThen (findOrCreate e l) (\<lambda>b. saveWithRetry b f)) (\<lambda>_. moved k w) (moved k w) w"
  by (rule spec_change[OF assms]) (simp_all add: moved_db touches_same)

lemma moved_applyHcmSnapshot:
  assumes "sole_writer w"
  shows "spec (applyHcmSnapshot s) (\<lambda>_. moved k w) (moved k w) w"
  unfolding applyHcmSnapshot_def by (rule moved_balance[OF assms])

text \<open>A read under the balance's own lock: warm, or it waits for itself.\<close>

lemma moved_getBalance:
  assumes "sole_writer w" "balanceKey e l \<in> set (held w)"
  shows "spec (getBalance E e l) (\<lambda>_. moved k w) (moved k w) w"
  unfolding getBalance_def
  by (intro spec_andThen spec_findBalance spec_if spec_return spec_option spec_save_balance assms)
    (use assms in \<open>auto simp: moved_db touches_same spec_def runExclusive_def\<close>)

lemma moved_validateAvailability:
  assumes "sole_writer w" "balanceKey e l \<in> set (held w)"
  shows "spec (validateAvailability E e l n) (\<lambda>_. moved k w) (moved k w) w"
  unfolding validateAvailability_def
  by (rule spec_andThen, rule spec_mono[OF moved_getBalance[OF assms, where E = E and k = k]])
    (auto intro!: spec_rules split: option.splits prod.splits)

lemma touches_new:
  assumes "i \<notin> r_id ` set (requests d)" "outbox d' = outbox d"
    "requests d' = upsert_by r_id (req\<lparr>r_id := i\<rparr>) (requests d)"
  shows "touches_only (request_key req) d d'"
proof (rule touches_save[OF assms(3)])
  fix s assume "s \<in> set (requests d)" "r_id s = r_id (req\<lparr>r_id := i\<rparr>)"
  then have "i \<in> r_id ` set (requests d)" by auto
  with assms(1) show "request_key s = request_key req" by simp
qed (simp_all add: rows_of_def assms(2))

lemma moved_create_body:
  assumes "sole_writer w" "uuid E (uuidNext w) \<notin> r_id ` set (requests (db w))"
  shows "spec (andThen (fresh_uuid E) (\<lambda>i.
        andThen (save_request (req\<lparr>r_id := i\<rparr>)) (\<lambda>_.
        andThen (reserve (r_employeeId req) (r_locationId req) (days req)) (\<lambda>_.
        return (req\<lparr>r_id := i\<rparr>))))) (\<lambda>_. moved (request_key req) w) (still w) w"
  by (intro spec_rules) (use assms(1) in \<open>auto intro!: moved_db touches_new[OF assms(2)]\<close>)

text \<open>The record of the earlier request under the same key, read when the handler began.\<close>

definition recalls :: "request option \<Rightarrow> database \<Rightarrow> bool" where
  "recalls existing d = (\<forall>r. existing = Some r \<longrightarrow>
     (\<exists>r0 \<in> set (requests d). r_id r0 = r_id r \<and> status r0 = status r))"

lemma moved_create_and_reserve:
  assumes inv: "world_inv E w" and inj: "inj (uuid E)" and ex: "recalls existing (db w)"
  shows "spec (create_and_reserve E existing req) (\<lambda>_. moved (request_key req) w)
     (moved (request_key req) w) w"
  unfolding create_and_reserve_def
proof (rule moved_tx, rule spec_andThen)
  let ?Q = "\<lambda>_. moved (request_key req) w"
  let ?body = "andThen (fresh_uuid E) (\<lambda>i.
        andThen (save_request (req\<lparr>r_id := i\<rparr>)) (\<lambda>_.
        andThen (reserve (r_employeeId req) (r_locationId req) (days req)) (\<lambda>_.
        return (req\<lparr>r_id := i\<rparr>))))"
  note d = world_invD[OF inv]
  note new = fresh_id(1)[OF inj d(1)]
  have same: "spec ?body ?Q (still w) w" by (rule moved_create_body[OF d(2) new])
  have renamed: "spec ?body ?Q (still w) ((drop_fault w)\<lparr>db := rename_key r (db w)\<rparr>)"
    if r: "existing = Some r" "status r \<in> TERMINAL_STATUSES" for r
  proof -
    let ?w = "(drop_fault w)\<lparr>db := rename_key r (db w)\<rparr>"
    obtain r0 where r0: "r0 \<in> set (requests (db w))" "r_id r0 = r_id r" "status r0 \<in> TERMINAL_STATUSES"
      using ex r by (auto simp: recalls_def)
    have "touches_only (request_key req) (db w) (db ?w)"
      using touches_rename[OF _ r0] db_invD(2)[OF d(1)] by (simp add: keys_distinct_def)
    then have m: "moved (request_key req) w ?w" by (simp add: moved_def)
    have "r_id ` set (requests (rename_key r (db w))) = r_id ` set (requests (db w))"
      by (rule rename_key_image) simp
    then have "spec ?body (\<lambda>_. moved (request_key req) ?w) (still ?w) ?w"
      using d(2) new by (intro moved_create_body) simp_all
    then show ?thesis
      by (rule spec_mono) (use moved_trans[OF m] in \<open>auto simp: still_def\<close>)
  qed
  show "spec (case existing of None \<Rightarrow> return ()
          | Some old \<Rightarrow> if status old \<in> TERMINAL_STATUSES then free_terminal_key old else return ())
        (\<lambda>_. spec ?body ?Q (still w)) (still w) w"
    by (intro spec_option spec_if spec_return spec_free_terminal_key same renamed) simp_all
qed

lemma moved_create_block:
  assumes inv: "world_inv E w" and inj: "inj (uuid E)" and ex: "recalls existing (db w)"
  shows "spec (create_block E e l s d key existing n) (\<lambda>_. moved (balanceKey e l) w) (moved (balanceKey e l) w) w"
  unfolding create_block_def
proof (intro spec_andThen spec_now spec_fresh_uuid)
  let ?w = "w\<lparr>uuidNext := Suc (uuidNext w)\<rparr>"
  let ?req = "new_request E e l s d key n (clock w) (uuid E (uuidNext w))"
  have "world_inv E ?w"
    using inv by (auto simp: world_inv_def intro: db_inv_mono[OF _ le_SucI[OF order_refl]])
  then have "spec (create_and_reserve E existing ?req) (\<lambda>_. moved (request_key ?req) ?w)
      (moved (request_key ?req) ?w) ?w"
    by (rule moved_create_and_reserve[OF _ inj]) (use ex in simp)
  moreover have "request_key ?req = balanceKey e l" by (simp add: request_key_def new_request_def)
  ultimately show "spec (create_and_reserve E existing ?req) (\<lambda>_. moved (balanceKey e l) w)
      (moved (balanceKey e l) w) ?w"
    by (auto elim!: spec_mono simp: moved_def still_def)
qed

section \<open>The dispatcher and the batch\<close>

lemma moved_begin_attempt:
  assumes inv: "world_inv E w"
    and k: "\<And>x r. x \<in> set (outbox (db w)) \<Longrightarrow> o_id x = i \<Longrightarrow> r \<in> set (requests (db w)) \<Longrightarrow>
      r_id r = aggregateId x \<Longrightarrow> request_key r = k"
  shows "spec (begin_attempt i) (\<lambda>_. moved k w) (moved k w) w"
  unfolding begin_attempt_def findOutbox_def
proof (intro moved_tx spec_andThen spec_query spec_option spec_if spec_return)
  fix x assume found: "List.find (\<lambda>x. o_id x = i) (outbox (db w)) = Some x"
  note x = find_row[OF found]
  have row: "touches_only k (db w) (set_outbox x' (db w))"
    if "o_id x' = o_id x" "aggregateId x' = aggregateId x" for x'
  proof (rule touches_rows[where i = "aggregateId x"])
    show "rows_of j (set_outbox x' (db w)) = rows_of j (db w)" if "j \<noteq> aggregateId x" for j
      using rows_of_saved[OF world_invD(1)[OF inv] x(1) \<open>o_id x' = _\<close> \<open>aggregateId x' = _\<close> that refl] .
  qed (use k x in auto)
  show "spec (findRequest (aggregateId x)) (\<lambda>r. spec (case r of
            None \<Rightarrow> andThen (save_outbox (x\<lparr>o_status := FAILED\<rparr>)) (\<lambda>_. return None)
          | Some req \<Rightarrow> andThen (save_outbox (x\<lparr>attempts := attempts x + 1\<rparr>))
              (\<lambda>_. return (Some (x\<lparr>attempts := attempts x + 1\<rparr>, req)))) (\<lambda>_. moved k w) (still w)) (still w) w"
    unfolding findRequest_def by (intro spec_rules) (auto intro!: moved_db row)
qed simp_all

lemma moved_finish_attempt:
  assumes inv: "world_inv E w" and inj: "inj (uuid E)" and r: "holds r (db w)"
    and x: "x \<in> set (outbox (db w))" "aggregateId x = r_id r"
  shows "spec (finish_attempt E x r outcome) (\<lambda>_. moved (request_key r) w) (moved (request_key r) w) w"
proof -
  note d = world_invD[OF inv]
  have saved: "rows_of j (set_outbox x' d') = rows_of j (db w)"
    if "j \<noteq> r_id r" "o_id x' = o_id x" "aggregateId x' = aggregateId x" "outbox d' = outbox (db w)" for j x' d'
    using rows_of_saved[OF d(1) x(1) that(2,3) _ that(4)] x(2) that(1) by simp
  have row: "touches_only (request_key r) (db w) (set_outbox x' (db w))"
    if "o_id x' = o_id x" "aggregateId x' = aggregateId x" for x'
  proof (rule touches_rows[where i = "r_id r"])
    fix s assume s: "s \<in> set (requests (db w))" "r_id s = r_id r"
    obtain r0 where r0: "r0 \<in> set (requests (db w))" "kept r r0" using r by (auto simp: holds_def)
    have "s = r0"
      using key_unique[of r_id "requests (db w)" s r0] db_invD(2)[OF d(1)] s r0(1) kept_same(1)[OF r0(2)]
      by (simp add: keys_distinct_def)
    then show "request_key s = request_key r" using kept_same(2)[OF r0(2)] by simp
  qed (use saved that in simp_all)
  have new: "rows_of j (set_outbox ((buildOutboxRow r op)\<lparr>o_id := uuid E (uuidNext w), o_createdAt := u\<rparr>) d')
      = rows_of j (db w)"
    if "j \<noteq> r_id r" "outbox d' = upsert_by o_id x' (outbox (db w))" "o_id x' = o_id x"
      "aggregateId x' = aggregateId x" for j op u d' x'
  proof -
    have "rows_of j (set_outbox ((buildOutboxRow r op)\<lparr>o_id := uuid E (uuidNext w), o_createdAt := u\<rparr>) d') = rows_of j d'"
      by (rule rows_of_inserted[OF inj d(1)]) (use that x(2) in \<open>auto simp: set_upsert\<close>)
    also have "rows_of j d' = rows_of j (set_outbox x' (db w))" by (simp add: rows_of_def that(2))
    also have "\<dots> = rows_of j (db w)" by (rule saved) (use that in simp_all)
    finally show ?thesis .
  qed
  show ?thesis
    unfolding finish_attempt_def
  proof (rule moved_tx, cases outcome)
    case None
    show "spec (case outcome of None \<Rightarrow> record_failure E x r | Some a \<Rightarrow> record_success x r a)
        (\<lambda>_. moved (request_key r) w) (still w) w"
      unfolding record_failure_def None option.case
      by (intro spec_rules) (use d in \<open>auto intro!: moved_db row touches_settle[OF d(1) r] new\<close>)
  next
    case (Some a)
    show "spec (case outcome of None \<Rightarrow> record_failure E x r | Some a \<Rightarrow> record_success x r a)
        (\<lambda>_. moved (request_key r) w) (still w) w"
      unfolding record_success_def Let_def Some option.case
      by (intro spec_rules) (use d in \<open>auto intro!: moved_db touches_settle[OF d(1) r] saved\<close>)
  qed
qed

lemma moved_reconcile:
  assumes "sole_writer w"
  shows "spec (transaction (reconcileBalance E entry asOf)) (\<lambda>_. moved k w) (moved k w) w"
  unfolding reconcileBalance_def check_date_def Let_def
  by (intro moved_tx spec_rules) (use assms in \<open>auto intro!: moved_db touches_same\<close>)

end
