(* ===== verification/Unit_Runs.thy ===== *)
theory Unit_Runs
  imports Frames
begin

text \<open>
  Every critical section is \<open>fine\<close> under interference: as long as the others keep the database
  invariant, only evolve rows along the life cycle and leave the requests of this balance alone,
  each block of it keeps the invariant, evolves rows the same way and touches its own balance only.
\<close>

definition live :: "'h env \<Rightarrow> string \<Rightarrow> 'h world \<Rightarrow> bool" where
  "live E k w = (world_inv E w \<and> k \<in> set (held w))"

definition others :: "'h env \<Rightarrow> string \<Rightarrow> 'h world \<Rightarrow> 'h world \<Rightarrow> bool" where
  "others E k w w' =
     (live E k w' \<and> keeps k (db w) (db w') \<and> lifecycle (db w) (db w') \<and> uuidNext w \<le> uuidNext w')"

definition ours :: "'h env \<Rightarrow> string \<Rightarrow> 'h world \<Rightarrow> 'h world \<Rightarrow> bool" where
  "ours E k w w' = (live E k w' \<and> safe E False (db w) w' \<and> moved k w w')"

interpretation unit: interference "live E k" "others E k" "ours E k" for E k
  by unfold_locales (auto simp: others_def ours_def intro: keeps_trans lifecycle_trans)

abbreviation fine_unit :: "'h env \<Rightarrow> string \<Rightarrow> ('a, 'h) run \<Rightarrow> 'h world \<Rightarrow> bool" where
  "fine_unit E k \<equiv> fine (others E k) (ours E k) (\<lambda>_ _. True) (\<lambda>_. True)"

section \<open>Blocks\<close>

lemma liveD:
  assumes "live E k w"
  shows "world_inv E w" "sole_writer w" "k \<in> set (held w)" "safe E False (db w) w"
  using assms by (simp_all add: live_def world_inv_def safe_def)

lemma othersD:
  assumes "others E k w w'"
  shows "live E k w'" "keeps k (db w) (db w')" "lifecycle (db w) (db w')"
  using assms by (simp_all add: others_def)

lemma spec_conj:
  "spec m Q F w \<Longrightarrow> spec m Q' F' w \<Longrightarrow> spec m (\<lambda>x w'. Q x w' \<and> Q' x w') (\<lambda>w'. F w' \<and> F' w') w"
  by (auto simp: spec_def split: prod.splits outcome.splits)

lemma ours_refl: "live E k w \<Longrightarrow> ours E k w w"
  using liveD[of E k w] by (simp add: ours_def)

lemma spec_ours:
  assumes "live E k w" "spec m (\<lambda>_. safe E False (db w)) (safe E False (db w)) w"
    and "spec m (\<lambda>_. moved k w) (moved k w) w"
  shows "spec m (\<lambda>_. ours E k w) (ours E k w) w"
  by (rule spec_mono[OF spec_conj[OF assms(2,3)]])
    (use liveD[OF assms(1)] in \<open>auto simp: ours_def live_def safe_def moved_def still_def\<close>)

text \<open>A last block, and a block with no other result than that it moved its balance.\<close>

lemma fine_last:
  assumes "\<And>w1. others E k w w1 \<Longrightarrow> spec m (\<lambda>_. ours E k w1) (ours E k w1) w1"
  shows "fine_unit E k (block m) w"
  by (rule unit.fine_block) (use assms in simp)

lemma fine_query:
  assumes "\<And>w1 w2. others E k w w1 \<Longrightarrow> others E k w1 w2 \<Longrightarrow> Q (q (db w1)) w2"
  shows "fine (others E k) (ours E k) Q F (block (query q)) w"
  by (rule unit.fine_block, rule spec_query) (use assms ours_refl othersD(1) in blast)

lemma fine_now:
  assumes "\<And>w1 w2. others E k w w1 \<Longrightarrow> others E k w1 w2 \<Longrightarrow> Q (clock w1) w2"
  shows "fine (others E k) (ours E k) Q F (block now) w"
  by (rule unit.fine_block, rule spec_now) (use assms ours_refl othersD(1) in blast)

lemma others_trans: "others E k a b \<Longrightarrow> others E k b c \<Longrightarrow> others E k a c"
  by (rule unit.rely_trans)

section \<open>What interference cannot take away\<close>

lemma kept_stays:
  assumes "others E k w w'" "r \<in> set (requests (db w))" "request_key r = k"
  shows "holds r (db w')" "status r \<notin> TERMINAL_STATUSES \<Longrightarrow> r \<in> set (requests (db w'))"
    "rows_of (r_id r) (db w') = rows_of (r_id r) (db w)"
proof -
  obtain r' where r': "r' \<in> set (requests (db w'))" "kept r r'"
    using othersD(2)[OF assms(1)] assms(2,3) unfolding keeps_def by blast
  then show "holds r (db w')" by (auto simp: holds_def)
  show "status r \<notin> TERMINAL_STATUSES \<Longrightarrow> r \<in> set (requests (db w'))"
    using r' kept_active by metis
  show "rows_of (r_id r) (db w') = rows_of (r_id r) (db w)"
    using othersD(2)[OF assms(1)] assms(2,3) unfolding keeps_def by blast
qed

text \<open>The request of an identifier keeps its balance.\<close>

definition owned :: "string \<Rightarrow> string \<Rightarrow> database \<Rightarrow> bool" where
  "owned i k d = (\<exists>r \<in> set (requests d). r_id r = i \<and> request_key r = k)"

lemma owned_stays:
  assumes "lifecycle d d'" "owned i k d"
  shows "owned i k d'"
proof -
  obtain r where r: "r \<in> set (requests d)" "r_id r = i" "request_key r = k"
    using assms(2) by (auto simp: owned_def)
  then obtain r' where "r' \<in> set (requests d')" "request_evolves r r'"
    using assms(1) unfolding lifecycle_def all_evolve_def by blast
  then show ?thesis
    using r by (auto simp: owned_def request_evolves_def same_identity_def key_of_def request_key_def)
qed

lemma owned_key:
  assumes "world_inv E w" "owned i k (db w)" "r \<in> set (requests (db w))" "r_id r = i"
  shows "request_key r = k"
proof -
  obtain r0 where "r0 \<in> set (requests (db w))" "r_id r0 = i" "request_key r0 = k"
    using assms(2) by (auto simp: owned_def)
  then show ?thesis
    using key_unique[of r_id "requests (db w)" r r0] db_invD(2)[OF world_invD(1)[OF assms(1)]] assms(3,4)
    by (simp add: keys_distinct_def)
qed

text \<open>Loading the request of a unit.\<close>

lemma fine_found:
  assumes live: "live E k w" and own: "owned i k (db w)"
    and f: "\<And>r w1 w2. others E k w w1 \<Longrightarrow> others E k w1 w2 \<Longrightarrow> r \<in> set (requests (db w1)) \<Longrightarrow>
      request_key r = k \<Longrightarrow> fine_unit E k (f r) w2"
  shows "fine_unit E k (bind (block (findRequest i)) (\<lambda>found. case found of None \<Rightarrow> fail e | Some r \<Rightarrow> f r)) w"
proof (rule unit.fine_bind[OF _ live], unfold findRequest_def, rule fine_query)
  fix w1 w2 assume w: "others E k w w1" "others E k w1 w2"
  show "fine_unit E k (case List.find (\<lambda>r. r_id r = i) (requests (db w1)) of None \<Rightarrow> fail e | Some r \<Rightarrow> f r) w2"
  proof (cases "List.find (\<lambda>r. r_id r = i) (requests (db w1))")
    case (Some r)
    then have r: "r \<in> set (requests (db w1))" "r_id r = i" using find_Some_in[OF Some] by simp_all
    have "request_key r = k"
      using owned_key[OF liveD(1)[OF othersD(1)[OF w(1)]] owned_stays[OF othersD(3)[OF w(1)] own] r] .
    with f[OF w r(1)] Some show ?thesis by simp
  qed simp
qed

lemma fine_guard: "(\<not> b \<Longrightarrow> fine_unit E k r w) \<Longrightarrow> fine_unit E k (if b then fail e else r) w"
  by simp

section \<open>The units that settle a request\<close>

text \<open>The settling transaction, run on the request as it was loaded.\<close>

lemma fine_settle:
  assumes w: "others E k w1 w2" and r: "r \<in> set (requests (db w1))" "request_key r = k"
    "status r \<notin> TERMINAL_STATUSES"
    and safe: "\<And>w3. safe E False (db w3) w3 \<Longrightarrow> r \<in> set (requests (db w3)) \<Longrightarrow>
      spec m (\<lambda>_. safe E False (db w3)) (safe E False (db w3)) w3"
    and moved: "\<And>w3. world_inv E w3 \<Longrightarrow> holds r (db w3) \<Longrightarrow>
      spec m (\<lambda>_. moved (request_key r) w3) (moved (request_key r) w3) w3"
  shows "fine_unit E k (block m) w2"
proof (rule fine_last)
  fix w3 assume "others E k w2 w3"
  with w have w3: "others E k w1 w3" by (rule others_trans)
  note l = othersD(1)[OF w3]
  note stays = kept_stays[OF w3 r(1,2)]
  show "spec m (\<lambda>_. ours E k w3) (ours E k w3) w3"
    by (rule spec_ours[OF l safe[OF liveD(4)[OF l] stays(2)[OF r(3)]]])
      (use moved[OF liveD(1)[OF l] stays(1)] r(2) in simp)
qed

lemma fine_reject:
  assumes "live E k w" "owned i k (db w)"
  shows "fine_unit E k (reject_run i) w"
  unfolding reject_run_def
proof (intro fine_found[OF assms] fine_guard)
  fix r w1 w2
  assume w: "others E k w1 w2" and r: "r \<in> set (requests (db w1))" "request_key r = k"
    and st: "\<not> (status r \<noteq> RequestStatus.PENDING \<and> status r \<noteq> RequestStatus.PENDING_SYNC)"
  show "fine_unit E k (block (transaction
             (andThen (if status r = RequestStatus.PENDING
                       then release (r_employeeId r) (r_locationId r) (days r)
                       else restore_and_void r) (\<lambda>_.
              andThen (save_request (r\<lparr>status := RequestStatus.REJECTED\<rparr>)) (\<lambda>_.
              return (r\<lparr>status := RequestStatus.REJECTED\<rparr>)))))) w2"
  proof (rule fine_settle[OF w r _ spec_reject_tx])
    show "status r \<notin> TERMINAL_STATUSES" using st by (auto simp: TERMINAL_STATUSES_def)
  qed (use st in \<open>auto intro!: moved_tx moved_release moved_restore_and_void\<close>)
qed

lemma fine_expire:
  assumes "live E k w" "owned i k (db w)"
  shows "fine_unit E k (expire_run i) w"
  unfolding expire_run_def
proof (intro fine_found[OF assms] fine_guard)
  fix r w1 w2
  assume w: "others E k w1 w2" and r: "r \<in> set (requests (db w1))" "request_key r = k"
    and st: "\<not> (status r \<noteq> RequestStatus.PENDING \<and> status r \<noteq> RequestStatus.PENDING_SYNC)"
  show "fine_unit E k (block (transaction
             (andThen (if status r = RequestStatus.PENDING
                       then andThen (release (r_employeeId r) (r_locationId r) (days r))
                              (\<lambda>_. voidPendingFileRows (r_id r))
                       else restore_and_void r) (\<lambda>_.
              andThen (save_request (r\<lparr>status := RequestStatus.EXPIRED\<rparr>)) (\<lambda>_.
              return (r\<lparr>status := RequestStatus.EXPIRED\<rparr>)))))) w2"
  proof (rule fine_settle[OF w r _ spec_expire_tx])
    show "status r \<notin> TERMINAL_STATUSES" using st by (auto simp: TERMINAL_STATUSES_def)
  qed (use st in \<open>auto intro!: moved_tx moved_release_and_void moved_restore_and_void\<close>)
qed

lemma fine_cancel:
  assumes "live E k w" "owned i k (db w)" and inj: "inj (uuid E)"
  shows "fine_unit E k (cancel_run E i) w"
  unfolding cancel_run_def
proof (intro fine_found[OF assms(1,2)])
  fix r w1 w2
  assume w: "others E k w1 w2" and r: "r \<in> set (requests (db w1))" "request_key r = k"
  let ?tx = "transaction
             (andThen (cancel_effect E r) (\<lambda>_.
              andThen (save_request (r\<lparr>status := RequestStatus.CANCELLED\<rparr>)) (\<lambda>_.
              return (r\<lparr>status := RequestStatus.CANCELLED\<rparr>))))"
  have "fine_unit E k (block ?tx) w2"
    if st: "status r \<in> {RequestStatus.PENDING, RequestStatus.PENDING_SYNC, RequestStatus.APPROVED}"
  proof (rule fine_settle[OF w r _ spec_cancel_tx[OF _ inj]])
    show "status r \<notin> TERMINAL_STATUSES" using st by (auto simp: TERMINAL_STATUSES_def)
  qed (use st in \<open>auto intro!: moved_tx moved_cancel_effect inj\<close>)
  then show "fine_unit E k (if status r = RequestStatus.CANCELLED then give r
         else if status r \<noteq> RequestStatus.PENDING \<and> status r \<noteq> RequestStatus.PENDING_SYNC
                 \<and> status r \<noteq> RequestStatus.APPROVED
         then fail (BadRequestException (Cannot_cancel (status r))) else block ?tx) w2"
    by auto
qed

section \<open>approve\<close>

lemma fine_keeping:
  assumes m: "\<And>w1. others E k w w1 \<Longrightarrow>
      spec m (\<lambda>x w'. ours E k w1 w' \<and> P x w') (\<lambda>w'. ours E k w1 w' \<and> P' w') w1"
    and st: "\<And>x w1 w2. P x w1 \<Longrightarrow> others E k w1 w2 \<Longrightarrow> Q x w2" "\<And>w1 w2. P' w1 \<Longrightarrow> others E k w1 w2 \<Longrightarrow> F w2"
  shows "fine (others E k) (ours E k) Q F (block m) w"
  by (rule unit.fine_block, rule spec_mono[OF m]) (use st in blast)+

lemma spec_snapshot:
  assumes "safe E False d0 w"
  shows "spec (applyHcmSnapshot s) (\<lambda>_ w'. safe E False d0 w' \<and> only_balances w w')
           (\<lambda>w'. safe E False d0 w' \<and> only_balances w w') w"
  by (rule spec_applyHcmSnapshot) (use assms safeD[OF assms] in
    \<open>auto intro: snapshot_safe[OF assms] simp: only_balances_def\<close>)

text \<open>A block that changes balance rows only.\<close>

lemma spec_ours_balances:
  assumes l: "live E k w"
    and safe: "spec m (\<lambda>_ w'. safe E False (db w) w' \<and> only_balances w w')
           (\<lambda>w'. safe E False (db w) w' \<and> only_balances w w') w"
    and moved: "spec m (\<lambda>_. moved k w) (moved k w) w"
  shows "spec m (\<lambda>_ w'. ours E k w w' \<and> requests (db w') = requests (db w))
     (\<lambda>w'. ours E k w w' \<and> requests (db w') = requests (db w)) w"
  by (rule spec_mono[OF spec_conj[OF safe spec_conj[OF moved spec_ours[OF l _ moved]]]])
    (auto intro: spec_mono[OF safe] simp: only_balances_def)

lemma fine_balances:
  assumes "\<And>w1. others E k w w1 \<Longrightarrow>
      spec m (\<lambda>_ w'. safe E False (db w1) w' \<and> only_balances w1 w')
             (\<lambda>w'. safe E False (db w1) w' \<and> only_balances w1 w') w1"
    and "\<And>w1. others E k w w1 \<Longrightarrow> spec m (\<lambda>_. moved k w1) (moved k w1) w1"
    and st: "\<And>x w1 w2 w3. others E k w w1 \<Longrightarrow> requests (db w2) = requests (db w1) \<Longrightarrow> others E k w2 w3 \<Longrightarrow>
      Q x w3 \<and> F w3"
  shows "fine (others E k) (ours E k) Q F (block m) w"
proof (rule unit.fine_block)
  fix w1 assume w1: "others E k w w1"
  show "spec m (\<lambda>x w'. ours E k w1 w' \<and> (\<forall>w2. others E k w' w2 \<longrightarrow> Q x w2))
      (\<lambda>w'. ours E k w1 w' \<and> (\<forall>w2. others E k w' w2 \<longrightarrow> F w2)) w1"
    by (rule spec_mono[OF spec_ours_balances[OF othersD(1)[OF w1] assms(1,2)[OF w1 ]]]) 
      (use st[OF w1] w1 in blast)+
qed

lemma fine_call:
  assumes "\<And>x w1 w2. others E k w w1 \<Longrightarrow> others E k w1 w2 \<Longrightarrow> Q x w2 \<and> F w2"
  shows "fine (others E k) (ours E k) Q F (block (call_hcm f)) w"
proof (rule unit.fine_block)
  fix w1 assume w1: "others E k w w1"
  have hcm: "others E k w1 w2" if "others E k (w1\<lparr>hcm := h\<rparr>) w2" for h w2
    using that by (simp add: others_def)
  have "ours E k w1 (w1\<lparr>hcm := h\<rparr>)" for h
    using ours_refl[OF othersD(1)[OF w1]] by (simp add: ours_def live_def world_inv_def)
  then show "spec (call_hcm f) (\<lambda>x w'. ours E k w1 w' \<and> (\<forall>w2. others E k w' w2 \<longrightarrow> Q x w2))
      (\<lambda>w'. ours E k w1 w' \<and> (\<forall>w2. others E k w' w2 \<longrightarrow> F w2)) w1"
    using assms[OF w1] hcm by (intro spec_call_hcm) blast+
qed

text \<open>A pending request of this balance stays where it is.\<close>

definition waits :: "string \<Rightarrow> request \<Rightarrow> database \<Rightarrow> bool" where
  "waits k r d = (r \<in> set (requests d) \<and> request_key r = k \<and> status r = RequestStatus.PENDING)"

lemma waits_stays: "others E k w w' \<Longrightarrow> waits k r (db w) \<Longrightarrow> waits k r (db w')"
  using kept_stays(2) by (fastforce simp: waits_def TERMINAL_STATUSES_def)

lemma request_key_balance [simp]: "balanceKey (r_employeeId r) (r_locationId r) = request_key r"
  by (simp add: request_key_def)

lemma fine_release_and_reject:
  assumes "waits k r (db w)"
  shows "fine (others E k) (ours E k) (\<lambda>x w'. True) (\<lambda>w'. waits k r (db w')) (block (release_and_reject r)) w"
proof (rule fine_keeping[where P' = "\<lambda>w'. waits k r (db w')" and P = "\<lambda>_ _. True"])
  fix w1 assume w1: "others E k w w1"
  note l = othersD(1)[OF w1] and wt = waits_stays[OF w1 assms]
  have r: "r \<in> set (requests (db w1))" "status r = RequestStatus.PENDING" "request_key r = k"
    using wt by (simp_all add: waits_def)
  note safe = spec_release_and_reject[OF liveD(4)[OF l] r(1,2)]
  have safe': "spec (release_and_reject r) (\<lambda>_. safe E False (db w1)) (safe E False (db w1)) w1"
    by (rule spec_mono[OF safe]) simp_all
  note m = spec_ours[OF l safe' moved_release_and_reject[OF liveD(1)[OF l] holdsI[OF r(1)], unfolded r(3)]]
  show "spec (release_and_reject r) (\<lambda>x w'. ours E k w1 w' \<and> True) (\<lambda>w'. ours E k w1 w' \<and> waits k r (db w')) w1"
    by (rule spec_mono[OF spec_conj[OF m safe]]) (use wt in auto)
qed (use waits_stays in auto)

lemma fine_refresh:
  assumes l: "live E k w" and wt: "waits k r (db w)"
  shows "fine (others E k) (ours E k) (\<lambda>x w'. x = None \<longrightarrow> waits k r (db w')) (\<lambda>_. True) (refresh_run E r) w"
  unfolding refresh_run_def
proof (rule unit.fine_catch[where F' = "\<lambda>w'. waits k r (db w')", OF _ l])
  let ?Q = "\<lambda>x w'. x = None \<longrightarrow> waits k r (db w')" and ?F = "\<lambda>w'. waits k r (db w')"
  let ?fine = "fine (others E k) (ours E k)"
  have key: "request_key r = k" using wt by (simp add: waits_def)
  have check: "?fine ?Q ?F (if available b - reserved b < days r
      then bind (block (release_and_reject r)) (\<lambda>r. give (Some r)) else give None) w'"
    if w': "live E k w'" "?F w'" for b :: balance and w'
  proof -
    have "?fine ?Q ?F (bind (block (release_and_reject r)) (\<lambda>r. give (Some r))) w'"
      by (rule unit.fine_bind[OF _ w'(1)], rule unit.fine_mono[OF fine_release_and_reject[OF w'(2)]]) simp_all
    then show ?thesis using w'(2) waits_stays by auto
  qed
  let ?view = "\<lambda>v. case v of None \<Rightarrow> fail TypeError
        | Some (b, _) \<Rightarrow> if available b - reserved b < days r
            then bind (block (release_and_reject r)) (\<lambda>r. give (Some r)) else give None"
  have view: "?fine ?Q ?F (?view v) w'" if w': "live E k w'" "?F w'" for v :: balance_view and w'
    using check[OF w', of "fst (the v)"] w'(2) waits_stays by (cases v) (auto simp: case_prod_unfold)
  have unchanged: "waits k r (db w3)"
    if "waits k r (db w1)" "requests (db w2) = requests (db w1)" "others E k w2 w3" for w1 w2 w3
    using waits_stays[OF that(3)] that(1,2) by (simp add: waits_def)
  have read: "?fine ?Q ?F (bind (block (getBalance E (r_employeeId r) (r_locationId r))) ?view) w'"
    if w': "live E k w'" "?F w'" for w'
  proof (rule unit.fine_bind[OF _ w'(1)], rule fine_balances)
    fix w1 assume w1: "others E k w' w1"
    note l = othersD(1)[OF w1]
    show "spec (getBalance E (r_employeeId r) (r_locationId r)) (\<lambda>_ w'. safe E False (db w1) w' \<and> only_balances w1 w')
             (\<lambda>w'. safe E False (db w1) w' \<and> only_balances w1 w') w1"
      by (rule spec_getBalance[OF liveD(4)[OF l]])
    show "spec (getBalance E (r_employeeId r) (r_locationId r)) (\<lambda>_. moved k w1) (moved k w1) w1"
      by (rule moved_getBalance[OF liveD(2)[OF l]]) (use liveD(3)[OF l] key in simp)
  qed (use view unchanged waits_stays[OF _ w'(2)] othersD(1) in blast)
  have snap: "?fine ?Q ?F (bind (block (applyHcmSnapshot s))
      (\<lambda>_. bind (block (getBalance E (r_employeeId r) (r_locationId r))) ?view)) w'"
    if w': "live E k w'" "?F w'" for s w'
  proof (rule unit.fine_bind[OF _ w'(1)], rule fine_balances)
    fix w1 assume w1: "others E k w' w1"
    note l = othersD(1)[OF w1]
    show "spec (applyHcmSnapshot s) (\<lambda>_ w'. safe E False (db w1) w' \<and> only_balances w1 w')
             (\<lambda>w'. safe E False (db w1) w' \<and> only_balances w1 w') w1"
      by (rule spec_snapshot[OF liveD(4)[OF l]])
    show "spec (applyHcmSnapshot s) (\<lambda>_. moved k w1) (moved k w1) w1"
      by (rule moved_applyHcmSnapshot[OF liveD(2)[OF l]])
  qed (use read unchanged waits_stays[OF _ w'(2)] othersD(1) in blast)
  show "?fine ?Q ?F (bind (block (call_hcm (hcm_getBalance E (r_employeeId r) (r_locationId r))))
      (\<lambda>s. bind (block (applyHcmSnapshot s))
      (\<lambda>_. bind (block (getBalance E (r_employeeId r) (r_locationId r))) ?view))) w"
    by (rule unit.fine_bind[OF _ l], rule fine_call)
      (use snap waits_stays[OF others_trans] wt othersD(1) in blast)
  fix e w' assume w': "live E k w'" "waits k r (db w')"
  show "?fine ?Q (\<lambda>_. True) (case e of HcmUnavailableError _ \<Rightarrow> give None | _ \<Rightarrow> fail e) w'"
    by (cases e) (use waits_stays w'(2) in auto)
qed

lemma fine_approve:
  assumes l: "live E k w" and own: "owned i k (db w)" and inj: "inj (uuid E)"
  shows "fine_unit E k (approve_run E i) w"
  unfolding approve_run_def
proof (intro fine_found[OF l own] fine_guard)
  fix r w1 w2
  assume w: "others E k w1 w2" and r: "r \<in> set (requests (db w1))" "request_key r = k"
    and "\<not> status r \<noteq> RequestStatus.PENDING"
  then have wt: "waits k r (db w2)" using waits_stays[OF w] by (simp add: waits_def)
  have past: "fine_unit E k (block (release_and_reject r)) w'" if "waits k r (db w')" for w'
    by (rule unit.fine_mono[OF fine_release_and_reject[OF that]]) simp_all
  have commit: "fine_unit E k (block (andThen now (commit_and_enqueue E r))) w'" if wt: "waits k r (db w')" for w'
  proof (rule fine_last)
    fix w1 assume w1: "others E k w' w1"
    note l = othersD(1)[OF w1] and wt = waits_stays[OF w1 wt]
    have r: "r \<in> set (requests (db w1))" "status r = RequestStatus.PENDING" "request_key r = k"
      using wt by (simp_all add: waits_def)
    show "spec (andThen now (commit_and_enqueue E r)) (\<lambda>_. ours E k w1) (ours E k w1) w1"
      by (intro spec_andThen spec_now spec_ours[OF l spec_commit_and_enqueue[OF liveD(4)[OF l] inj r(1,2)]]
          moved_commit_and_enqueue[OF liveD(1)[OF l] inj holdsI[OF r(1)], unfolded r(3)])
  qed
  have go: "fine_unit E k (bind (refresh_run E r) (\<lambda>x. case x of Some rejected \<Rightarrow> give rejected
             | None \<Rightarrow> block (andThen now (\<lambda>t2. commit_and_enqueue E r t2)))) w'"
    if w': "live E k w'" "waits k r (db w')" for w'
    by (rule unit.fine_bind[OF _ w'(1)], rule unit.fine_mono[OF fine_refresh[OF w']])
      (use commit in \<open>auto split: option.split\<close>)
  show "fine_unit E k (bind (block now) (\<lambda>t.
           if str_less (startDate r) (civil_date_string t) then block (release_and_reject r)
           else
             bind (refresh_run E r) (\<lambda>r'. case r' of
               Some rejected \<Rightarrow> give rejected
             | None \<Rightarrow> block (andThen now (\<lambda>t2. commit_and_enqueue E r t2))))) w2"
  proof (rule unit.fine_bind[OF _ othersD(1)[OF w]], rule fine_now)
    fix w3 w4 assume "others E k w2 w3" "others E k w3 w4"
    then have "live E k w4" "waits k r (db w4)" using waits_stays wt othersD(1) by blast+
    then show "fine_unit E k (if str_less (startDate r) (civil_date_string (clock w3)) then block (release_and_reject r)
           else bind (refresh_run E r) (\<lambda>r'. case r' of
               Some rejected \<Rightarrow> give rejected
             | None \<Rightarrow> block (andThen now (\<lambda>t2. commit_and_enqueue E r t2)))) w4"
      using past go by simp
  qed
qed

end
