(* ===== verification/Create_Send_Runs.thy ===== *)
theory Create_Send_Runs
  imports Unit_Runs
begin

text \<open>
  Interference for the units that create requests (\<open>submit\<close>), send commands (\<open>dispatchOne\<close>) and
  change balances only (the cold read, the batch entry, the review).
\<close>

section \<open>submit\<close>

lemma recalls_stays:
  assumes "lifecycle d d'" "recalls existing d" "\<And>r. existing = Some r \<Longrightarrow> status r \<in> TERMINAL_STATUSES"
  shows "recalls existing d'"
  unfolding recalls_def
proof (intro allI impI)
  fix r assume ex: "existing = Some r"
  then obtain r0 where r0: "r0 \<in> set (requests d)" "r_id r0 = r_id r" "status r0 = status r"
    using assms(2) by (auto simp: recalls_def)
  then obtain r1 where r1: "r1 \<in> set (requests d')" "request_evolves r0 r1"
    using assms(1) unfolding lifecycle_def all_evolve_def by blast
  then have "status r1 = status r0"
    using reaches_terminal assms(3)[OF ex] r0(3) by (metis request_evolves_def)
  then show "\<exists>r0 \<in> set (requests d'). r_id r0 = r_id r \<and> status r0 = status r"
    using r0 r1 by (auto simp: request_evolves_def same_identity_def)
qed

definition clear :: "string \<Rightarrow> string \<Rightarrow> string \<Rightarrow> string \<Rightarrow> database \<Rightarrow> bool" where
  "clear e l s t d = (List.find (overlaps e l s t) (requests d) = None)"

lemma clear_stays:
  assumes "others E (balanceKey e l) w w'" "clear e l s t (db w)"
  shows "clear e l s t (db w')"
  unfolding clear_def find_None_all
proof
  fix r' assume r': "r' \<in> set (requests (db w'))"
  show "\<not> overlaps e l s t r'"
  proof
    assume ov: "overlaps e l s t r'"
    then have "request_key r' = balanceKey e l" by (simp add: overlaps_def request_key_def)
    with othersD(2)[OF assms(1)] r' obtain r where r: "r \<in> set (requests (db w))" "kept r r'"
      unfolding keeps_def by blast
    then have "overlaps e l s t r" using ov by (auto simp: kept_def overlaps_def)
    then show False using assms(2) r(1) unfolding clear_def find_None_all by blast
  qed
qed

text \<open>What \<open>submit\<close> knows between its checks and the transaction.\<close>

definition free_to_create ::
  "string \<Rightarrow> string \<Rightarrow> string \<Rightarrow> string \<Rightarrow> request option \<Rightarrow> database \<Rightarrow> bool" where
  "free_to_create e l s t existing d =
     (clear e l s t d \<and> recalls existing d
      \<and> (\<forall>r. existing = Some r \<longrightarrow> status r \<in> TERMINAL_STATUSES))"

lemma free_to_create_stays:
  assumes "others E (balanceKey e l) w w'" "free_to_create e l s t existing (db w)"
  shows "free_to_create e l s t existing (db w')"
  using clear_stays[OF assms(1)] recalls_stays[OF othersD(3)[OF assms(1)]] assms(2)
  by (simp add: free_to_create_def)

lemma spec_create_block:
  assumes s: "safe E False (db w) w" and inj: "inj (uuid E)"
    and n: "countBusinessDays startD endD {} = Inr n" "n \<noteq> 0"
    and free: "free_to_create e l startD endD existing (db w)"
  shows "spec (create_block E e l startD endD key existing n) (\<lambda>_. safe E False (db w)) (safe E False (db w)) w"
  unfolding create_block_def
proof (intro spec_andThen spec_now spec_fresh_uuid)
  let ?w = "w\<lparr>uuidNext := Suc (uuidNext w)\<rparr>"
  have "creatable E (new_request E e l startD endD key n (clock w) (uuid E (uuidNext w))) ?w"
    by (rule creatable_new_request[OF s inj n]) (use free in \<open>simp_all add: free_to_create_def clear_def\<close>)
  then show "spec (create_and_reserve E existing (new_request E e l startD endD key n (clock w) (uuid E (uuidNext w))))
      (\<lambda>_. safe E False (db w)) (safe E False (db w)) ?w"
    by (rule spec_create_and_reserve[OF safe_uuid[OF s] inj])
      (use free in \<open>auto simp: free_to_create_def recalls_def\<close>)
qed

lemma fine_create:
  assumes l: "live E (balanceKey e l) w" and inj: "inj (uuid E)"
    and n: "countBusinessDays startD endD {} = Inr n" "n \<noteq> 0"
    and free: "free_to_create e l startD endD existing (db w)"
  shows "fine_unit E (balanceKey e l) (bind (block (create_block E e l startD endD key existing n)) (\<lambda>req.
             bind (block (findRequest (r_id req))) (\<lambda>saved. give (f req saved)))) w"
proof (rule unit.fine_bind[OF _ l])
  let ?k = "balanceKey e l"
  have read: "fine_unit E ?k (bind (block (findRequest i)) (\<lambda>saved. give (f req saved))) w'"
    if "live E ?k w'" for w' and req :: request and i
    unfolding findRequest_def by (rule unit.fine_bind[OF _ that], rule fine_query) simp
  show "fine (others E ?k) (ours E ?k) (\<lambda>req. fine_unit E ?k
      (bind (block (findRequest (r_id req))) (\<lambda>saved. give (f req saved)))) (\<lambda>_. True)
      (block (create_block E e l startD endD key existing n)) w"
  proof (rule fine_keeping[where P = "\<lambda>_ _. True" and P' = "\<lambda>_. True"])
    fix w1 assume w1: "others E ?k w w1"
    note l1 = othersD(1)[OF w1] and free1 = free_to_create_stays[OF w1 free]
    have "recalls existing (db w1)" using free1 by (simp add: free_to_create_def)
    then show "spec (create_block E e l startD endD key existing n) (\<lambda>x w'. ours E ?k w1 w' \<and> True)
        (\<lambda>w'. ours E ?k w1 w' \<and> True) w1"
      using spec_ours[OF l1 spec_create_block[OF liveD(4)[OF l1] inj n free1]
          moved_create_block[OF liveD(1)[OF l1] inj]] by simp
  qed (use read othersD(1) in blast)+
qed

lemma fine_lift_result:
  assumes "\<And>n w1 w2. r = Inr n \<Longrightarrow> others E k w w1 \<Longrightarrow> others E k w1 w2 \<Longrightarrow> Q n w2"
  shows "fine (others E k) (ours E k) Q (\<lambda>_. True) (block (lift_result r)) w"
  by (rule unit.fine_block, rule spec_lift_result) (use assms ours_refl othersD(1) in blast)+

lemma fine_submit_fresh:
  assumes l: "live E (balanceKey e l) w" and inj: "inj (uuid E)" and rec: "recalls existing (db w)"
    and ended: "\<And>r. existing = Some r \<Longrightarrow> status r \<in> TERMINAL_STATUSES"
  shows "fine_unit E (balanceKey e l) (submit_fresh_run E e l startD endD key existing) w"
proof -
  let ?k = "balanceKey e l"
  let ?free = "free_to_create e l startD endD existing"
  let ?create = "\<lambda>n. bind (block (create_block E e l startD endD key existing n)) (\<lambda>req.
             bind (block (findRequest (r_id req))) (\<lambda>saved.
             give (case saved of Some s \<Rightarrow> s | None \<Rightarrow> req)))"
  let ?validate = "\<lambda>n. bind (block (validateAvailability E e l n)) (\<lambda>_. ?create n)"
  let ?dated = "\<lambda>n. bind (block now) (\<lambda>t.
           if str_less endD (civil_date_string t) then fail (BadRequestException End_in_past) else ?validate n)"
  let ?counted = "bind (block (lift_result (countBusinessDays startD endD {}))) (\<lambda>n.
         if n = 0 then fail (BadRequestException No_business_days) else ?dated n)"
  have validate: "fine_unit E ?k (?validate n) w'"
    if w': "live E ?k w'" "?free (db w')" "countBusinessDays startD endD {} = Inr n" "n \<noteq> 0" for n w'
  proof (rule unit.fine_bind[OF _ w'(1)], rule fine_balances)
    fix w1 assume w1: "others E ?k w' w1"
    note l = othersD(1)[OF w1]
    show "spec (validateAvailability E e l n) (\<lambda>_ w'. safe E False (db w1) w' \<and> only_balances w1 w')
             (\<lambda>w'. safe E False (db w1) w' \<and> only_balances w1 w') w1"
      by (rule spec_validateAvailability[OF liveD(4)[OF l]])
    show "spec (validateAvailability E e l n) (\<lambda>_. moved ?k w1) (moved ?k w1) w1"
      by (rule moved_validateAvailability[OF liveD(2,3)[OF l]])
  next
    fix x :: unit and w1 w2 w3
    assume w1: "others E ?k w' w1" "requests (db w2) = requests (db w1)" "others E ?k w2 w3"
    have "?free (db w2)"
      using free_to_create_stays[OF w1(1) w'(2)] w1(2) by (simp add: free_to_create_def clear_def recalls_def)
    then have "?free (db w3)" by (rule free_to_create_stays[OF w1(3)])
    then show "fine_unit E ?k (?create n) w3 \<and> True"
      using fine_create[OF othersD(1)[OF w1(3)] inj w'(3,4),
          where f = "\<lambda>req saved. case saved of Some s \<Rightarrow> s | None \<Rightarrow> req"] by simp
  qed
  have dated: "fine_unit E ?k (?dated n) w'"
    if w': "live E ?k w'" "?free (db w')" "countBusinessDays startD endD {} = Inr n" "n \<noteq> 0" for n w'
  proof (rule unit.fine_bind[OF _ w'(1)], rule fine_now)
    fix w1 w2 assume w: "others E ?k w' w1" "others E ?k w1 w2"
    have "?free (db w2)" by (rule free_to_create_stays[OF others_trans[OF w] w'(2)])
    from validate[OF othersD(1)[OF w(2)] this w'(3,4)]
    show "fine_unit E ?k (if str_less endD (civil_date_string (clock w1))
        then fail (BadRequestException End_in_past) else ?validate n) w2" by simp
  qed
  have counted: "fine_unit E ?k ?counted w'" if w': "live E ?k w'" "?free (db w')" for w'
  proof (rule unit.fine_bind[OF _ w'(1)], rule fine_lift_result)
    fix n w1 w2 assume n: "countBusinessDays startD endD {} = Inr n" and w: "others E ?k w' w1" "others E ?k w1 w2"
    have "?free (db w2)" by (rule free_to_create_stays[OF others_trans[OF w] w'(2)])
    from dated[OF othersD(1)[OF w(2)] this n]
    show "fine_unit E ?k (if n = 0 then fail (BadRequestException No_business_days) else ?dated n) w2" by simp
  qed
  show ?thesis
    unfolding submit_fresh_run_def findOverlapping_def
  proof (rule unit.fine_bind[OF _ l], rule fine_query)
    fix w1 w2 assume w: "others E ?k w w1" "others E ?k w1 w2"
    show "fine_unit E ?k (case List.find (overlaps e l startD endD) (requests (db w1)) of
        Some r \<Rightarrow> fail (ConflictException (Range_overlaps (r_id r))) | None \<Rightarrow> ?counted) w2"
    proof (cases "List.find (overlaps e l startD endD) (requests (db w1))")
      case None
      then have "?free (db w1)"
        using recalls_stays[OF othersD(3)[OF w(1)] rec ended] ended by (simp add: free_to_create_def clear_def)
      then show ?thesis using counted[OF othersD(1)[OF w(2)] free_to_create_stays[OF w(2)]] None by simp
    qed simp
  qed
qed

lemma stored_status:
  assumes "db_inv E n d" "r \<in> set (requests d)"
  shows "status r \<in> ACTIVE_STATUSES \<or> status r \<in> TERMINAL_STATUSES"
  using db_invD(6)[OF assms]
  by (cases "status r") (simp_all add: request_ok_def status_shape_def ACTIVE_STATUSES_def TERMINAL_STATUSES_def)

lemma fine_submit:
  assumes l: "live E (balanceKey e l) w" and inj: "inj (uuid E)"
  shows "fine_unit E (balanceKey e l) (submit_run E e l startD endD key) w"
  unfolding submit_run_def findByIdempotencyKey_def
proof (rule unit.fine_bind[OF _ l], rule fine_query)
  let ?k = "balanceKey e l"
  fix w1 w2 assume w: "others E ?k w w1" "others E ?k w1 w2"
  show "fine_unit E ?k (case List.find (\<lambda>r. idempotencyKey r = key) (requests (db w1)) of
       Some r \<Rightarrow>
         if status r \<in> ACTIVE_STATUSES
         then (if same_body r e l startD endD then give r
               else fail (UnprocessableEntityException Idempotency_body_mismatch))
         else submit_fresh_run E e l startD endD key (Some r)
     | None \<Rightarrow> submit_fresh_run E e l startD endD key None) w2"
  proof (cases "List.find (\<lambda>r. idempotencyKey r = key) (requests (db w1))")
    case None
    then show ?thesis
      using fine_submit_fresh[OF othersD(1)[OF w(2)] inj, of None] by (simp add: recalls_def)
  next
    case (Some r)
    then have r: "r \<in> set (requests (db w1))" using find_Some_in[OF Some] by simp
    have "fine_unit E ?k (submit_fresh_run E e l startD endD key (Some r)) w2"
      if "status r \<notin> ACTIVE_STATUSES"
    proof (rule fine_submit_fresh[OF othersD(1)[OF w(2)] inj])
      have t: "status r \<in> TERMINAL_STATUSES"
        using stored_status[OF world_invD(1)[OF liveD(1)[OF othersD(1)[OF w(1)]]] r] that by blast
      then show "\<And>r'. Some r = Some r' \<Longrightarrow> status r' \<in> TERMINAL_STATUSES" by simp
      have "recalls (Some r) (db w1)" using r by (auto simp: recalls_def)
      then show "recalls (Some r) (db w2)" by (rule recalls_stays[OF othersD(3)[OF w(2)]]) (use t in simp)
    qed
    with Some show ?thesis by simp
  qed
qed

section \<open>The dispatcher\<close>

text \<open>The row of an identifier belongs to a request of this balance.\<close>

definition row_owned :: "string \<Rightarrow> string \<Rightarrow> database \<Rightarrow> bool" where
  "row_owned i k d = (\<exists>x \<in> set (outbox d). o_id x = i \<and> owned (aggregateId x) k d)"

lemma row_owned_stays:
  assumes "lifecycle d d'" "row_owned i k d"
  shows "row_owned i k d'"
proof -
  obtain x where x: "x \<in> set (outbox d)" "o_id x = i" "owned (aggregateId x) k d"
    using assms(2) by (auto simp: row_owned_def)
  then obtain x' where "x' \<in> set (outbox d')" "row_evolves x x'"
    using assms(1) unfolding lifecycle_def all_evolve_def by blast
  then show ?thesis
    using x owned_stays[OF assms(1)] by (auto simp: row_owned_def row_evolves_def)
qed

lemma row_owned_key:
  assumes inv: "world_inv E w" and own: "row_owned i k (db w)"
    and x: "x \<in> set (outbox (db w))" "o_id x = i" and r: "r \<in> set (requests (db w))" "r_id r = aggregateId x"
  shows "request_key r = k"
proof -
  obtain x0 where x0: "x0 \<in> set (outbox (db w))" "o_id x0 = i" "owned (aggregateId x0) k (db w)"
    using own by (auto simp: row_owned_def)
  have "x0 = x" using key_unique[OF db_inv_outbox_ids(1)[OF world_invD(1)[OF inv]] x0(1) x(1)] x0(2) x(2) by simp
  with owned_key[OF inv x0(3) r(1)] r(2) show ?thesis by simp
qed

text \<open>Between the two transactions: the row is still pending, the request is still there.\<close>

definition sending :: "string \<Rightarrow> outbox_row \<Rightarrow> request \<Rightarrow> database \<Rightarrow> bool" where
  "sending k x r d =
     (x \<in> set (outbox d) \<and> aggregateId x = r_id r \<and> o_status x = OutboxStatus.PENDING
      \<and> holds r d \<and> request_key r = k)"

lemma sending_stays:
  assumes "others E k w w'" "sending k x r (db w)"
  shows "sending k x r (db w')"
proof -
  obtain r0 where r0: "r0 \<in> set (requests (db w))" "kept r r0" "r_id r0 = r_id r" "request_key r0 = k"
    using assms(2) kept_same by (auto simp: sending_def holds_def)
  have h: "holds r (db w')"
    using kept_stays(1)[OF assms(1) r0(1,4)] kept_trans[OF r0(2)] by (auto simp: holds_def)
  have "x \<in> set (rows_of (r_id r0) (db w))"
    using assms(2) r0(3) by (simp add: sending_def rows_of_def)
  then have "x \<in> set (rows_of (r_id r0) (db w'))" unfolding kept_stays(3)[OF assms(1) r0(1,4)] .
  then show ?thesis using assms(2) h by (simp add: sending_def rows_of_def)
qed

lemma upsert_twice:
  assumes "key b = key a"
  shows "upsert_by key b (upsert_by key a xs) = upsert_by key b xs"
proof (cases "\<exists>y \<in> set xs. key y = key a")
  case True
  let ?ys = "update_where (\<lambda>y. key y = key a) (\<lambda>_. a) xs"
  have "a \<in> set ?ys" unfolding in_set_update_where using True by auto
  then have "\<exists>y \<in> set ?ys. key y = key a" by blast
  moreover have "update_where (\<lambda>y. key y = key a) (\<lambda>_. b) ?ys = update_where (\<lambda>y. key y = key a) (\<lambda>_. b) xs"
    using assms by (induction xs) auto
  ultimately show ?thesis using True by (simp add: upsert_by_def assms)
next
  case False
  then have "update_where (\<lambda>y. key y = key a) (\<lambda>_. b) xs = xs" by (intro update_where_none) auto
  with False show ?thesis by (simp add: upsert_by_def assms)
qed

lemma ack_reverse_renamed:
  assumes inv: "db_inv E n d" and r0: "r0 \<in> set (requests d)" "r0 = r\<lparr>idempotencyKey := k\<rparr>"
    and key: "\<not> key_taken r d"
    and x: "x \<in> set (outbox d)" "aggregateId x = r_id r" "o_status x = OutboxStatus.PENDING"
      "operation x = REVERSE"
  shows "db_inv E n (set_request (r\<lparr>hcmAckAt := Some a\<rparr>) (set_outbox (x\<lparr>o_status := SENT\<rparr>) d))
    \<and> evolves c d (set_request (r\<lparr>hcmAckAt := Some a\<rparr>) (set_outbox (x\<lparr>o_status := SENT\<rparr>) d))"
proof -
  let ?d = "set_request r d"
  have restored: "r0\<lparr>idempotencyKey := idempotencyKey r\<rparr> = r" and id: "r_id r0 = r_id r" by (simp_all add: r0(2))
  have "requests ?d = update_where (\<lambda>y. r_id y = r_id r0) (\<lambda>_. r) (requests d)"
    using upsert_existing[OF r0(1), of r_id r] id by simp
  then have 1: "db_inv E n ?d \<and> evolves c d ?d"
    by (intro rekey[OF inv r0(1), where k = "idempotencyKey r"]) (use key restored in simp_all)
  have r: "r \<in> set (requests ?d)" by (simp add: set_upsert)
  note 2 = ack_reverse[OF conjunct1[OF 1] r _ x(2-4) refl refl, of a c]
  have "set_request (r\<lparr>hcmAckAt := Some a\<rparr>) (set_outbox (x\<lparr>o_status := SENT\<rparr>) ?d)
      = set_request (r\<lparr>hcmAckAt := Some a\<rparr>) (set_outbox (x\<lparr>o_status := SENT\<rparr>) d)"
    by (simp add: set_request_def set_outbox_def upsert_twice)
  with 1 2 x(1) show ?thesis by (auto intro: evolves_trans)
qed

lemma spec_finish_sending:
  assumes s: "safe E c d0 w" and inj: "inj (uuid E)" and st: "sending k x r (db w)"
  shows "spec (finish_attempt E x r outcome) (\<lambda>_. safe E c d0) (safe E c d0) w"
proof -
  note inv = safeD(2)[OF s]
  have x: "x \<in> set (outbox (db w))" "aggregateId x = r_id r" "o_status x = OutboxStatus.PENDING"
    using st by (simp_all add: sending_def)
  obtain r0 where r0: "r0 \<in> set (requests (db w))" "kept r r0" using st by (auto simp: sending_def holds_def)
  show ?thesis
  proof (cases "r0 = r")
    case True
    then have "started x r (db w)" using x r0(1) by (simp add: started_def)
    then show ?thesis by (rule spec_finish_attempt[OF s inj])
  next
    case False
    then obtain k' where k': "r0 = r\<lparr>idempotencyKey := k'\<rparr>" "status r \<in> TERMINAL_STATUSES"
      using r0(2) by (auto simp: kept_def)
    have x0: "aggregateId x = r_id r0" using x(2) by (simp add: k'(1))
    have op: "operation x = REVERSE"
    proof (cases "operation x")
      case FILE
      have "status r0 = RequestStatus.PENDING_SYNC"
        by (rule pending_file_row(1)[OF inv r0(1) x(1) x0 x(3) FILE])
      with k' show ?thesis by (simp add: TERMINAL_STATUSES_def)
    qed simp
    have saved: "db_inv E (uuidNext w) (set_outbox x (db w)) \<and> evolves c (db w) (set_outbox x (db w))"
      using count_attempt[OF inv r0(1) x(1) x0 order_refl refl, of c] by simp
    have failed: "db_inv E (uuidNext w) (set_outbox (x\<lparr>o_status := FAILED\<rparr>) (db w))
        \<and> evolves c (db w) (set_outbox (x\<lparr>o_status := FAILED\<rparr>) (db w))"
      by (rule fail_reverse[OF inv r0(1) x(1) x0 x(3) op refl])
    have acked: "db_inv E (uuidNext w) (set_request (r\<lparr>hcmAckAt := Some a\<rparr>) (set_outbox (x\<lparr>o_status := SENT\<rparr>) (db w)))
        \<and> evolves c (db w) (set_request (r\<lparr>hcmAckAt := Some a\<rparr>) (set_outbox (x\<lparr>o_status := SENT\<rparr>) (db w)))"
      if "\<not> key_taken (r\<lparr>hcmAckAt := Some a\<rparr>) (set_outbox (x\<lparr>o_status := SENT\<rparr>) (db w))" for a
      by (rule ack_reverse_renamed[OF inv r0(1) k'(1) _ x op]) (use that in \<open>simp add: key_taken_def\<close>)
    show ?thesis
      unfolding finish_attempt_def
    proof (rule spec_tx'[OF s], cases outcome)
      case None
      show "spec (case outcome of None \<Rightarrow> record_failure E x r | Some a \<Rightarrow> record_success x r a)
          (\<lambda>x w'. sole_writer w' \<and> db_inv E (uuidNext w') (db w') \<and> evolves c (db w) (db w'))
          (\<lambda>w'. sole_writer w' \<and> uuidNext w \<le> uuidNext w') w"
        unfolding None option.case record_failure_def op
        by (intro spec_rules) (use safeD[OF s] saved failed in simp_all)
    next
      case (Some a)
      show "spec (case outcome of None \<Rightarrow> record_failure E x r | Some a \<Rightarrow> record_success x r a)
          (\<lambda>x w'. sole_writer w' \<and> db_inv E (uuidNext w') (db w') \<and> evolves c (db w) (db w'))
          (\<lambda>w'. sole_writer w' \<and> uuidNext w \<le> uuidNext w') w"
        unfolding Some option.case record_success_def op Let_def
        by (intro spec_rules) (use safeD[OF s] acked in simp_all)
    qed
  qed
qed

lemma fine_attempt:
  assumes l: "live E k w" and st: "sending k x r (db w)"
  shows "fine (others E k) (ours E k) (\<lambda>_ w'. sending k x r (db w')) (\<lambda>_. True) (hcm_attempt_run E x) w"
  unfolding hcm_attempt_run_def
proof (rule unit.fine_catch[where F' = "\<lambda>w'. sending k x r (db w')", OF _ l])
  let ?fine = "fine (others E k) (ours E k) (\<lambda>_ w'. sending k x r (db w')) (\<lambda>w'. sending k x r (db w'))"
  have late: "?fine (bind (block now) (\<lambda>t. give (if ok res then Some (ack_time t (ackedAt res)) else None))) w'"
    if "live E k w'" "sending k x r (db w')" for w' and res
    by (rule unit.fine_bind[OF _ that(1)], rule fine_now) (use that(2) sending_stays in \<open>simp, blast\<close>)
  show "?fine (bind (block (call_hcm (case operation x of FILE \<Rightarrow> hcm_fileTimeOff E (payload x)
        | REVERSE \<Rightarrow> hcm_reverseTimeOff E (payload x)))) (\<lambda>res. bind (block now) (\<lambda>t.
        give (if ok res then Some (ack_time t (ackedAt res)) else None)))) w"
    by (intro unit.fine_bind[OF _ l] fine_call conjI late)
      (use st sending_stays[OF others_trans] othersD(1) in blast)+
qed (use sending_stays in auto)

lemma begin_attempt_key:
  assumes "\<And>x r. x \<in> set (outbox (db w)) \<Longrightarrow> o_id x = i \<Longrightarrow> r \<in> set (requests (db w)) \<Longrightarrow>
      r_id r = aggregateId x \<Longrightarrow> request_key r = k"
  shows "spec (begin_attempt i) (\<lambda>v _. \<forall>x r. v = Some (x, r) \<longrightarrow> request_key r = k) (\<lambda>_. True) w"
  unfolding begin_attempt_def findOutbox_def findRequest_def
  by (intro spec_rules) (auto dest!: find_Some_in intro: assms)

lemma fine_dispatch:
  assumes l: "live E k w" and own: "row_owned i k (db w)" and inj: "inj (uuid E)"
  shows "fine_unit E k (dispatch_run E i) w"
  unfolding dispatch_run_def
proof (rule unit.fine_bind[OF _ l], rule fine_keeping)
  fix w1 assume w1: "others E k w w1"
  note l1 = othersD(1)[OF w1] and own1 = row_owned_stays[OF othersD(3)[OF w1] own]
  note key = row_owned_key[OF liveD(1)[OF l1] own1]
  note safe = spec_begin_attempt[OF liveD(4)[OF l1], of i]
  have moved: "spec (begin_attempt i) (\<lambda>_. moved k w1) (moved k w1) w1"
    by (rule moved_begin_attempt[OF liveD(1)[OF l1]]) (use key in blast)
  have "spec (begin_attempt i) (\<lambda>_. safe E False (db w1)) (safe E False (db w1)) w1"
    by (rule spec_mono[OF safe]) simp_all
  note m = spec_ours[OF l1 this moved]
  have belongs: "spec (begin_attempt i) (\<lambda>v _. \<forall>x r. v = Some (x, r) \<longrightarrow> request_key r = k) (\<lambda>_. True) w1"
    by (rule begin_attempt_key) (use key in blast)
  show "spec (begin_attempt i)
      (\<lambda>v w'. ours E k w1 w' \<and> (\<forall>x r. v = Some (x, r) \<longrightarrow> sending k x r (db w')))
      (\<lambda>w'. ours E k w1 w' \<and> True) w1"
    by (rule spec_mono[OF spec_conj[OF m spec_conj[OF safe belongs]]])
      (auto simp: started_def sending_def intro: holdsI)
next
  fix v :: "(outbox_row \<times> request) option" and w1 w2
  assume v: "\<forall>x r. v = Some (x, r) \<longrightarrow> sending k x r (db w1)" and w: "others E k w1 w2"
  have go: "fine_unit E k (bind (hcm_attempt_run E x) (\<lambda>out. block (finish_attempt E x r out))) w2"
    if st: "sending k x r (db w2)" for x r
  proof (rule unit.fine_bind[OF _ othersD(1)[OF w]], rule unit.fine_mono[OF fine_attempt[OF othersD(1)[OF w] st]])
    fix out and w3 :: "'a world" assume w3: "sending k x r (db w3)"
    show "fine_unit E k (block (finish_attempt E x r out)) w3"
    proof (rule fine_last)
      fix w4 assume w4: "others E k w3 w4"
      note l4 = othersD(1)[OF w4] and st4 = sending_stays[OF w4 w3]
      have x: "x \<in> set (outbox (db w4))" "aggregateId x = r_id r" "holds r (db w4)" "request_key r = k"
        using st4 by (simp_all add: sending_def)
      show "spec (finish_attempt E x r out) (\<lambda>_. ours E k w4) (ours E k w4) w4"
        by (rule spec_ours[OF l4 spec_finish_sending[OF liveD(4)[OF l4] inj st4]
              moved_finish_attempt[OF liveD(1)[OF l4] inj x(3,1,2), unfolded x(4)]])
    qed
  qed simp
  show "fine_unit E k (case v of None \<Rightarrow> give () | Some (row, req) \<Rightarrow>
      bind (hcm_attempt_run E row) (\<lambda>out. block (finish_attempt E row req out))) w2"
    using go v sending_stays[OF w] by (cases v) auto
qed simp

section \<open>Units that change balances only\<close>

lemma fine_hydrate:
  assumes l: "live E (balanceKey e l) w"
  shows "fine_unit E (balanceKey e l) (hydrate_run E e l) w"
proof -
  let ?k = "balanceKey e l"
  have reload: "fine_unit E ?k (bind (block (findBalance e l)) (\<lambda>row. give (map_option (\<lambda>b. (b, False)) row))) w'"
    if "live E ?k w'" for w'
    unfolding findBalance_def by (rule unit.fine_bind[OF _ that], rule fine_query) simp
  let ?store = "\<lambda>s. bind (block (applyHcmSnapshot s)) (\<lambda>_.
              bind (block (findBalance e l)) (\<lambda>row. give (map_option (\<lambda>b. (b, False)) row)))"
  have store: "fine_unit E ?k (?store s) w'" if w': "live E ?k w'" for s w'
  proof (rule unit.fine_bind[OF _ w'], rule fine_balances)
    fix w1 assume "others E ?k w' w1"
    note l = othersD(1)[OF this]
    show "spec (applyHcmSnapshot s) (\<lambda>_ w'. safe E False (db w1) w' \<and> only_balances w1 w')
             (\<lambda>w'. safe E False (db w1) w' \<and> only_balances w1 w') w1"
      by (rule spec_snapshot[OF liveD(4)[OF l]])
    show "spec (applyHcmSnapshot s) (\<lambda>_. moved ?k w1) (moved ?k w1) w1"
      by (rule moved_applyHcmSnapshot[OF liveD(2)[OF l]])
  qed (use reload othersD(1) in blast)
  have ask: "fine_unit E ?k (catch
           (bind (block (call_hcm (hcm_getBalance E e l))) (\<lambda>s. give (Some s)))
           (\<lambda>e. case e of HcmUnavailableError _ \<Rightarrow> give None | _ \<Rightarrow> fail e)) w'"
    if w': "live E ?k w'" for w'
  proof (rule unit.fine_catch[where F' = "\<lambda>_. True", OF _ w'])
    show "fine_unit E ?k (bind (block (call_hcm (hcm_getBalance E e l))) (\<lambda>s. give (Some s))) w'"
      by (rule unit.fine_bind[OF _ w'], rule fine_call) simp
    fix ex w'' show "fine_unit E ?k (case ex of HcmUnavailableError _ \<Rightarrow> give None | _ \<Rightarrow> fail ex) w''"
      by (cases ex) simp_all
  qed
  show ?thesis
    unfolding hydrate_run_def findBalance_def[of e l]
  proof (rule unit.fine_bind[OF _ l], rule fine_query)
    fix w1 w2 assume w: "others E ?k w w1" "others E ?k w1 w2"
    note l2 = othersD(1)[OF w(2)]
    have "fine_unit E ?k (bind (catch
           (bind (block (call_hcm (hcm_getBalance E e l))) (\<lambda>s. give (Some s)))
           (\<lambda>e. case e of HcmUnavailableError _ \<Rightarrow> give None | _ \<Rightarrow> fail e))
         (\<lambda>snapshot. case snapshot of None \<Rightarrow> give (Some (fresh_balance e l, True)) | Some s \<Rightarrow> ?store s)) w2"
      by (rule unit.fine_bind[OF _ l2], rule unit.fine_mono[OF ask[OF l2]])
        (use store in \<open>auto simp: live_def split: option.split\<close>)
    then show "fine_unit E ?k (if is_warm (balances (db w1) (e, l)) then give (map_option (\<lambda>b. (b, False)) (balances (db w1) (e, l)))
      else bind (catch
           (bind (block (call_hcm (hcm_getBalance E e l))) (\<lambda>s. give (Some s)))
           (\<lambda>e. case e of HcmUnavailableError _ \<Rightarrow> give None | _ \<Rightarrow> fail e))
         (\<lambda>snapshot. case snapshot of None \<Rightarrow> give (Some (fresh_balance e l, True))
          | Some s \<Rightarrow> bind (block (applyHcmSnapshot s)) (\<lambda>_.
              bind (block (query (\<lambda>d. balances d (e, l)))) (\<lambda>row. give (map_option (\<lambda>b. (b, False)) row))))) w2"
      unfolding findBalance_def by simp
  qed
qed

lemma fine_entry:
  "fine_unit E k (block (transaction (reconcileBalance E entry asOf))) w"
proof (rule fine_last)
  fix w1 assume "others E k w w1"
  note l = othersD(1)[OF this]
  show "spec (transaction (reconcileBalance E entry asOf)) (\<lambda>_. ours E k w1) (ours E k w1) w1"
    by (rule spec_ours[OF l spec_tx_safe[OF liveD(4)[OF l] spec_reconcileBalance[OF liveD(4)[OF l]]]
        moved_reconcile[OF liveD(2)[OF l]]])
qed

lemma fine_review:
  "fine_unit E k (block (andThen (findOrCreate e l) (\<lambda>b. saveWithRetry b mut_clear_review))) w"
proof (rule fine_last)
  fix w1 assume "others E k w w1"
  note l = othersD(1)[OF this]
  have "spec (andThen (findOrCreate e l) (\<lambda>b. saveWithRetry b mut_clear_review))
      (\<lambda>_. safe E False (db w1)) (safe E False (db w1)) w1"
    by (rule spec_resolve[OF liveD(2)[OF l]])
      (use liveD[OF l] in \<open>auto intro!: balance_safe[OF liveD(4)[OF l], of _ mut_clear_review] simp: of_bal\<close>)
  then show "spec (andThen (findOrCreate e l) (\<lambda>b. saveWithRetry b mut_clear_review)) (\<lambda>_. ours E k w1) (ours E k w1) w1"
    by (rule spec_ours[OF l _ moved_balance[OF liveD(2)[OF l]]])
qed

end
