(* ===== verification/Interleaving.thy ===== *)
theory Interleaving
  imports Create_Send_Runs System
begin

text \<open>
  The service at the granularity of the event loop. A configuration is the world and the pool of
  operations that have begun and not ended; a step runs one block of one of them, lets a new one
  enter (its balance key must be free), lets one leave, lets time, HCM or a failing disk intervene,
  or restarts the process and loses the pool. Operations on one balance exclude each other;
  operations on different balances interleave at every await.
\<close>

datatype 'h thread = Locked string "(unit, 'h) run" | Unlocked "(unit, 'h) run"

definition forget :: "('a, 'h) run \<Rightarrow> (unit, 'h) run" where
  "forget r = bind r (\<lambda>_. give ())"

text \<open>The critical sections that may enter in a given database, with the key they lock.\<close>

inductive critical :: "'h env \<Rightarrow> database \<Rightarrow> string \<Rightarrow> (unit, 'h) run \<Rightarrow> bool" for E d where
  submit: "critical E d (balanceKey e l) (forget (submit_run E e l s t key))"
| approve: "owned i k d \<Longrightarrow> critical E d k (forget (approve_run E i))"
| reject: "owned i k d \<Longrightarrow> critical E d k (forget (reject_run i))"
| cancel: "owned i k d \<Longrightarrow> critical E d k (forget (cancel_run E i))"
| expire: "owned i k d \<Longrightarrow> critical E d k (catch (forget (expire_run i)) (\<lambda>_. give ()))"
| dispatch: "row_owned i k d \<Longrightarrow> critical E d k (dispatch_run E i)"
| hydrate: "critical E d (balanceKey e l) (forget (hydrate_run E e l))"
| entry: "critical E d (balanceKey (h_employeeId x) (h_locationId x)) (block (transaction (reconcileBalance E x asOf)))"
| review: "critical E d (balanceKey e l) (block (andThen (findOrCreate e l) (\<lambda>b. saveWithRetry b mut_clear_review)))"

text \<open>What happens without a lock besides the first query of a balance read.\<close>

inductive free_step :: "'h world \<Rightarrow> 'h world \<Rightarrow> bool" where
  guard: "free_step w (snd (sequence_guard corpus w))"
| log: "free_step w (snd (transaction (write_db (log_batch entry)) w))"
| time: "free_step w (w\<lparr>clock := t, dbClock := u\<rparr>)"
| hcm: "free_step w (w\<lparr>hcm := h\<rparr>)"
| faults: "\<forall>f \<in> set fs. \<forall>row. f \<noteq> Version_mismatch row \<Longrightarrow> free_step w (w\<lparr>faults := fs\<rparr>)"

type_synonym 'h pool = "'h world \<times> 'h thread list"

inductive loop_step :: "'h env \<Rightarrow> 'h pool \<Rightarrow> 'h pool \<Rightarrow> bool" for E where
  enter: "k \<notin> set (held w) \<Longrightarrow> critical E (db w) k r \<Longrightarrow>
    loop_step E (w, ts) (w\<lparr>held := k # held w\<rparr>, ts @ [Locked k r])"
| go: "i < length ts \<Longrightarrow> ts ! i = Locked k (Then g) \<Longrightarrow>
    loop_step E (w, ts) (snd (g w), ts[i := Locked k (fst (g w))])"
| exit: "i < length ts \<Longrightarrow> ts ! i = Locked k (Fin out) \<Longrightarrow> out \<noteq> Hang \<Longrightarrow>
    loop_step E (w, ts) (w\<lparr>held := remove1 k (held w)\<rparr>, take i ts @ drop (Suc i) ts)"
| look: "loop_step E (w, ts) (w, ts @ [Unlocked (forget (read_run E e l))])"
| read: "i < length ts \<Longrightarrow> ts ! i = Unlocked (Then g) \<Longrightarrow>
    loop_step E (w, ts) (snd (g w), ts[i := Unlocked (fst (g w))])"
| seen: "i < length ts \<Longrightarrow> ts ! i = Unlocked (Fin out) \<Longrightarrow> loop_step E (w, ts) (w, take i ts @ drop (Suc i) ts)"
| free: "free_step w w' \<Longrightarrow> loop_step E (w, ts) (w', ts)"
| restart: "loop_step E (w, ts) (w\<lparr>held := []\<rparr>, [])"

definition loop_steps :: "'h env \<Rightarrow> 'h pool \<Rightarrow> 'h pool \<Rightarrow> bool" where
  "loop_steps E = rtranclp (loop_step E)"

section \<open>Entering units are fine\<close>

lemma fine_forget: "live E k w \<Longrightarrow> fine_unit E k r w \<Longrightarrow> fine_unit E k (forget r) w"
  unfolding forget_def by (rule unit.fine_bind) (auto elim: unit.fine_mono)

lemma critical_fine:
  assumes "critical E (db w) k r" "live E k w" "inj (uuid E)"
  shows "fine_unit E k r w"
  using assms(1)
proof cases
  case (expire i)
  have "fine_unit E k (forget (expire_run i)) w"
    by (rule fine_forget[OF assms(2) fine_expire[OF assms(2) expire(2)]])
  then show ?thesis
    unfolding expire(1) by (rule unit.fine_catch[OF _ assms(2)]) simp
qed (use assms in \<open>auto intro!: fine_forget fine_submit fine_approve fine_reject fine_cancel fine_dispatch
      fine_hydrate fine_entry fine_review\<close>)

text \<open>With lazy loading on, the part of a read outside the lock changes nothing.\<close>

primrec idle :: "('a, 'h) run \<Rightarrow> bool" where
  "idle (Fin out) = True"
| "idle (Then g) = (\<forall>w. (case (map_prod idle id \<circ> g) w of (p, w') \<Rightarrow> w' = w \<and> p))"

lemma idle_Then [simp]: "idle (Then g) = (\<forall>w. snd (g w) = w \<and> idle (fst (g w)))"
  by (simp add: case_prod_unfold)

declare idle.simps(2) [simp del]

lemma idle_bind: "idle r \<Longrightarrow> (\<And>x. idle (f x)) \<Longrightarrow> idle (bind r f)"
proof (induction r rule: run_induct)
  case (Fin out)
  then show ?case by (cases out) simp_all
qed (simp add: bind_Then)

lemma idle_read:
  assumes "balanceLazyLoadEnabled E"
  shows "idle (forget (read_run E e l))"
  unfolding forget_def read_run_def findBalance_def
  by (intro idle_bind) (use assms in \<open>simp_all add: block_def query_apply\<close>)

section \<open>The invariant of a pool\<close>

definition lock_key :: "'h thread \<Rightarrow> string list" where
  "lock_key t = (case t of Locked k _ \<Rightarrow> [k] | Unlocked _ \<Rightarrow> [])"

definition thread_ok :: "'h env \<Rightarrow> 'h world \<Rightarrow> 'h thread \<Rightarrow> bool" where
  "thread_ok E w t = (case t of
      Locked k r \<Rightarrow> k \<in> set (held w) \<and> fine_unit E k r w
    | Unlocked r \<Rightarrow> idle r)"

definition pool_ok :: "'h env \<Rightarrow> database \<Rightarrow> 'h pool \<Rightarrow> bool" where
  "pool_ok E d0 p = (safe E False d0 (fst p) \<and> distinct (concat (map lock_key (snd p)))
     \<and> (\<forall>t \<in> set (snd p). thread_ok E (fst p) t))"

lemma thread_simps [simp]:
  "lock_key (Locked k r) = [k]" "lock_key (Unlocked r) = []"
  "thread_ok E w (Locked k r) = (k \<in> set (held w) \<and> fine_unit E k r w)" "thread_ok E w (Unlocked r) = idle r"
  by (simp_all add: lock_key_def thread_ok_def)

text \<open>A world another thread left, seen from a thread that holds its own key.\<close>

lemma others_of_ours:
  assumes "ours E k w w'" "k' \<noteq> k" "k' \<in> set (held w)"
  shows "others E k' w w'"
  using assms by (auto simp: others_def ours_def live_def moved_def touches_only_def still_def safe_def evolves_def)

lemma thread_stays:
  assumes "thread_ok E w t" "world_inv E w'"
    and "\<And>k. k \<in> set (lock_key t) \<Longrightarrow> k \<in> set (held w) \<Longrightarrow> others E k w w'"
  shows "thread_ok E w' t"
proof (cases t)
  case (Locked k r)
  with assms have o: "others E k w w'" and f: "fine_unit E k r w" by auto
  from unit.fine_rely[OF f o] show ?thesis using o Locked by (simp add: others_def live_def)
qed (use assms in simp)

lemma others_held:
  assumes "world_inv E w" "k \<in> set h"
  shows "others E k w (w\<lparr>held := h\<rparr>)"
  using assms by (simp add: others_def live_def world_inv_def)

lemma keys_in_pool: "t \<in> set ts \<Longrightarrow> k \<in> set (lock_key t) \<Longrightarrow> k \<in> set (concat (map lock_key ts))"
  by auto

text \<open>The run so far may be measured from any of its states.\<close>

lemma pool_ok_from_now: "pool_ok E d0 (w, ts) \<Longrightarrow> pool_ok E (db w) (w, ts)"
  by (simp add: pool_ok_def safe_def)

text \<open>The other threads hold other keys.\<close>

lemma other_keys:
  assumes "distinct (concat (map lock_key (xs @ Locked k r # ys)))" "t \<in> set xs \<union> set ys" "k' \<in> set (lock_key t)"
  shows "k' \<noteq> k"
  using assms keys_in_pool by fastforce

lemma pool_go:
  assumes ok: "pool_ok E d0 (w, xs @ Locked k (Then g) # ys)"
  shows "pool_ok E d0 (snd (g w), xs @ Locked k (fst (g w)) # ys)" "ours E k w (snd (g w))"
proof -
  have t: "k \<in> set (held w)" "fine_unit E k (Then g) w" using ok by (simp_all add: pool_ok_def)
  have dist: "distinct (concat (map lock_key (xs @ Locked k (Then g) # ys)))"
    and s: "safe E False d0 w" using ok by (simp_all add: pool_ok_def)
  have live: "live E k w" using t(1) s by (simp add: live_def safe_def)
  then have "others E k w w" by (rule unit.rely_refl)
  then show o: "ours E k w (snd (g w))" using t(2) by (simp add: fine_Then)
  have f: "fine_unit E k (fst (g w)) (snd (g w))" using t(2) \<open>others E k w w\<close> by (simp add: fine_Then)
  have s': "safe E False d0 (snd (g w))"
    using o s evolves_trans by (auto simp: ours_def safe_def)
  have "thread_ok E (snd (g w)) t" if u: "t \<in> set xs \<union> set ys" for t
  proof (rule thread_stays)
    show "thread_ok E w t" using ok u by (auto simp: pool_ok_def)
    show "world_inv E (snd (g w))" using s' by (simp add: safe_def)
    show "others E k' w (snd (g w))" if "k' \<in> set (lock_key t)" "k' \<in> set (held w)" for k'
      by (rule others_of_ours[OF o other_keys[OF dist u that(1)] that(2)])
  qed
  then show "pool_ok E d0 (snd (g w), xs @ Locked k (fst (g w)) # ys)"
    using s' f o dist by (auto simp: pool_ok_def ours_def live_def)
qed

lemma split_pool: "i < length ts \<Longrightarrow> ts = take i ts @ ts ! i # drop (Suc i) ts"
  by (rule id_take_nth_drop)

lemma pool_exit:
  assumes ok: "pool_ok E d0 (w, xs @ Locked k r # ys)"
  shows "pool_ok E d0 (w\<lparr>held := remove1 k (held w)\<rparr>, xs @ ys)"
proof -
  have dist: "distinct (concat (map lock_key (xs @ Locked k r # ys)))"
    and s: "safe E False d0 w" using ok by (simp_all add: pool_ok_def)
  have "thread_ok E (w\<lparr>held := remove1 k (held w)\<rparr>) t" if u: "t \<in> set xs \<union> set ys" for t
  proof (rule thread_stays)
    show "thread_ok E w t" using ok u by (auto simp: pool_ok_def)
    show "world_inv E (w\<lparr>held := remove1 k (held w)\<rparr>)" using s by (simp add: safe_def world_inv_def)
    show "others E k' w (w\<lparr>held := remove1 k (held w)\<rparr>)" if "k' \<in> set (lock_key t)" "k' \<in> set (held w)" for k'
      by (rule others_held) (use s that other_keys[OF dist u that(1)] in \<open>simp_all add: safe_def\<close>)
  qed
  then show ?thesis using s dist by (auto simp: pool_ok_def)
qed

lemma pool_enter:
  assumes ok: "pool_ok E d0 (w, ts)" and inj: "inj (uuid E)"
    and new: "k \<notin> set (held w)" "critical E (db w) k r"
  shows "pool_ok E d0 (w\<lparr>held := k # held w\<rparr>, ts @ [Locked k r])"
proof -
  let ?w = "w\<lparr>held := k # held w\<rparr>"
  have s: "safe E False d0 w" using ok by (simp add: pool_ok_def)
  then have inv: "world_inv E w" "world_inv E ?w" by (simp_all add: safe_def world_inv_def)
  have "fine_unit E k r ?w"
    by (rule critical_fine[OF _ _ inj]) (use new inv in \<open>simp_all add: live_def\<close>)
  moreover have "thread_ok E ?w t" if "t \<in> set ts" for t
    by (rule thread_stays[OF _ inv(2) others_held[OF inv(1)]]) (use ok that in \<open>auto simp: pool_ok_def\<close>)
  moreover have "k \<notin> set (lock_key t)" if "t \<in> set ts" for t
    using ok new(1) that by (cases t) (auto simp: pool_ok_def)
  ultimately show ?thesis
    using ok s by (auto simp: pool_ok_def)
qed

text \<open>Steps outside the locks change nothing a thread relies on.\<close>

lemma logs_lifecycle:
  assumes "safe E False (db w) w'" "requests (db w') = requests (db w)" "outbox (db w') = outbox (db w)"
    "uuidNext w \<le> uuidNext w'" "held w' = held w" "k \<in> set (held w)"
  shows "others E k w w'"
proof -
  have "keeps k (db w) (db w')" using touches_same[OF assms(2,3)]
    by (auto simp: keeps_def assms(2) rows_of_def assms(3) intro: kept_refl)
  then show ?thesis using assms by (simp add: others_def live_def safe_def evolves_def)
qed

definition quiet :: "'h world \<Rightarrow> 'h world \<Rightarrow> bool" where
  "quiet w w' = (requests (db w') = requests (db w) \<and> outbox (db w') = outbox (db w)
     \<and> uuidNext w \<le> uuidNext w' \<and> held w' = held w)"

lemma quiet_tx:
  assumes "spec m (\<lambda>_. quiet w) (\<lambda>w'. uuidNext w \<le> uuidNext w' \<and> held w' = held w) w"
  shows "quiet w (snd (transaction m w))"
  by (rule snd_spec, rule spec_transaction, rule spec_mono[OF assms]) (simp_all add: quiet_def)

lemma free_step_quiet:
  assumes "free_step w w'" "world_inv E w"
  shows "quiet w w' \<and> safe E False (db w) w'"
proof -
  have s: "safe E False (db w) w" using assms(2) by (simp add: safe_def)
  show ?thesis
    using assms(1)
  proof cases
    case (guard corpus)
    have "quiet w w'"
      unfolding guard sequence_guard_def
      by (rule quiet_tx, intro spec_rules) (simp_all add: quiet_def)
    then show ?thesis using snd_spec[OF guard_safe[OF s]] guard by simp
  next
    case (log entry)
    have "quiet w w'"
      unfolding log by (rule quiet_tx, intro spec_rules) (simp_all add: quiet_def log_batch_def)
    then show ?thesis using snd_spec[OF log_safe[OF s]] log by simp
  qed (use s in \<open>simp_all add: quiet_def safe_def world_inv_def sole_writer_def\<close>)
qed

lemma pool_free:
  assumes ok: "pool_ok E d0 (w, ts)" and st: "free_step w w'"
  shows "pool_ok E d0 (w', ts)"
proof -
  have s: "safe E False d0 w" using ok by (simp add: pool_ok_def)
  then have q: "quiet w w'" "safe E False (db w) w'" using free_step_quiet[OF st] by (auto simp: safe_def)
  have "thread_ok E w' t" if "t \<in> set ts" for t
  proof (rule thread_stays)
    show "thread_ok E w t" using ok that by (simp add: pool_ok_def)
    show "world_inv E w'" using q(2) by (simp add: safe_def)
    show "others E k w w'" if "k \<in> set (lock_key t)" "k \<in> set (held w)" for k
      by (rule logs_lifecycle[OF q(2)]) (use q(1) that in \<open>auto simp: quiet_def\<close>)
  qed
  moreover have "safe E False d0 w'"
    using s q(2) evolves_trans by (auto simp: safe_def)
  ultimately show ?thesis using ok by (simp add: pool_ok_def)
qed

lemma pool_step:
  assumes st: "loop_step E p p'" and ok: "pool_ok E d0 p" and inj: "inj (uuid E)"
    and lazy: "balanceLazyLoadEnabled E"
  shows "pool_ok E d0 p'"
  using st
proof cases
  case (enter k w r ts)
  then show ?thesis using pool_enter[of E d0 w ts k r] ok inj by simp
next
  case (go i ts k g w)
  have "pool_ok E d0 (w, take i ts @ Locked k (Then g) # drop (Suc i) ts)"
    using ok go split_pool[OF go(3)] by simp
  from pool_go(1)[OF this] go(2-4) show ?thesis by (simp add: upd_conv_take_nth_drop)
next
  case (exit i ts k out w)
  have "pool_ok E d0 (w, take i ts @ Locked k (Fin out) # drop (Suc i) ts)"
    using ok exit split_pool[OF exit(3)] by simp
  from pool_exit[OF this] exit(2) show ?thesis by simp
next
  case (look w ts e l)
  then show ?thesis using ok idle_read[OF lazy] by (simp add: pool_ok_def)
next
  case (read i ts g w)
  have "pool_ok E d0 (w, take i ts @ Unlocked (Then g) # drop (Suc i) ts)"
    using ok read split_pool[OF read(3)] by simp
  then have "pool_ok E d0 (snd (g w), take i ts @ Unlocked (fst (g w)) # drop (Suc i) ts)"
    by (auto simp: pool_ok_def)
  then show ?thesis using read(2-4) by (simp add: upd_conv_take_nth_drop)
next
  case (seen i ts out w)
  have "pool_ok E d0 (w, take i ts @ Unlocked (Fin out) # drop (Suc i) ts)"
    using ok seen split_pool[OF seen(3)] by simp
  then show ?thesis using seen(2) by (auto simp: pool_ok_def)
next
  case (free w w' ts)
  then show ?thesis using pool_free[of E d0 w ts w'] ok by simp
next
  case (restart w ts)
  then show ?thesis using ok by (simp add: pool_ok_def)
qed

lemma pool_steps:
  assumes "loop_steps E p p'" "pool_ok E d0 p" "inj (uuid E)" "balanceLazyLoadEnabled E"
  shows "pool_ok E d0 p'"
  using assms(1,2) unfolding loop_steps_def
  by (induction rule: rtranclp_induct) (auto intro: pool_step assms(3,4))

lemma starts_pool_ok: "starts w \<Longrightarrow> pool_ok E empty_db (w, [])"
  by (simp add: pool_ok_def starts_def safe_def world_inv_def db_inv_empty)

end
