(* ===== verification/Concurrency_Properties.thy ===== *)
theory Concurrency_Properties
  imports Interleaving Demo_Worlds
begin

text \<open>
  What holds when operations interleave at every await, and a race the lock does not cover: the
  idempotency key shared by two balances. (The other one is in \<open>First_Read_Race\<close>.)
\<close>

section \<open>Running a unit to its end\<close>

lemma loop_steps_refl [simp]: "loop_steps E p p"
  by (simp add: loop_steps_def)

lemma loop_steps_trans: "loop_steps E a b \<Longrightarrow> loop_steps E b c \<Longrightarrow> loop_steps E a c"
  unfolding loop_steps_def by (rule rtranclp_trans)

lemma loop_steps_step: "loop_step E a b \<Longrightarrow> loop_steps E a b"
  by (simp add: loop_steps_def)

lemma unit_goes_on:
  "alone r w = (out, w') \<Longrightarrow> loop_steps E (w, ts @ [Locked k r]) (w', ts @ [Locked k (Fin out)])"
proof (induction r arbitrary: w rule: run_induct)
  case (Fin out')
  then show ?case by (simp add: alone.simps)
next
  case (Then g)
  have "loop_step E (w, ts @ [Locked k (Then g)]) (snd (g w), ts @ [Locked k (fst (g w))])"
    using loop_step.go[of "length ts" "ts @ [Locked k (Then g)]" k g E w] by simp
  moreover have "alone (fst (g w)) (snd (g w)) = (out, w')" using Then.prems by (simp add: alone_Then)
  ultimately show ?case using Then.IH loop_steps_step loop_steps_trans by blast
qed

lemma unit_exclusive:
  assumes free: "k \<notin> set (held w)" "critical E (db w) k r" and r: "alone r = andThen m (\<lambda>_. return ())"
    and ends: "fst (runExclusive k m w) \<noteq> Hang"
  shows "loop_steps E (w, ts) (snd (runExclusive k m w), ts)"
proof -
  let ?w = "w\<lparr>held := k # held w\<rparr>"
  obtain out w1 where m: "m ?w = (out, w1)" by (cases "m ?w")
  then have nh: "out \<noteq> Hang" using free(1) ends by (auto simp: runExclusive_def)
  then obtain out' where a: "alone r ?w = (out', w1)" "out' \<noteq> Hang"
    using m r by (cases out) (simp_all add: andThen_def return_def)
  have "loop_steps E (w, ts) (w1, ts @ [Locked k (Fin out')])"
    by (rule loop_steps_trans[OF loop_steps_step[OF loop_step.enter[OF free]] unit_goes_on[OF a(1)]])
  moreover have "loop_step E (w1, ts @ [Locked k (Fin out')]) (w1\<lparr>held := remove1 k (held w1)\<rparr>, ts)"
    using loop_step.exit[of "length ts" "ts @ [Locked k (Fin out')]" k out' E w1] a(2) by simp
  moreover have "snd (runExclusive k m w) = w1\<lparr>held := remove1 k (held w1)\<rparr>"
    using free(1) m nh by (cases out) (simp_all add: runExclusive_def)
  ultimately show ?thesis using loop_steps_step loop_steps_trans by metis
qed

lemma alone_forget: "alone (forget r) = andThen (alone r) (\<lambda>_. return ())"
  by (simp add: forget_def)

lemma unit_submit:
  assumes "balanceKey e l \<notin> set (held w)"
    and "fst (runExclusive (balanceKey e l) (submit_locked E e l s t key) w) \<noteq> Hang"
  shows "loop_steps E (w, ts) (snd (runExclusive (balanceKey e l) (submit_locked E e l s t key) w), ts)"
  by (rule unit_exclusive[OF assms(1) critical.submit _ assms(2)]) (simp add: alone_forget alone_submit)

lemma unit_hydrate:
  assumes "balanceKey e l \<notin> set (held w)" "fst (runExclusive (balanceKey e l) (hydrate E e l) w) \<noteq> Hang"
  shows "loop_steps E (w, ts) (snd (runExclusive (balanceKey e l) (hydrate E e l) w), ts)"
  by (rule unit_exclusive[OF assms(1) critical.hydrate _ assms(2)]) (simp add: alone_forget alone_hydrate)

lemma unit_entry:
  assumes "balanceKey (h_employeeId x) (h_locationId x) \<notin> set (held w)"
    and "fst (reconcile_entry E asOf x w) \<noteq> Hang"
  shows "loop_steps E (w, ts) (snd (reconcile_entry E asOf x w), ts)"
proof -
  have "alone (block (transaction (reconcileBalance E x asOf))) = andThen (transaction (reconcileBalance E x asOf)) (\<lambda>_. return ())"
    by (auto simp: fun_eq_iff andThen_def return_def split: prod.split outcome.split)
  then show ?thesis
    unfolding reconcile_entry_def
    by (rule unit_exclusive[OF assms(1) critical.entry _ assms(2)[unfolded reconcile_entry_def]])
qed

section \<open>A busy demo pool\<close>

text \<open>After the first submission of the demo, the read of another employee's balance is under way.\<close>

definition other_key :: string where
  "other_key = balanceKey ''emp2'' ''loc1''"

definition demo_busy :: "fake_hcm world" where
  "demo_busy = demo_submitted\<lparr>held := [other_key]\<rparr>"

definition demo_thread :: "fake_hcm thread" where
  "demo_thread = Locked other_key (forget (hydrate_run (fake_env True) ''emp2'' ''loc1''))"

lemma demo_warm_steps: "loop_steps (fake_env True) (demo_start, []) (demo_warm, [])"
proof -
  have cold: "getBalance (fake_env True) ''emp1'' ''loc1'' demo_start
      = runExclusive (balanceKey ''emp1'' ''loc1'') (hydrate (fake_env True) ''emp1'' ''loc1'') demo_start"
    by (simp add: getBalance_def findBalance_def andThen_query is_warm_def fake_env_def demo_start_def
        fake_world_def empty_db_def)
  have "fst (getBalance (fake_env True) ''emp1'' ''loc1'' demo_start) \<noteq> Hang"
    by (simp add: demo_start_def fake_world_def getBalance_def hydrate_def findBalance_def
      andThen_query is_warm_def fake_env_def empty_db_def runExclusive_def try_catch_def andThen_def
      call_hcm_def demo_get return_apply query_apply applyHcmSnapshot_ok)
  then show ?thesis
    unfolding demo_warm_def cold by (intro unit_hydrate) (simp_all add: demo_start_def fake_world_def)
qed

lemma demo_submitted_steps: "loop_steps (fake_env True) (demo_start, []) (demo_submitted, [])"
proof -
  have "fst (runExclusive demo_key demo_submit demo_warm) \<noteq> Hang"
    by (simp add: runExclusive_def demo_submit_result demo_warm_world)
  then have "loop_steps (fake_env True) (demo_warm, []) (demo_submitted, [])"
    unfolding demo_submitted_def demo_submit_def demo_key_def
    by (intro unit_submit) (simp_all add: demo_warm_world)
  then show ?thesis by (rule loop_steps_trans[OF demo_warm_steps])
qed

lemma demo_busy_steps: "loop_steps (fake_env True) (demo_start, []) (demo_busy, [demo_thread])"
proof -
  have "loop_step (fake_env True) (demo_submitted, []) (demo_busy, [demo_thread])"
    using loop_step.enter[of other_key demo_submitted "fake_env True"
        "forget (hydrate_run (fake_env True) ''emp2'' ''loc1'')" "[]"]
      critical.hydrate[of "fake_env True" "db demo_submitted" "''emp2''" "''loc1''"]
    by (simp add: demo_busy_def demo_thread_def other_key_def demo_submitted_world)
  then show ?thesis using demo_submitted_steps loop_steps_step loop_steps_trans by blast
qed

lemma lazy_fake [simp]: "balanceLazyLoadEnabled (fake_env lazy) = lazy"
  by (simp add: fake_env_def)

section \<open>Properties\<close>

lemma reached_pool:
  assumes "starts w0" "loop_steps E (w0, []) (w, ts)" "inj (uuid E)" "balanceLazyLoadEnabled E"
  shows "pool_ok E empty_db (w, ts)" "db_inv E (uuidNext w) (db w)" "account_run False (account_of empty_db) (account_of (db w))"
  using pool_steps[OF assms(2) starts_pool_ok[OF assms(1)] assms(3,4)]
  by (simp_all add: pool_ok_def safe_def world_inv_def evolves_def)

text \<open>C4: However the operations interleave at their awaits, from an empty database and with lazy
  loading on, the books stay right: what a balance reserves is the sum of its pending requests, every
  request agrees with its outbox rows, no two active requests overlap, the database is a state of the
  leave account the service implements, and no two critical sections hold the same lock.\<close>

theorem every_interleaving_keeps_the_books:
  assumes "starts w0" "loop_steps E (w0, []) (w, ts)" "inj (uuid E)" "balanceLazyLoadEnabled E"
  shows "reserved_of (db w) k =
      sum_list (map days (filter (\<lambda>r. key_of r = k \<and> status r = RequestStatus.PENDING) (requests (db w))))
    \<and> (\<forall>r \<in> set (requests (db w)). request_ok r (rows_of (r_id r) (db w)))
    \<and> no_overlap (requests (db w))
    \<and> account_run False (account_of empty_db) (account_of (db w))
    \<and> distinct (concat (map lock_key ts))"
  using reached_pool[OF assms] reserved_is_pending[of E "uuidNext w" "db w" k] db_invD(6,7)[of E "uuidNext w" "db w"]
  by (auto simp: pool_ok_def)

lemma every_interleaving_keeps_the_books_witness:
  "reserved_of (db demo_busy) (''emp1'', ''loc1'') = 2
   \<and> account_run False (account_of empty_db) (account_of (db demo_busy))
   \<and> sum_list (map days (filter (\<lambda>r. key_of r = (''emp1'', ''loc1'') \<and> status r = RequestStatus.PENDING)
       (requests (db demo_busy)))) = 2"
  using every_interleaving_keeps_the_books[OF demo_start_starts demo_busy_steps demo_inj, of "(''emp1'', ''loc1'')"]
    demo_submitted_db(4) by (simp add: demo_busy_def)

text \<open>A block run under a lock leaves the requests of every other balance as they are: each
  is still there with its status, days and dates, and its outbox rows have not changed, so a chain
  that holds its own lock finds its request as it left it after every await.\<close>

lemma a_block_touches_one_balance:
  assumes "starts w0" "loop_steps E (w0, []) (w, ts)" "inj (uuid E)" "balanceLazyLoadEnabled E"
    and "i < length ts" "ts ! i = Locked k (Then g)"
    and "r \<in> set (requests (db w))" "request_key r \<noteq> k"
  shows "(\<exists>r' \<in> set (requests (db (snd (g w)))). kept r r')
    \<and> rows_of (r_id r) (db (snd (g w))) = rows_of (r_id r) (db w)"
proof -
  have "pool_ok E empty_db (w, take i ts @ Locked k (Then g) # drop (Suc i) ts)"
    using reached_pool(1)[OF assms(1-4)] split_pool[OF assms(5)] assms(6) by simp
  from pool_go(2)[OF this] show ?thesis
    using assms(7,8) by (auto simp: ours_def moved_def touches_only_def keeps_def)
qed

text \<open>C14: However the operations interleave at their awaits, from any state of a run on a request is never
  lost, never changes its owner, dates, days or keys at HCM, moves only along the edges of the status
  machine and stays in a terminal status, and an outbox row keeps its command and settles at most
  once.\<close>

theorem interleaved_rows_only_advance:
  assumes "starts w0" "loop_steps E (w0, []) (w, ts)" "loop_steps E (w, ts) (w', ts')"
    and "inj (uuid E)" "balanceLazyLoadEnabled E" "r \<in> set (requests (db w))"
  shows "\<exists>r' \<in> set (requests (db w')). same_identity r r' \<and> expiresAt r' = expiresAt r
    \<and> reaches (status r) (status r') \<and> (status r \<in> TERMINAL_STATUSES \<longrightarrow> status r' = status r)
    \<and> (\<forall>x \<in> set (rows_of (r_id r) (db w)). \<exists>x' \<in> set (rows_of (r_id r') (db w')).
          o_id x' = o_id x \<and> payload x' = payload x \<and> (o_status x \<noteq> OutboxStatus.PENDING \<longrightarrow> o_status x' = o_status x))"
proof -
  have "pool_ok E (db w) (w', ts')"
    by (rule pool_steps[OF assms(3) pool_ok_from_now[OF reached_pool(1)[OF assms(1,2,4,5)]] assms(4,5)])
  then have l: "lifecycle (db w) (db w')" by (simp add: pool_ok_def safe_def evolves_def)
  then obtain r' where r': "r' \<in> set (requests (db w'))" "request_evolves r r'"
    using assms(6) unfolding lifecycle_def all_evolve_def by blast
  have "\<exists>x' \<in> set (rows_of (r_id r') (db w')). o_id x' = o_id x \<and> payload x' = payload x
      \<and> (o_status x \<noteq> OutboxStatus.PENDING \<longrightarrow> o_status x' = o_status x)"
    if "x \<in> set (rows_of (r_id r) (db w))" for x
  proof -
    have x: "x \<in> set (outbox (db w))" "aggregateId x = r_id r" using that by (simp_all add: rows_of_def)
    then obtain x' where x': "x' \<in> set (outbox (db w'))" "row_evolves x x'"
      using l unfolding lifecycle_def all_evolve_def by blast
    then have "x' \<in> set (rows_of (r_id r') (db w'))"
      using x(2) r'(2) by (simp add: rows_of_def row_evolves_def request_evolves_def same_identity_def)
    then show ?thesis using x'(2) by (auto simp: row_evolves_def)
  qed
  then show ?thesis using r' reaches_terminal unfolding request_evolves_def by blast
qed

lemma demo_approved_steps: "loop_steps (fake_env True) (demo_submitted, []) (demo_approved, [])"
proof -
  have "critical (fake_env True) (db demo_submitted) demo_key (forget (approve_run (fake_env True) (r_id demo_new)))"
    by (rule critical.approve)
      (simp add: owned_def demo_submitted_db(2) request_key_def demo_key_def demo_new_def demo_request_def)
  from unit_exclusive[OF _ this, of "approve_locked (fake_env True) (r_id demo_new)"] show ?thesis
    by (simp add: demo_submitted_world alone_forget alone_approve demo_approved_db(3) demo_approved_def)
qed

lemma interleaved_rows_only_advance_witness:
  "demo_new \<in> set (requests (db demo_submitted)) \<and>
   (\<exists>r' \<in> set (requests (db demo_approved)). same_identity demo_new r' \<and> reaches RequestStatus.PENDING (status r'))"
proof -
  have "demo_new \<in> set (requests (db demo_submitted))" "status demo_new = RequestStatus.PENDING"
    by (simp_all add: demo_submitted_db(2) demo_new_def demo_request_def)
  then show ?thesis
    using interleaved_rows_only_advance[OF demo_start_starts demo_submitted_steps demo_approved_steps demo_inj, of demo_new]
    by auto
qed

section \<open>A race for a key\<close>

lemma rename_keeps_keys:
  assumes "x \<in> set (requests d)" "r_id x \<noteq> r_id r"
  shows "x \<in> set (requests (rename_key r d))"
  using assms by (auto simp: rename_key_def in_set_update_where)

lemma save_taken: "key_taken r (db w) \<Longrightarrow> save_request r w = (Raise QueryFailedError, drop_fault w)"
  by (simp add: save_request_def)

lemma create_taken:
  assumes inv: "db_inv E (uuidNext w) (db w)" "sole_writer w" and inj: "inj (uuid E)"
    and x: "x \<in> set (requests (db w))" "idempotencyKey x = idempotencyKey req"
    and ex: "\<And>r. existing = Some r \<Longrightarrow> r_id r \<noteq> r_id x"
  shows "fst (create_and_reserve E existing req w) = Raise QueryFailedError
    \<and> db (snd (create_and_reserve E existing req w)) = db w"
proof -
  let ?body = "andThen (fresh_uuid E) (\<lambda>i.
        andThen (save_request (req\<lparr>r_id := i\<rparr>)) (\<lambda>_.
        andThen (reserve (r_employeeId req) (r_locationId req) (days req)) (\<lambda>_.
        return (req\<lparr>r_id := i\<rparr>))))"
  have body: "fst (?body w') = Raise QueryFailedError"
    if "x \<in> set (requests (db w'))" "uuidNext w' = uuidNext w" for w'
  proof -
    have "uuid E (uuidNext w') \<noteq> r_id x"
      using fresh_id(1)[OF inj inv(1)] x(1) that(2) by auto
    then have "key_taken (req\<lparr>r_id := uuid E (uuidNext w')\<rparr>) (db w')"
      unfolding key_taken_def using that(1) x(2) by (intro bexI[of _ x]) auto
    then show ?thesis by (simp add: andThen_def fresh_uuid_def save_request_def)
  qed
  have "fst (andThen (case existing of None \<Rightarrow> return ()
          | Some old \<Rightarrow> if status old \<in> TERMINAL_STATUSES then free_terminal_key old else return ())
        (\<lambda>_. ?body) w) = Raise QueryFailedError"
  proof (cases existing)
    case None
    then show ?thesis using body x(1) by (simp add: andThen_return)
  next
    case (Some old)
    consider "free_terminal_key old w = (Raise QueryFailedError, drop_fault w)"
      | "free_terminal_key old w = (Ok (), (drop_fault w)\<lparr>db := rename_key old (db w)\<rparr>)"
      using next_fault_sole[OF inv(2)]
      by (cases "key_taken (old\<lparr>idempotencyKey := terminal_key old\<rparr>) (db w)"; cases "next_fault w")
        (auto simp: free_terminal_key_def write_db_def)
    then have "fst (andThen (free_terminal_key old) (\<lambda>_. ?body) w) = Raise QueryFailedError"
    proof cases
      case 1
      then show ?thesis by (simp add: andThen_def[of "free_terminal_key old"])
    next
      case 2
      have "fst (?body ((drop_fault w)\<lparr>db := rename_key old (db w)\<rparr>)) = Raise QueryFailedError"
        by (rule body) (use rename_keeps_keys[OF x(1)] ex[OF Some] in auto)
      then show ?thesis unfolding andThen_def[of "free_terminal_key old"] 2 by simp
    qed
    then show ?thesis using Some body x(1) by (simp add: andThen_return)
  qed
  then show ?thesis
    unfolding create_and_reserve_def transaction_def
    by (auto split: prod.splits outcome.splits)
qed

text \<open>C31: An idempotency key taken by another balance's request between the look-up of the key
  and the insert, which the lock of one balance does not exclude, fails on the unique column: the
  submission raises the database's error and leaves the database as it was, no days reserved.\<close>

theorem same_key_race_fails_cleanly:
  assumes "starts w0" "loop_steps E (w0, []) (w, ts)" "inj (uuid E)" "balanceLazyLoadEnabled E"
    and "x \<in> set (requests (db w))" "idempotencyKey x = key"
    and "\<forall>r. existing = Some r \<longrightarrow> r_id r \<noteq> r_id x"
  shows "fst (create_block E e l s t key existing n w) = Raise QueryFailedError
    \<and> db (snd (create_block E e l s t key existing n w)) = db w"
proof -
  let ?w = "w\<lparr>uuidNext := Suc (uuidNext w)\<rparr>"
  let ?req = "new_request E e l s t key n (clock w) (uuid E (uuidNext w))"
  have ok: "db_inv E (uuidNext w) (db w)" "sole_writer w"
    using reached_pool(1,2)[OF assms(1-4)] by (simp_all add: pool_ok_def safe_def world_inv_def)
  have "fst (create_and_reserve E existing ?req ?w) = Raise QueryFailedError
      \<and> db (snd (create_and_reserve E existing ?req ?w)) = db ?w"
    by (rule create_taken[where x = x])
      (use ok assms(3,5-7) db_inv_mono[OF ok(1) le_SucI[OF order_refl]] in \<open>simp_all add: new_request_def\<close>)
  then show ?thesis
    by (simp add: create_block_def andThen_now andThen_uuid)
qed

lemma same_key_race_fails_cleanly_witness:
  "fst (create_block (fake_env True) ''emp2'' ''loc1'' ''2026-06-01'' ''2026-06-02'' ''key-1'' None 2 demo_busy)
     = Raise QueryFailedError"
  using same_key_race_fails_cleanly[OF demo_start_starts demo_busy_steps demo_inj, of demo_new "''key-1''" None
      "''emp2''" "''loc1''" "''2026-06-01''" "''2026-06-02''" 2] demo_submitted_db(2)
  by (simp add: demo_busy_def demo_new_def demo_request_def)

text \<open>Cutting the operations at their awaits adds nothing when nobody interferes: each run, taken
  alone from first block to last, is the operation of the service.\<close>

lemma uninterrupted_runs_are_the_operations:
  "alone (submit_run E e l s t key) = submit_locked E e l s t key
   \<and> alone (approve_run E i) = approve_locked E i
   \<and> alone (reject_run i) = (reject_locked i :: (request, 'h) svc)
   \<and> alone (cancel_run E i) = cancel_locked E i
   \<and> alone (expire_run i) = (expire i :: (request, 'h) svc)
   \<and> alone (dispatch_run E j) = dispatch_locked E j
   \<and> alone (hydrate_run E e l) = hydrate E e l"
  by (simp only: alone_submit alone_approve alone_settle alone_dispatch alone_hydrate)

end
