(* ===== verification/Account_Actions.thy ===== *)
theory Account_Actions
  imports System Actor_Results
begin

text \<open>
  The service as a refinement of the leave account, operation by operation: for every critical section
  the words of actions it may perform on the account (\<open>submit_words\<close>, \<open>approve_words\<close> and their like), as
  a function of the world it starts in and of the value it returns. \<open>performs\<close> says that the account of the
  database after the operation is the one a word leads to, so every guard of \<open>act\<close> holds where it runs:
  leave is asked for within the free days, a status moves along an edge with exactly its days, and a new
  number of available days is the one HCM tells.
\<close>

section \<open>Sequences of actions\<close>

fun acts :: "action list \<Rightarrow> leave_account \<Rightarrow> leave_account option" where
  "acts [] a = Some a"
| "acts (x # xs) a = (case act x a of None \<Rightarrow> None | Some b \<Rightarrow> acts xs b)"

lemma acts_append: "acts (xs @ ys) a = (case acts xs a of None \<Rightarrow> None | Some b \<Rightarrow> acts ys b)"
  by (induction xs arbitrary: a) (simp_all split: option.split)

section \<open>What an update of the database does to the account\<close>

named_theorems account_simps

lemma account_of_set_request [account_simps]:
  "account_of (set_request r d) = (account_of d)\<lparr>acc_requests :=
     (acc_requests (account_of d))(r_id r \<mapsto> (key_of r, days r, status r))\<rparr>"
proof -
  have "List.find (\<lambda>x. r_id x = i) (upsert_by r_id r xs)
      = (if i = r_id r then Some r else List.find (\<lambda>x. r_id x = i) xs)" for i and xs :: "request list"
  proof (cases "\<exists>y \<in> set xs. r_id y = r_id r")
    case True
    then obtain y where "y \<in> set xs" "r_id r = r_id y" by auto
    then show ?thesis using find_replaced[of y xs r i] by (simp add: upsert_existing)
  next
    case False
    then have "r_id r \<notin> r_id ` set xs" by auto
    moreover from False have "List.find (\<lambda>x. r_id x = r_id r) xs = None" by (simp add: find_None_all)
    ultimately show ?thesis by (auto simp: upsert_new find_appended split: option.split)
  qed
  then show ?thesis
    by (intro leave_account.equality)
      (auto simp: account_of_def set_request_def available_of_def reserved_of_def fun_eq_iff)
qed

lemma account_of_change [account_simps]:
  assumes "balances_keyed d" "keeps_pk f"
  shows "account_of (change_balance f k d) = (account_of d)\<lparr>
     acc_available := (acc_available (account_of d))(k := available (f (bal d k))),
     acc_reserved := (acc_reserved (account_of d))(k := reserved (f (bal d k)))\<rparr>"
  by (intro leave_account.equality) (auto simp: account_of_def of_change[OF assms] fun_eq_iff)

lemma account_of_same [account_simps]:
  "account_of (set_outbox x d) = account_of d" "account_of (void_files i d) = account_of d"
  "account_of (log_batch b d) = account_of d" "account_of (d\<lparr>reconEvents := es\<rparr>) = account_of d"
  by (rule account_of_cong; simp add: fun_eq_iff available_of_def reserved_of_def set_outbox_def void_files_def log_batch_def)+

lemma account_of_rename [account_simps]: "account_of (rename_key r d) = account_of d"
proof -
  have "map_option (\<lambda>r. (key_of r, days r, status r)) (List.find (\<lambda>x. r_id x = i) (update_where (\<lambda>x. r_id x = r_id r) (\<lambda>x. x\<lparr>idempotencyKey := k\<rparr>) xs))
     = map_option (\<lambda>r. (key_of r, days r, status r)) (List.find (\<lambda>x. r_id x = i) xs)" for i k xs
    by (induction xs) (auto simp: update_where_def key_of_def)
  then show ?thesis
    by (intro leave_account.equality)
      (simp_all add: account_of_def rename_key_def available_of_def reserved_of_def fun_eq_iff)
qed

lemma account_of_fresh_row [account_simps]:
  assumes "balances d (e, l) = None"
  shows "account_of (set_balance (fresh_balance e l) d) = account_of d"
  by (rule account_of_cong)
    (use assms in \<open>auto simp: available_of_def reserved_of_def set_balance_def fresh_balance_def pk_of_def fun_eq_iff\<close>)

lemma account_fields:
  "acc_available (account_of d) k = available_of d k" "acc_reserved (account_of d) k = reserved_of d k"
  by (simp_all add: account_of_def)

lemma account_request:
  assumes "db_inv E n d" "r \<in> set (requests d)"
  shows "acc_requests (account_of d) (r_id r) = Some (key_of r, days r, status r)"
  using find_key_eq[of r_id "requests d" r] db_invD(2)[OF assms(1)] assms(2)
  by (simp add: account_of_def keys_distinct_def)

section \<open>Moves\<close>

lemma days_held:
  assumes "db_inv E n d" "r \<in> set (requests d)" "status r = RequestStatus.PENDING"
  shows "days r \<le> reserved_of d (key_of r)"
  using pending_days_le_reserved[OF assms(1,2)] assms(3) by (simp add: pending_days_def)

lemma moves_account:
  assumes inv: "db_inv E n d" and r: "r \<in> set (requests d)" "r_id r' = r_id r" "key_of r' = key_of r" "days r' = days r"
    and d': "account_of d' = account_of (set_request r' (change_balance f (key_of r) d))" and f: "keeps_pk f"
    and edge: "status_edge (status r) (status r')"
    and av: "available (f (bal d (key_of r))) = available_of d (key_of r) + deducted_in (status r) (days r) - deducted_in (status r') (days r)"
    and res: "reserved (f (bal d (key_of r))) = reserved_of d (key_of r) + reserved_in (status r') (days r) - reserved_in (status r) (days r)"
  shows "act (Move (r_id r) (status r')) (account_of d) = Some (account_of d')"
  unfolding d' using account_request[OF inv r(1)] edge db_invD(1)[OF inv] r(2-4) av res f
  by (simp add: account_simps account_fields)

lemma moves_status:
  assumes inv: "db_inv E n d" and r: "r \<in> set (requests d)" "r_id r' = r_id r" "key_of r' = key_of r" "days r' = days r"
    and edge: "status_edge (status r) (status r')"
    and same: "deducted_in (status r) (days r) = deducted_in (status r') (days r)" "reserved_in (status r) (days r) = reserved_in (status r') (days r)"
  shows "act (Move (r_id r) (status r')) (account_of d) = Some (account_of (set_request r' d))"
  using account_request[OF inv r(1)] edge r(2-4) same by (simp add: account_simps)


section \<open>Settling a request\<close>

definition settles_as :: "string \<Rightarrow> RequestStatus \<Rightarrow> 'h world \<Rightarrow> request \<Rightarrow> 'h world \<Rightarrow> bool" where
  "settles_as i s w x w' = (\<exists>r \<in> set (requests (db w)). r_id r = i \<and> x = r\<lparr>status := s\<rparr> \<and> status r \<noteq> s
     \<and> act (Move i s) (account_of (db w)) = Some (account_of (db w')))"

lemma settles_asI:
  "r \<in> set (requests (db w)) \<Longrightarrow> status r \<noteq> s \<Longrightarrow> act (Move (r_id r) s) (account_of (db w)) = Some (account_of (db w'))
    \<Longrightarrow> settles_as (r_id r) s w (r\<lparr>status := s\<rparr>) w'"
  by (auto simp: settles_as_def)

lemma spec_tx_account:
  assumes "spec m Q (\<lambda>_. True) w"
  shows "spec (transaction m) Q (\<lambda>w'. account_of (db w') = account_of (db w)) w"
  by (rule spec_transaction, rule spec_mono[OF assms]) simp_all

lemma released_account:
  assumes inv: "db_inv E n d" and r: "r \<in> set (requests d)" "status r = RequestStatus.PENDING"
    and s: "s \<in> TERMINAL_STATUSES" and d': "account_of d' = account_of (set_request (r\<lparr>status := s\<rparr>) (change_balance (mut_release (days r)) (key_of r) d))"
  shows "act (Move (r_id r) s) (account_of d) = Some (account_of d')"
proof -
  have e: "status_edge (status r) (status (r\<lparr>status := s\<rparr>))" using r(2) s by simp
  have "act (Move (r_id r) (status (r\<lparr>status := s\<rparr>))) (account_of d) = Some (account_of d')"
    by (rule moves_account[OF inv r(1) _ _ _ d' _ e])
      (use days_held[OF inv r] r(2) s in \<open>auto simp: mut_release_def of_bal deducted_in_def reserved_in_def
         TERMINAL_STATUSES_def key_of_def\<close>)
  then show ?thesis by simp
qed

lemma restored_account:
  assumes inv: "db_inv E n d" and r: "r \<in> set (requests d)"
    and st: "status r = RequestStatus.PENDING_SYNC \<and> s \<in> TERMINAL_STATUSES
      \<or> status r = RequestStatus.APPROVED \<and> s = RequestStatus.CANCELLED"
    and d': "account_of d' = account_of (set_request (r\<lparr>status := s\<rparr>) (change_balance (mut_restore (days r)) (key_of r) d))"
  shows "act (Move (r_id r) s) (account_of d) = Some (account_of d')"
proof -
  have e: "status_edge (status r) (status (r\<lparr>status := s\<rparr>))" using st by auto
  have "act (Move (r_id r) (status (r\<lparr>status := s\<rparr>))) (account_of d) = Some (account_of d')"
    by (rule moves_account[OF inv r _ _ _ d' _ e])
      (use st in \<open>auto simp: mut_restore_def of_bal deducted_in_def reserved_in_def TERMINAL_STATUSES_def key_of_def\<close>)
  then show ?thesis by simp
qed

lemma withdraw_account:
  assumes s: "safe E c d0 w" and r: "r \<in> set (requests (db w))" and t: "t \<in> TERMINAL_STATUSES"
    and st: "status r = RequestStatus.PENDING \<or> status r = RequestStatus.PENDING_SYNC"
    and m: "status r = RequestStatus.PENDING \<Longrightarrow> m = release (r_employeeId r) (r_locationId r) (days r)
        \<or> m = andThen (release (r_employeeId r) (r_locationId r) (days r)) (\<lambda>_. voidPendingFileRows (r_id r))
        \<or> m = andThen (voidPendingFileRows (r_id r)) (\<lambda>_. release (r_employeeId r) (r_locationId r) (days r))"
      "status r = RequestStatus.PENDING_SYNC \<Longrightarrow> m = restore_and_void r
        \<or> m = andThen (voidPendingFileRows (r_id r)) (\<lambda>_. restore (r_employeeId r) (r_locationId r) (days r))"
  shows "spec (transaction (andThen m (\<lambda>_. andThen (save_request (r\<lparr>status := t\<rparr>)) (\<lambda>_. return (r\<lparr>status := t\<rparr>)))))
     (settles_as (r_id r) t w) (\<lambda>w'. account_of (db w') = account_of (db w)) w"
proof (rule spec_tx_account)
  note inv = safeD(2)[OF s] and sw = safeD(1)[OF s]
  have ne: "status r \<noteq> t" using st t by (auto simp: TERMINAL_STATUSES_def)
  have keyed: "balances_keyed (void_files i (db w))" for i using db_invD(1)[OF inv] by (simp add: void_files_def balances_keyed_def)
  have b: "bal (void_files i (db w)) k = bal (db w) k" for i k by (simp add: void_files_def bal_def)
  note same = account_simps keyed b db_invD(1)[OF inv]
  show "spec (andThen m (\<lambda>_. andThen (save_request (r\<lparr>status := t\<rparr>)) (\<lambda>_. return (r\<lparr>status := t\<rparr>))))
      (settles_as (r_id r) t w) (\<lambda>_. True) w"
  proof (cases "status r = RequestStatus.PENDING")
    case True
    then consider (1) "m = release (r_employeeId r) (r_locationId r) (days r)"
      | (2) "m = andThen (release (r_employeeId r) (r_locationId r) (days r)) (\<lambda>_. voidPendingFileRows (r_id r))"
      | (3) "m = andThen (voidPendingFileRows (r_id r)) (\<lambda>_. release (r_employeeId r) (r_locationId r) (days r))"
      using m(1) by blast
    then show ?thesis
    proof cases
      case 1
      show ?thesis unfolding 1
        by (intro spec_rules settles_asI[OF r ne] released_account[OF inv r True t])
          (use sw in \<open>simp_all add: same flip: key_of_def\<close>)
    next
      case 2
      show ?thesis unfolding 2
        by (intro spec_rules settles_asI[OF r ne] released_account[OF inv r True t])
          (use sw in \<open>simp_all add: same flip: key_of_def\<close>)
    next
      case 3
      show ?thesis unfolding 3
        by (intro spec_rules settles_asI[OF r ne] released_account[OF inv r True t])
          (use sw in \<open>simp_all add: same flip: key_of_def\<close>)
    qed
  next
    case False
    with st have S: "status r = RequestStatus.PENDING_SYNC" by simp
    with t have T: "status r = RequestStatus.PENDING_SYNC \<and> t \<in> TERMINAL_STATUSES
        \<or> status r = RequestStatus.APPROVED \<and> t = RequestStatus.CANCELLED" by simp
    consider (1) "m = restore_and_void r"
      | (2) "m = andThen (voidPendingFileRows (r_id r)) (\<lambda>_. restore (r_employeeId r) (r_locationId r) (days r))"
      using m(2) S by blast
    then show ?thesis
    proof cases
      case 1
      show ?thesis unfolding 1 restore_and_void_def
        by (intro spec_rules settles_asI[OF r ne] restored_account[OF inv r T])
          (use sw in \<open>simp_all add: same flip: key_of_def\<close>)
    next
      case 2
      show ?thesis unfolding 2
        by (intro spec_rules settles_asI[OF r ne] restored_account[OF inv r T])
          (use sw in \<open>simp_all add: same flip: key_of_def\<close>)
    qed
  qed
qed

lemma spec_reject_account:
  assumes s: "safe E c d0 w"
  shows "spec (reject_locked i) (settles_as i RequestStatus.REJECTED w) (\<lambda>w'. account_of (db w') = account_of (db w)) w"
  unfolding reject_locked_def
proof (intro spec_found spec_guard refl)
  fix r assume r: "r \<in> set (requests (db w))" "r_id r = i"
    and st: "\<not> (status r \<noteq> RequestStatus.PENDING \<and> status r \<noteq> RequestStatus.PENDING_SYNC)"
  show "spec (transaction (andThen (if status r = RequestStatus.PENDING
            then release (r_employeeId r) (r_locationId r) (days r) else restore_and_void r)
          (\<lambda>_. andThen (save_request (r\<lparr>status := RequestStatus.REJECTED\<rparr>))
                (\<lambda>_. return (r\<lparr>status := RequestStatus.REJECTED\<rparr>)))))
      (settles_as i RequestStatus.REJECTED w) (\<lambda>w'. account_of (db w') = account_of (db w)) w"
    unfolding r(2)[symmetric]
    by (rule withdraw_account[OF s r(1)]) (use st in \<open>auto simp: TERMINAL_STATUSES_def\<close>)
qed

lemma spec_expire_account:
  assumes s: "safe E c d0 w"
  shows "spec (expire i) (settles_as i RequestStatus.EXPIRED w) (\<lambda>w'. account_of (db w') = account_of (db w)) w"
  unfolding expire_def
proof (intro spec_found spec_guard refl)
  fix r assume r: "r \<in> set (requests (db w))" "r_id r = i"
    and st: "\<not> (status r \<noteq> RequestStatus.PENDING \<and> status r \<noteq> RequestStatus.PENDING_SYNC)"
  show "spec (transaction (andThen (if status r = RequestStatus.PENDING
            then andThen (release (r_employeeId r) (r_locationId r) (days r)) (\<lambda>_. voidPendingFileRows (r_id r))
            else restore_and_void r)
          (\<lambda>_. andThen (save_request (r\<lparr>status := RequestStatus.EXPIRED\<rparr>))
                (\<lambda>_. return (r\<lparr>status := RequestStatus.EXPIRED\<rparr>)))))
      (settles_as i RequestStatus.EXPIRED w) (\<lambda>w'. account_of (db w') = account_of (db w)) w"
    unfolding r(2)[symmetric]
    by (rule withdraw_account[OF s r(1)]) (use st in \<open>auto simp: TERMINAL_STATUSES_def\<close>)
qed


lemma spec_cancel_account:
  assumes s: "safe E c d0 w"
  shows "spec (cancel_locked E i)
     (\<lambda>x w'. settles_as i RequestStatus.CANCELLED w x w'
        \<or> x \<in> set (requests (db w)) \<and> r_id x = i \<and> status x = RequestStatus.CANCELLED \<and> account_of (db w') = account_of (db w))
     (\<lambda>w'. account_of (db w') = account_of (db w)) w"
  unfolding cancel_locked_def
proof (intro spec_found spec_if[OF spec_return] spec_guard refl)
  let ?Q = "\<lambda>x w'. settles_as i RequestStatus.CANCELLED w x w'
        \<or> x \<in> set (requests (db w)) \<and> r_id x = i \<and> status x = RequestStatus.CANCELLED \<and> account_of (db w') = account_of (db w)"
  fix r assume r: "r \<in> set (requests (db w))" "r_id r = i"
  show "?Q r w" if "status r = RequestStatus.CANCELLED" using r that by simp
  assume nc: "status r \<noteq> RequestStatus.CANCELLED"
    and st: "\<not> (status r \<noteq> RequestStatus.PENDING \<and> status r \<noteq> RequestStatus.PENDING_SYNC \<and> status r \<noteq> RequestStatus.APPROVED)"
  let ?save = "andThen (save_request (r\<lparr>status := RequestStatus.CANCELLED\<rparr>)) (\<lambda>_. return (r\<lparr>status := RequestStatus.CANCELLED\<rparr>))"
  have "spec (transaction (andThen (cancel_effect E r) (\<lambda>_. ?save)))
      (settles_as (r_id r) RequestStatus.CANCELLED w) (\<lambda>w'. account_of (db w') = account_of (db w)) w"
  proof (cases "status r = RequestStatus.APPROVED")
    case True
    note inv = safeD(2)[OF s] and sw = safeD(1)[OF s]
    show ?thesis unfolding cancel_effect_def restore_and_reverse_def
      by (rule spec_tx_account, simp add: True, intro spec_rules settles_asI[OF r(1) nc] restored_account[OF inv r(1)])
        (use sw db_invD(1)[OF inv] in \<open>simp_all add: True account_simps set_outbox_change[symmetric] flip: key_of_def\<close>)
  next
    case False
    show ?thesis
    proof (cases "status r = RequestStatus.PENDING")
      case True
      then show ?thesis
        by (intro withdraw_account[OF s r(1)]) (simp_all add: TERMINAL_STATUSES_def cancel_effect_def)
    next
      case nP: False
      then have S: "status r = RequestStatus.PENDING_SYNC" using False st by blast
      have "spec (transaction (andThen (andThen (voidPendingFileRows (r_id r)) (\<lambda>_. restore (r_employeeId r) (r_locationId r) (days r))) (\<lambda>_. ?save)))
          (settles_as (r_id r) RequestStatus.CANCELLED w) (\<lambda>w'. account_of (db w') = account_of (db w)) w"
        by (intro withdraw_account[OF s r(1)]) (simp_all add: TERMINAL_STATUSES_def S)
      moreover have "transaction (andThen (cancel_effect E r) (\<lambda>_. ?save)) w
          = transaction (andThen (andThen (voidPendingFileRows (r_id r)) (\<lambda>_. restore (r_employeeId r) (r_locationId r) (days r))) (\<lambda>_. ?save)) w"
        using sync_file_not_sent[OF safeD(2)[OF s] r(1) S]
        by (simp add: transaction_def andThen_def cancel_effect_def S findFileRow_def query_def)
      ultimately show ?thesis by (simp add: spec_def)
    qed
  qed
  then show "spec (transaction (andThen (cancel_effect E r) (\<lambda>_. ?save))) ?Q (\<lambda>w'. account_of (db w') = account_of (db w)) w"
    by (rule spec_mono) (simp_all add: r(2))
qed


section \<open>Words of actions\<close>

definition leads :: "action list set \<Rightarrow> 'h world \<Rightarrow> 'h world \<Rightarrow> bool" where
  "leads W w w' = (\<exists>as \<in> W. acts as (account_of (db w)) = Some (account_of (db w')))"

definition performs :: "('a, 'h) svc \<Rightarrow> ('a \<Rightarrow> action list set) \<Rightarrow> action list set \<Rightarrow> 'h world \<Rightarrow> bool" where
  "performs m A B w = spec m (\<lambda>x. leads (A x) w) (leads B w) w"

text \<open>What HCM would tell now about a balance: nothing when it cannot be asked.\<close>

definition told :: "'h env \<Rightarrow> balance_pk \<Rightarrow> 'h \<Rightarrow> action list" where
  "told E k h = (case fst (hcm_getBalance E (fst k) (snd k) h) of
     Inl _ \<Rightarrow> [] | Inr s \<Rightarrow> [Tell (h_employeeId s, h_locationId s) (h_balance s)])"

lemma leads_same [intro]: "account_of (db w') = account_of (db w) \<Longrightarrow> [] \<in> W \<Longrightarrow> leads W w w'"
  by (force simp: leads_def)

lemma leads_one: "act x (account_of (db w)) = Some (account_of (db w')) \<Longrightarrow> [x] \<in> W \<Longrightarrow> leads W w w'"
  by (force simp: leads_def)

lemma leads_upd [simp]: "leads W (w\<lparr>held := h\<rparr>) = leads W w" "leads W w (w'\<lparr>held := h\<rparr>) = leads W w w'"
  by (simp_all add: leads_def fun_eq_iff)

lemma performs_exclusive:
  assumes "performs m A B (w\<lparr>held := k # held w\<rparr>)" "[] \<in> B"
  shows "performs (runExclusive k m) A B w"
  unfolding performs_def
  by (rule spec_exclusive, use assms in \<open>auto simp: performs_def\<close>)

lemma snapshot_account:
  assumes "db_inv E n d"
  shows "act (Tell (h_employeeId s, h_locationId s) (h_balance s)) (account_of d)
    = Some (account_of (change_balance (mut_snapshot s) (h_employeeId s, h_locationId s) d))"
  using db_invD(1)[OF assms]
  by (simp add: account_simps mut_snapshot_def of_bal) (simp add: account_of_def)

section \<open>Reading under the balance's own lock\<close>

lemma spec_getBalance_held:
  assumes s: "safe E c d0 w" and k: "balanceKey e l \<in> set (held w)"
  shows "spec (getBalance E e l)
     (\<lambda>v w'. safe E c d0 w' \<and> only_balances w w' \<and> account_of (db w') = account_of (db w))
     (\<lambda>w'. account_of (db w') = account_of (db w)) w"
  unfolding getBalance_def
proof (intro spec_andThen spec_findBalance spec_if)
  show "spec (runExclusive (balanceKey e l) (hydrate E e l))
     (\<lambda>v w'. safe E c d0 w' \<and> only_balances w w' \<and> account_of (db w') = account_of (db w))
     (\<lambda>w'. account_of (db w') = account_of (db w)) w"
    using k by (simp add: spec_def runExclusive_def)
next
  show "spec (case balances (db w) (e, l) of
          None \<Rightarrow> andThen (save_balance (fresh_balance e l)) (\<lambda>_. return (Some (fresh_balance e l, False)))
        | Some b \<Rightarrow> return (Some (b, False)))
     (\<lambda>v w'. safe E c d0 w' \<and> only_balances w w' \<and> account_of (db w') = account_of (db w))
     (\<lambda>w'. account_of (db w') = account_of (db w)) w"
    using s safeD[OF s] by (intro spec_rules) (simp_all add: fresh_row_safe only_balances_def account_of_fresh_row)
qed (use s in \<open>simp add: spec_return\<close>)


section \<open>Approval\<close>

text \<open>Behind the exchange with HCM nothing throws what the fallback of the approval catches.\<close>

definition never_unavailable :: "('a, 'h) svc \<Rightarrow> 'h world \<Rightarrow> bool" where
  "never_unavailable m w = (\<forall>s. fst (m w) \<noteq> Raise (HcmUnavailableError s))"

lemma never_unavailable_andThen:
  assumes "never_unavailable m w" "\<And>x w'. m w = (Ok x, w') \<Longrightarrow> never_unavailable (f x) w'"
  shows "never_unavailable (andThen m f) w"
  using assms by (auto simp: never_unavailable_def andThen_def split: prod.splits outcome.splits)

lemma never_unavailable_transaction: "never_unavailable m w \<Longrightarrow> never_unavailable (transaction m) w"
  by (auto simp: never_unavailable_def transaction_def split: prod.splits outcome.splits)

lemma never_unavailable_saves:
  "never_unavailable (write_db f) w" "never_unavailable (save_request r) w" "never_unavailable (return x) w"
  "never_unavailable (save_balance b) w" "never_unavailable (throw TypeError) w"
  by (auto simp: throw_def never_unavailable_def write_db_def save_request_def save_balance_def return_def split: save_fault.splits)

lemma never_unavailable_change:
  "sole_writer w \<Longrightarrow> never_unavailable (andThen (findOrCreate e l) (\<lambda>b. saveWithRetry b f)) w"
  using never_unavailable_saves(4)[of _ w] by (simp add: never_unavailable_def andThen_findOrCreate saveWithRetry_sole)

lemma never_unavailable_reject: "sole_writer w \<Longrightarrow> never_unavailable (release_and_reject r) w"
  unfolding release_and_reject_def release_def
  by (intro never_unavailable_transaction never_unavailable_andThen never_unavailable_change never_unavailable_saves)

lemma never_unavailable_read:
  assumes "balanceKey e l \<in> set (held w)"
  shows "never_unavailable (getBalance E e l) w"
  using assms
  by (auto simp: never_unavailable_def getBalance_def findBalance_def query_def runExclusive_def return_def
      andThen_def save_balance_def split: option.splits save_fault.splits prod.splits outcome.splits)

lemma sole_held_change:
  assumes "andThen (findOrCreate e l) (\<lambda>b. saveWithRetry b f) w = (Ok x, w')" "sole_writer w"
  shows "sole_writer w' \<and> held w' = held w"
  using assms by (auto simp: andThen_findOrCreate saveWithRetry_sole save_balance_def split: save_fault.splits)

lemma sole_held_read:
  assumes "getBalance E e l w = (Ok x, w')" "sole_writer w" "balanceKey e l \<in> set (held w)"
  shows "sole_writer w'"
  using assms
  by (auto simp: getBalance_def findBalance_def query_def runExclusive_def return_def
      andThen_def save_balance_def split: option.splits save_fault.splits prod.splits outcome.splits if_splits)

lemma never_unavailable_refresh:
  assumes "sole_writer w" "balanceKey (r_employeeId r) (r_locationId r) \<in> set (held w)"
  shows "never_unavailable (andThen (applyHcmSnapshot snap) (\<lambda>_.
        andThen (getBalance E (r_employeeId r) (r_locationId r)) (\<lambda>v. case v of
          None \<Rightarrow> throw TypeError
        | Some (b, _) \<Rightarrow>
            if available b - reserved b < days r
            then andThen (release_and_reject r) (\<lambda>r. return (Some r))
            else return None))) w"
proof (rule never_unavailable_andThen)
  show "never_unavailable (applyHcmSnapshot snap) w"
    unfolding applyHcmSnapshot_def by (rule never_unavailable_change[OF assms(1)])
  fix x w' assume "applyHcmSnapshot snap w = (Ok x, w')"
  then have w': "sole_writer w'" "balanceKey (r_employeeId r) (r_locationId r) \<in> set (held w')"
    using sole_held_change[of _ _ _ w x w'] assms unfolding applyHcmSnapshot_def by fastforce+
  show "never_unavailable (andThen (getBalance E (r_employeeId r) (r_locationId r)) (\<lambda>v. case v of
          None \<Rightarrow> throw TypeError
        | Some (b, _) \<Rightarrow>
            if available b - reserved b < days r
            then andThen (release_and_reject r) (\<lambda>r. return (Some r))
            else return None)) w'"
  proof (rule never_unavailable_andThen, rule never_unavailable_read[OF w'(2)])
    fix v w'' assume "getBalance E (r_employeeId r) (r_locationId r) w' = (Ok v, w'')"
    then have sw: "sole_writer w''" by (rule sole_held_read[OF _ w'])
    show "never_unavailable (case v of
          None \<Rightarrow> throw TypeError
        | Some (b, _) \<Rightarrow>
            if available b - reserved b < days r
            then andThen (release_and_reject r) (\<lambda>r. return (Some r))
            else return None) w''"
      by (auto intro: never_unavailable_andThen never_unavailable_saves never_unavailable_reject sw split: option.split)
  qed
qed


lemma spec_release_and_reject_account:
  assumes s: "safe E c d0 w" and r: "r \<in> set (requests (db w))" "status r = RequestStatus.PENDING"
  shows "spec (release_and_reject r) (settles_as (r_id r) RequestStatus.REJECTED w)
     (\<lambda>w'. account_of (db w') = account_of (db w)) w"
  unfolding release_and_reject_def
  by (rule withdraw_account[OF s r(1)]) (use r(2) in \<open>simp_all add: TERMINAL_STATUSES_def\<close>)

lemma spec_commit_account:
  assumes s: "safe E c d0 w" and r: "r \<in> set (requests (db w))" "status r = RequestStatus.PENDING"
  shows "spec (commit_and_enqueue E r t)
     (\<lambda>x w'. r_id x = r_id r \<and> status x = RequestStatus.PENDING_SYNC
        \<and> act (Move (r_id r) RequestStatus.PENDING_SYNC) (account_of (db w)) = Some (account_of (db w')))
     (\<lambda>w'. account_of (db w') = account_of (db w)) w"
proof -
  note inv = safeD(2)[OF s] and sw = safeD(1)[OF s]
  let ?r = "r\<lparr>committedAt := Some t, status := RequestStatus.PENDING_SYNC\<rparr>"
  have e: "status_edge (status r) (status ?r)" using r(2) by simp
  have go: "act (Move (r_id r) RequestStatus.PENDING_SYNC) (account_of (db w)) = Some (account_of d')"
    if "account_of d' = account_of (set_request ?r (change_balance (mut_commit (days r)) (key_of r) (db w)))" for d'
  proof -
    have "act (Move (r_id r) (status ?r)) (account_of (db w)) = Some (account_of d')"
      by (rule moves_account[OF inv r(1) _ _ _ that _ e])
        (use days_held[OF inv r] r(2) in \<open>auto simp: mut_commit_def of_bal deducted_in_def reserved_in_def key_of_def\<close>)
    then show ?thesis by simp
  qed
  show ?thesis
    unfolding commit_and_enqueue_def Let_def
    by (intro spec_tx_account spec_rules conjI go)
      (use sw db_invD(1)[OF inv] in \<open>simp_all add: account_simps set_outbox_change[symmetric] flip: key_of_def\<close>)
qed

lemma spec_try_local:
  assumes "spec m Q F w" "never_unavailable m w"
  shows "spec (try_catch m (\<lambda>e. case e of HcmUnavailableError _ \<Rightarrow> return None | _ \<Rightarrow> throw e)) Q F w"
  using assms
  by (auto simp: spec_def never_unavailable_def try_catch_def throw_def split: prod.splits outcome.splits exception.splits)

lemma leads_append: "leads {as} w w1 \<Longrightarrow> leads {bs} w1 w' \<Longrightarrow> leads {as @ bs} w w'"
  by (auto simp: leads_def acts_append)

lemma leads_upd_hcm [simp]: "leads W (w\<lparr>hcm := h\<rparr>) = leads W w" "leads W w (w'\<lparr>hcm := h\<rparr>) = leads W w w'"
  by (simp_all add: leads_def fun_eq_iff)

lemma leads_mono: "leads V w w' \<Longrightarrow> V \<subseteq> W \<Longrightarrow> leads W w w'"
  by (auto simp: leads_def)

lemma settles_as_leads: "settles_as i s w x w' \<Longrightarrow> leads {[Move i s]} w w' \<and> status x = s \<and> r_id x = i"
  by (auto simp: settles_as_def leads_def)

lemma answered: "f (hcm w) = (Inr x, h) \<Longrightarrow> andThen (call_hcm f) g w = g x (w\<lparr>hcm := h\<rparr>)"
  by (simp add: andThen_def call_hcm_def)

lemma spec_refresh_account:
  assumes s: "safe E False d0 w" and r: "r \<in> set (requests (db w))" "status r = RequestStatus.PENDING"
    and k: "balanceKey (r_employeeId r) (r_locationId r) \<in> set (held w)"
  shows "spec (refresh_from_hcm E r)
     (\<lambda>v w'. case v of
        None \<Rightarrow> safe E False d0 w' \<and> r \<in> set (requests (db w')) \<and> leads {told E (key_of r) (hcm w)} w w'
      | Some x \<Rightarrow> status x = RequestStatus.REJECTED \<and> r_id x = r_id r
          \<and> leads {told E (key_of r) (hcm w) @ [Move (r_id r) RequestStatus.REJECTED]} w w')
     (leads {[], told E (key_of r) (hcm w)} w) w"
    (is "spec _ ?Q ?F w")
proof (cases "hcm_getBalance E (r_employeeId r) (r_locationId r) (hcm w)")
  case (Pair answer h)
  let ?w = "w\<lparr>hcm := h\<rparr>"
  show ?thesis
  proof (cases answer)
    case (Inl e)
    have t: "told E (key_of r) (hcm w) = []" by (simp add: told_def key_of_def Pair Inl)
    have "leads {[]} w w" "leads {[], []} w w" by (simp_all add: leads_def)
    then show ?thesis
      using s r(1) unfolding refresh_from_hcm_def t
      by (simp add: spec_def try_catch_def andThen_def call_hcm_def Pair Inl return_def throw_def split: exception.split)
  next
    case (Inr snap)
    let ?tell = "[Tell (h_employeeId snap, h_locationId snap) (h_balance snap)]"
    have t: "told E (key_of r) (hcm w) = ?tell" by (simp add: told_def key_of_def Pair Inr)
    have sw: "safe E False d0 ?w" using s by simp
    let ?body = "\<lambda>snap. andThen (applyHcmSnapshot snap) (\<lambda>_.
        andThen (getBalance E (r_employeeId r) (r_locationId r)) (\<lambda>v. case v of
          None \<Rightarrow> throw TypeError
        | Some (b, _) \<Rightarrow>
            if available b - reserved b < days r
            then andThen (release_and_reject r) (\<lambda>r. return (Some r))
            else return None))"
    let ?d = "change_balance (mut_snapshot snap) (h_employeeId snap, h_locationId snap) (db w)"
    let ?w1 = "(drop_fault ?w)\<lparr>db := ?d\<rparr>"
    have s1: "safe E False d0 ?w1" using safeD[OF sw] by (intro snapshot_safe[OF sw]) simp_all
    have l1: "leads {?tell} w ?w1" using snapshot_account[OF safeD(2)[OF s]] by (simp add: leads_def)
    have body: "spec (?body snap) ?Q ?F ?w"
    proof (intro spec_andThen spec_applyHcmSnapshot)
      show "spec (getBalance E (r_employeeId r) (r_locationId r)) (\<lambda>v. spec (case v of
          None \<Rightarrow> throw TypeError
        | Some (b, _) \<Rightarrow>
            if available b - reserved b < days r
            then andThen (release_and_reject r) (\<lambda>r. return (Some r))
            else return None) ?Q ?F) ?F ((drop_fault ?w)\<lparr>db := change_balance (mut_snapshot snap)
              (h_employeeId snap, h_locationId snap) (db ?w)\<rparr>)"
      proof (rule spec_mono[OF spec_getBalance_held])
        show "safe E False d0 ((drop_fault ?w)\<lparr>db := change_balance (mut_snapshot snap)
              (h_employeeId snap, h_locationId snap) (db ?w)\<rparr>)" using s1 by simp
        show "balanceKey (r_employeeId r) (r_locationId r) \<in> set (held ((drop_fault ?w)\<lparr>db := change_balance (mut_snapshot snap)
              (h_employeeId snap, h_locationId snap) (db ?w)\<rparr>))" using k by simp
      next
        fix w' :: "'a world" assume "account_of (db w') = account_of (db ((drop_fault ?w)\<lparr>db := change_balance (mut_snapshot snap)
              (h_employeeId snap, h_locationId snap) (db ?w)\<rparr>))"
        then show "?F w'" using l1 by (simp add: leads_def t)
      next
        fix v :: balance_view and w2 assume q: "safe E False d0 w2 \<and> only_balances ((drop_fault ?w)\<lparr>db := change_balance (mut_snapshot snap)
              (h_employeeId snap, h_locationId snap) (db ?w)\<rparr>) w2 \<and> account_of (db w2) = account_of (db ((drop_fault ?w)\<lparr>db :=
              change_balance (mut_snapshot snap) (h_employeeId snap, h_locationId snap) (db ?w)\<rparr>))"
        then have r2: "r \<in> set (requests (db w2))" and s2: "safe E False d0 w2" and l2: "leads {?tell} w w2"
          using r(1) l1 by (simp_all add: only_balances_def leads_def)
        have rej: "spec (andThen (release_and_reject r) (\<lambda>r. return (Some r))) ?Q ?F w2"
          by (rule spec_andThen, rule spec_mono[OF spec_release_and_reject_account[OF s2 r2 r(2)]])
            (use l2 in \<open>auto intro!: spec_return leads_append[OF l2] simp: t leads_def dest: settles_as_leads\<close>)
        have go: "spec (return None) ?Q ?F w2" using s2 r2 l2 by (simp add: spec_return t)
        have "?F w2" using l2 by (auto simp: t elim: leads_mono)
        then show "spec (case v of
          None \<Rightarrow> throw TypeError
        | Some (b, _) \<Rightarrow>
            if available b - reserved b < days r
            then andThen (release_and_reject r) (\<lambda>r. return (Some r))
            else return None) ?Q ?F w2"
          using rej go by (auto intro: spec_throw split: option.split)
      qed
    qed (use safeD[OF sw] in \<open>simp_all add: leads_def\<close>)
    have "spec (try_catch (?body snap) (\<lambda>e. case e of HcmUnavailableError _ \<Rightarrow> return None | _ \<Rightarrow> throw e)) ?Q ?F ?w"
      by (rule spec_try_local[OF body never_unavailable_refresh]) (use safeD[OF sw] k in simp_all)
    moreover have "refresh_from_hcm E r w = try_catch (?body snap) (\<lambda>e. case e of HcmUnavailableError _ \<Rightarrow> return None | _ \<Rightarrow> throw e) ?w"
      by (simp add: refresh_from_hcm_def try_catch_def answered[of "hcm_getBalance E (r_employeeId r) (r_locationId r)" w snap h] Pair Inr)
    ultimately show ?thesis by (simp add: spec_def)
  qed
qed


text \<open>The words of a request's own operations.\<close>

definition approve_words :: "'h env \<Rightarrow> request \<Rightarrow> 'h world \<Rightarrow> request \<Rightarrow> action list set" where
  "approve_words E r w x =
     (if str_less (startDate r) (civil_date_string (clock w)) then {[Move (r_id r) RequestStatus.REJECTED]}
      else {told E (key_of r) (hcm w) @ [Move (r_id r) s] |s. s = status x \<and> s \<in> {RequestStatus.PENDING_SYNC, RequestStatus.REJECTED}})"

definition attempt_words :: "'h env \<Rightarrow> request \<Rightarrow> 'h world \<Rightarrow> action list set" where
  "attempt_words E r w = {[], told E (key_of r) (hcm w)}"

lemma approve_performs:
  assumes s: "safe E False d0 w" and r: "r \<in> set (requests (db w))"
    and k: "balanceKey (r_employeeId r) (r_locationId r) \<in> set (held w)"
  shows "performs (approve_locked E (r_id r)) (approve_words E r w) (attempt_words E r w) w"
  unfolding performs_def approve_locked_def
proof (intro spec_found spec_guard spec_andThen spec_now spec_if)
  have same: "leads (attempt_words E r w) w w'" if "account_of (db w') = account_of (db w)" for w'
    using that by (auto simp: attempt_words_def)
  then show "leads (attempt_words E r w) w w" "leads (attempt_words E r w) w w" by simp_all
  fix q assume q: "q \<in> set (requests (db w))" "r_id q = r_id r" and "\<not> status q \<noteq> RequestStatus.PENDING"
  then have qr: "q = r" and st: "status r = RequestStatus.PENDING"
    using key_unique[of r_id "requests (db w)"] db_invD(2)[OF safeD(2)[OF s]] r by (auto simp: keys_distinct_def)
  show "spec (release_and_reject q) (\<lambda>x. leads (approve_words E r w x) w) (leads (attempt_words E r w) w) w"
    if "str_less (startDate q) (civil_date_string (clock w))"
    by (rule spec_mono[OF spec_release_and_reject_account[OF s q(1)]])
      (use qr st that same in \<open>auto simp: approve_words_def dest: settles_as_leads\<close>)
  assume nb: "\<not> str_less (startDate q) (civil_date_string (clock w))"
  show "spec (refresh_from_hcm E q) (\<lambda>v. spec (case v of None \<Rightarrow> andThen now (\<lambda>t2. commit_and_enqueue E q t2)
        | Some rejected \<Rightarrow> return rejected) (\<lambda>x. leads (approve_words E r w x) w) (leads (attempt_words E r w) w))
      (leads (attempt_words E r w) w) w"
    unfolding qr
  proof (rule spec_mono[OF spec_refresh_account[OF s r st k]], goal_cases)
    case (1 v w')
    show ?case
    proof (cases v)
      case (Some x)
      then show ?thesis using 1 nb qr by (auto simp: approve_words_def intro!: spec_return)
    next
      case None
      then have w': "safe E False d0 w'" "r \<in> set (requests (db w'))" "leads {told E (key_of r) (hcm w)} w w'"
        using 1 by simp_all
      have "spec (commit_and_enqueue E r t) (\<lambda>x. leads (approve_words E r w x) w) (leads (attempt_words E r w) w) w'" for t
        by (rule spec_mono[OF spec_commit_account[OF w'(1,2) st]])
          (use w'(3) nb qr in \<open>auto simp: approve_words_def attempt_words_def leads_def acts_append\<close>)
      then show ?thesis using None by (simp add: spec_andThen spec_now)
    qed
  next
    case (2 w')
    then show ?case by (simp add: attempt_words_def)
  qed
qed


section \<open>Submission\<close>

definition submit_words :: "string \<Rightarrow> string \<Rightarrow> string \<Rightarrow> string \<Rightarrow> 'h world \<Rightarrow> request \<Rightarrow> action list set" where
  "submit_words e l startD endD w x =
     (if r_id x \<in> r_id ` set (requests (db w)) then {[]}
      else {[Ask (r_id x) (e, l) n] |n. countBusinessDays startD endD {} = Inr n})"

lemma asked_account:
  assumes inv: "db_inv E n d" and new: "r_id r \<notin> r_id ` set (requests d)" and st: "status r = RequestStatus.PENDING" "0 < days r"
    and free: "days r \<le> available_of d (key_of r) - reserved_of d (key_of r)"
  shows "act (Ask (r_id r) (key_of r) (days r)) (account_of d)
    = Some (account_of (change_balance (mut_reserve (days r)) (key_of r) (set_request r d)))"
proof -
  have none: "acc_requests (account_of d) (r_id r) = None"
    using new unfolding account_of_def by (simp add: find_None_iff image_iff) metis
  have b: "bal (set_request r d) k = bal d k" for k by (simp add: bal_def set_request_def)
  have keyed: "balances_keyed (set_request r d)" using db_invD(1)[OF inv] by (simp add: balances_keyed_def set_request_def)
  show ?thesis
    using none st free keyed
    by (simp add: account_simps account_fields b mut_reserve_def[of "days r"] of_bal keeps_pk_def pk_of_def fun_upd_idem)
qed

text \<open>A new request made from \<open>req\<close>, with respect to the world \<open>w\<close>.\<close>

definition asked_for :: "request \<Rightarrow> 'h world \<Rightarrow> request \<Rightarrow> 'h world \<Rightarrow> bool" where
  "asked_for req w x w' = (r_id x \<notin> r_id ` set (requests (db w)) \<and> x = req\<lparr>r_id := r_id x\<rparr>
     \<and> act (Ask (r_id x) (r_employeeId req, r_locationId req) (days req)) (account_of (db w)) = Some (account_of (db w')))"

lemma asked_for_cong:
  assumes "asked_for req w1 x w'" "account_of (db w1) = account_of (db w)" "r_id ` set (requests (db w1)) = r_id ` set (requests (db w))"
  shows "asked_for req w x w'"
  using assms by (simp add: asked_for_def)

lemma spec_create_body_account:
  assumes s: "safe E c d0 w" and inj: "inj (uuid E)" and new_req: "status req = RequestStatus.PENDING" "0 < days req"
  shows "spec (andThen (fresh_uuid E) (\<lambda>i.
        andThen (save_request (req\<lparr>r_id := i\<rparr>)) (\<lambda>_.
        andThen (reserve (r_employeeId req) (r_locationId req) (days req)) (\<lambda>_.
        return (req\<lparr>r_id := i\<rparr>))))) (asked_for req w) (\<lambda>_. True) w"
proof -
  let ?i = "uuid E (uuidNext w)"
  have new: "?i \<notin> r_id ` set (requests (db w))" by (rule fresh_id(1)[OF inj safeD(2)[OF s]])
  have "act (Ask ?i (r_employeeId req, r_locationId req) (days req)) (account_of (db w))
      = Some (account_of (change_balance (mut_reserve (days req)) (r_employeeId req, r_locationId req) (set_request (req\<lparr>r_id := ?i\<rparr>) (db w))))"
    if "days req \<le> available_of (db w) (r_employeeId req, r_locationId req) - reserved_of (db w) (r_employeeId req, r_locationId req)"
    using asked_account[OF safeD(2)[OF s], of "req\<lparr>r_id := ?i\<rparr>"] new new_req that by (simp add: key_of_def)
  then have go: "asked_for req w (req\<lparr>r_id := ?i\<rparr>) w'"
    if "days req \<le> available_of (db w) (r_employeeId req, r_locationId req) - reserved_of (db w) (r_employeeId req, r_locationId req)"
      "db w' = change_balance (mut_reserve (days req)) (r_employeeId req, r_locationId req) (set_request (req\<lparr>r_id := ?i\<rparr>) (db w))" for w'
    using that new by (simp add: asked_for_def)
  show ?thesis
    by (intro spec_rules go) (use safeD[OF s] in simp_all)
qed

lemma spec_create_account:
  assumes s: "safe E c d0 w" and inj: "inj (uuid E)" and new_req: "status req = RequestStatus.PENDING" "0 < days req"
    and ex: "\<And>r. existing = Some r \<Longrightarrow> \<exists>r0 \<in> set (requests (db w)). r_id r0 = r_id r"
  shows "spec (create_and_reserve E existing req) (asked_for req w) (\<lambda>w'. account_of (db w') = account_of (db w)) w"
  unfolding create_and_reserve_def
proof (rule spec_tx_account, rule spec_andThen)
  let ?body = "andThen (fresh_uuid E) (\<lambda>i.
        andThen (save_request (req\<lparr>r_id := i\<rparr>)) (\<lambda>_.
        andThen (reserve (r_employeeId req) (r_locationId req) (days req)) (\<lambda>_.
        return (req\<lparr>r_id := i\<rparr>))))"
  have renamed: "spec ?body (asked_for req w) (\<lambda>_. True) ((drop_fault w)\<lparr>db := rename_key r (db w)\<rparr>)"
    if r: "existing = Some r" "\<not> key_taken (r\<lparr>idempotencyKey := terminal_key r\<rparr>) (db w)" for r
  proof -
    let ?w = "(drop_fault w)\<lparr>db := rename_key r (db w)\<rparr>"
    obtain r0 where r0: "r0 \<in> set (requests (db w))" "r_id r0 = r_id r" using ex[OF r(1)] by blast
    note rn = rename_terminal[OF safeD(2)[OF s] r0 r(2), of c]
    have "safe E c d0 ?w"
      by (rule safe_step[OF s]) (use rn safeD[OF s] in simp_all)
    then show ?thesis
      by (rule spec_mono[OF spec_create_body_account[OF _ inj new_req]])
        (use rename_key_image[of r_id r "db w"] in \<open>simp_all add: asked_for_cong account_simps\<close>)
  qed
  show "spec (case existing of None \<Rightarrow> return ()
          | Some old \<Rightarrow> if status old \<in> TERMINAL_STATUSES then free_terminal_key old else return ())
        (\<lambda>_. spec ?body (asked_for req w) (\<lambda>_. True)) (\<lambda>_. True) w"
    using spec_create_body_account[OF s inj new_req]
    by (intro spec_option spec_if spec_return spec_free_terminal_key renamed) simp_all
qed

lemma create_performs:
  assumes s: "safe E c d0 w" and inj: "inj (uuid E)" and new_req: "status req = RequestStatus.PENDING" "0 < days req"
  shows "performs (create_and_reserve E None req) (\<lambda>x. {[Ask (r_id x) (key_of req) (days req)]}) {[]} w"
  unfolding performs_def
  by (rule spec_mono[OF spec_create_account[OF s inj new_req]]) (auto simp: asked_for_def leads_def key_of_def)

lemma spec_validate_held:
  assumes "safe E c d0 w" "balanceKey e l \<in> set (held w)"
  shows "spec (validateAvailability E e l n)
     (\<lambda>v w'. safe E c d0 w' \<and> only_balances w w' \<and> account_of (db w') = account_of (db w))
     (\<lambda>w'. account_of (db w') = account_of (db w)) w"
  unfolding validateAvailability_def
  by (rule spec_andThen, rule spec_mono[OF spec_getBalance_held[OF assms]])
    (auto intro!: spec_rules split: option.splits prod.splits)

lemma spec_submit_fresh_account:
  assumes s: "safe E False d0 w" and inj: "inj (uuid E)" and k: "balanceKey e l \<in> set (held w)"
    and ex: "\<And>r. existing = Some r \<Longrightarrow> r \<in> set (requests (db w))"
  shows "spec (submit_fresh E e l startD endD key existing) (\<lambda>x. leads (submit_words e l startD endD w x) w)
     (\<lambda>w'. account_of (db w') = account_of (db w)) w"
  unfolding submit_fresh_def findOverlapping_def
proof (intro spec_andThen spec_query spec_option spec_throw spec_lift_result spec_if spec_now refl)
  fix n
  assume ov: "List.find (overlaps e l startD endD) (requests (db w)) = None"
    and n: "countBusinessDays startD endD {} = Inr n" "n \<noteq> 0"
  let ?Q = "\<lambda>x. leads (submit_words e l startD endD w x) w"
  let ?F = "\<lambda>w'. account_of (db w') = account_of (db w)"
  let ?finish = "\<lambda>t. andThen (fresh_uuid E) (\<lambda>hcmKey.
             andThen (create_and_reserve E existing (new_request E e l startD endD key n t hcmKey)) (\<lambda>req.
             andThen (findRequest (r_id req)) (\<lambda>saved.
             return (case saved of Some s \<Rightarrow> s | None \<Rightarrow> req))))"
  have "spec (?finish t) ?Q ?F w'"
    if w': "safe E False d0 w'" "only_balances w w'" "account_of (db w') = account_of (db w)" for t w'
  proof (rule spec_andThen, rule spec_fresh_uuid, rule spec_andThen)
    let ?u = "w'\<lparr>uuidNext := Suc (uuidNext w')\<rparr>"
    let ?req = "new_request E e l startD endD key n t (uuid E (uuidNext w'))"
    have "0 < n" using countBusinessDays_nonneg[OF n(1)] n(2) by simp
    then have new_req: "status ?req = RequestStatus.PENDING" "0 < days ?req" by (simp_all add: new_request_def)
    have done': "leads (submit_words e l startD endD w x) w w''"
      if "asked_for ?req ?u q w''" "r_id x = r_id q" for q x w''
      using that w'(2,3) n(1) by (auto simp: asked_for_def submit_words_def only_balances_def leads_def new_request_def)
    show "spec (create_and_reserve E existing ?req)
            (\<lambda>req. spec (andThen (findRequest (r_id req)) (\<lambda>saved.
               return (case saved of Some s \<Rightarrow> s | None \<Rightarrow> req))) ?Q ?F) ?F ?u"
      by (rule spec_mono[OF spec_create_account[OF safe_uuid[OF w'(1)] inj new_req]])
        (use w'(2,3) ex in \<open>auto simp: only_balances_def intro!: spec_andThen spec_findRequest spec_return done'\<close>)
  qed
  then show "spec (validateAvailability E e l n) (\<lambda>_. spec (andThen now ?finish) ?Q ?F) ?F w"
    by (intro spec_mono[OF spec_validate_held[OF s k]]) (rule spec_andThen, rule spec_now, auto)
qed

lemma submit_performs:
  assumes s: "safe E False d0 w" and inj: "inj (uuid E)" and k: "balanceKey e l \<in> set (held w)"
  shows "performs (submit_locked E e l startD endD key) (submit_words e l startD endD w) {[]} w"
  unfolding performs_def submit_locked_def findByIdempotencyKey_def
proof (intro spec_andThen spec_query spec_option spec_if spec_return spec_throw)
  fix r assume "List.find (\<lambda>r. idempotencyKey r = key) (requests (db w)) = Some r"
  then have r: "r \<in> set (requests (db w))" by (auto dest: find_Some_in)
  show "leads (submit_words e l startD endD w r) w w" using r by (auto simp: submit_words_def)
  show "spec (submit_fresh E e l startD endD key (Some r)) (\<lambda>x. leads (submit_words e l startD endD w x) w) (leads {[]} w) w"
    by (rule spec_mono[OF spec_submit_fresh_account[OF s inj k]]) (use r in auto)
next
  show "spec (submit_fresh E e l startD endD key None) (\<lambda>x. leads (submit_words e l startD endD w x) w) (leads {[]} w) w"
    by (rule spec_mono[OF spec_submit_fresh_account[OF s inj k]]) auto
qed (auto)


section \<open>Rejection, cancellation, expiry\<close>

definition settle_words :: "string \<Rightarrow> RequestStatus \<Rightarrow> 'h world \<Rightarrow> request \<Rightarrow> action list set" where
  "settle_words i s w x = (if x \<in> set (requests (db w)) then {[]} else {[Move i s]})"

lemma settles_as_words:
  assumes "settles_as i s w x w'" "db_inv E n (db w)"
  shows "leads (settle_words i s w x) w w'"
proof -
  obtain r where r: "r \<in> set (requests (db w))" "r_id r = i" "x = r\<lparr>status := s\<rparr>" "status r \<noteq> s"
    using assms(1) by (auto simp: settles_as_def)
  have "status x = s" "r_id x = r_id r" using r(3) by simp_all
  then have "x \<notin> set (requests (db w))"
    using key_unique[of r_id "requests (db w)" r x] db_invD(2)[OF assms(2)] r(1,4) by (auto simp: keys_distinct_def)
  then show ?thesis using settles_as_leads[OF assms(1)] by (simp add: settle_words_def)
qed

lemma reject_performs:
  assumes "safe E c d0 w"
  shows "performs (reject_locked i) (settle_words i RequestStatus.REJECTED w) {[]} w"
  unfolding performs_def
  by (rule spec_mono[OF spec_reject_account[OF assms]]) (use settles_as_words safeD(2)[OF assms] in auto)

lemma cancel_performs:
  assumes "safe E c d0 w"
  shows "performs (cancel_locked E i) (settle_words i RequestStatus.CANCELLED w) {[]} w"
  unfolding performs_def
  by (rule spec_mono[OF spec_cancel_account[OF assms]], elim disjE)
    (blast intro: settles_as_words[OF _ safeD(2)[OF assms]], auto simp: settle_words_def)

lemma expire_performs:
  assumes "safe E c d0 w"
  shows "performs (expire_one r) (\<lambda>_. {[], [Move (r_id r) RequestStatus.EXPIRED]}) {[]} w"
  unfolding expire_one_def
proof (rule performs_exclusive)
  let ?w = "w\<lparr>held := balanceKey (r_employeeId r) (r_locationId r) # held w\<rparr>"
  have s: "safe E c d0 ?w" using assms by simp
  show "performs (try_catch (andThen (expire (r_id r)) (\<lambda>_. return ())) (\<lambda>_. return ()))
      (\<lambda>_. {[], [Move (r_id r) RequestStatus.EXPIRED]}) {[]} ?w"
    unfolding performs_def
    by (rule spec_try_catch, rule spec_andThen, rule spec_mono[OF spec_expire_account[OF s]])
      (auto simp: leads_def dest: settles_as_leads intro!: spec_return)
qed simp

section \<open>Dispatch\<close>

definition accepts :: "'h env \<Rightarrow> outbox_row \<Rightarrow> 'h \<Rightarrow> bool" where
  "accepts E x h = (case fst ((case operation x of FILE \<Rightarrow> hcm_fileTimeOff E (payload x)
        | REVERSE \<Rightarrow> hcm_reverseTimeOff E (payload x)) h) of Inl _ \<Rightarrow> False | Inr res \<Rightarrow> ok res)"

text \<open>At most the request of the FILE row \<open>i\<close> moves, by HCM's verdict.\<close>

definition dispatch_words :: "'h env \<Rightarrow> string \<Rightarrow> 'h world \<Rightarrow> action list set" where
  "dispatch_words E i w = {[]} \<union>
     {[Move (aggregateId x) (if accepts E x (hcm w) then RequestStatus.APPROVED else RequestStatus.REJECTED)] |x.
        x \<in> set (outbox (db w)) \<and> o_id x = i \<and> operation x = FILE}"

lemma spec_both: "spec m Q F w \<Longrightarrow> spec m Q' F' w \<Longrightarrow> spec m (\<lambda>x w'. Q x w' \<and> Q' x w') (\<lambda>w'. F w' \<and> F' w') w"
  by (auto simp: spec_def split: prod.splits outcome.splits)

lemma spec_begin_account:
  "spec (begin_attempt i) (\<lambda>v w'. account_of (db w') = account_of (db w) \<and> hcm w' = hcm w
       \<and> (\<forall>x r. v = Some (x, r) \<longrightarrow> (\<exists>x0 \<in> set (outbox (db w)). o_id x0 = i \<and> x = x0\<lparr>attempts := attempts x0 + 1\<rparr>)))
     (\<lambda>w'. account_of (db w') = account_of (db w)) w"
  unfolding begin_attempt_def findOutbox_def findRequest_def
  by (rule spec_tx_account, intro spec_andThen spec_query spec_option spec_if spec_return spec_save_outbox)
    (auto simp: account_simps dest: find_Some_in)

lemma spec_attempt_account:
  "spec (hcm_attempt E x) (\<lambda>v w'. (\<exists>h. w' = w\<lparr>hcm := h\<rparr>) \<and> (v \<noteq> None \<longleftrightarrow> accepts E x (hcm w))) (\<lambda>_. False) w"
proof -
  let ?f = "case operation x of FILE \<Rightarrow> hcm_fileTimeOff E (payload x) | REVERSE \<Rightarrow> hcm_reverseTimeOff E (payload x)"
  show ?thesis
    unfolding hcm_attempt_def try_catch_def andThen_def call_hcm_def spec_def accepts_def
    by (cases "?f (hcm w)") (auto simp: now_apply return_apply Let_def split: sum.splits)
qed

lemma account_of_ack:
  assumes "db_inv E n d" "r \<in> set (requests d)"
  shows "account_of (set_request (r\<lparr>hcmAckAt := a\<rparr>) d) = account_of d"
  using account_request[OF assms] by (simp add: account_simps fun_upd_idem key_of_def)

lemma spec_finish_account:
  assumes s: "safe E c d0 w" and st: "started x r (db w)"
  shows "spec (finish_attempt E x r v)
     (\<lambda>_. leads (if operation x = FILE
            then {[Move (r_id r) (if v \<noteq> None then RequestStatus.APPROVED else RequestStatus.REJECTED)], []} else {[]}) w)
     (\<lambda>w'. account_of (db w') = account_of (db w)) w"
    (is "spec _ ?Q _ w")
proof -
  have x: "x \<in> set (outbox (db w))" "aggregateId x = r_id r" "o_status x = OutboxStatus.PENDING"
    and r: "r \<in> set (requests (db w))"
    using st by (simp_all add: started_def)
  note inv = safeD(2)[OF s] and sw = safeD(1)[OF s]
  have same: "leads {[]} w w'" if "account_of (db w') = account_of (db w)" for w'
    using that by auto
  show ?thesis
  proof (cases "operation x")
    case REVERSE
    show ?thesis
      unfolding finish_attempt_def record_success_def record_failure_def Let_def REVERSE
      by (rule spec_tx_account, simp only: OutboxOperation.distinct if_False, intro spec_option spec_rules same)
        (use sw account_of_ack[OF inv r] in \<open>simp_all add: account_simps\<close>)
  next
    case FILE
    note sync = pending_file_row(1)[OF inv r x FILE]
    have moved: "leads {[Move (r_id r) t], []} w w'"
      if "act (Move (r_id r) t) (account_of (db w)) = Some (account_of (db w'))" for t w'
      using that by (rule leads_one) simp
    have still: "leads {[Move (r_id r) t], []} w w'" if "account_of (db w') = account_of (db w)" for t w'
      using that by auto
    have ack: "act (Move (r_id r) RequestStatus.APPROVED) (account_of (db w)) = Some (account_of d')"
      if "account_of d' = account_of (set_request (r\<lparr>hcmAckAt := a, status := RequestStatus.APPROVED\<rparr>) (db w))" for a d'
      using moves_status[OF inv r, of "r\<lparr>hcmAckAt := a, status := RequestStatus.APPROVED\<rparr>"] that sync
      by (simp add: deducted_in_def reserved_in_def key_of_def)
    have T: "status r = RequestStatus.PENDING_SYNC \<and> RequestStatus.REJECTED \<in> TERMINAL_STATUSES
        \<or> status r = RequestStatus.APPROVED \<and> RequestStatus.REJECTED = RequestStatus.CANCELLED"
      using sync by (simp add: TERMINAL_STATUSES_def)
    note rej = restored_account[OF inv r T]
    show ?thesis
    proof (cases v)
      case (Some a)
      show ?thesis
        unfolding finish_attempt_def record_success_def Let_def Some
        by (rule spec_tx_account, simp add: FILE, intro spec_rules moved[OF ack])
          (use sw in \<open>simp_all add: account_simps\<close>)
    next
      case None
      show ?thesis
      proof (cases "attempts x < hcmRetryMaxAttempts E")
        case True
        then show ?thesis
          unfolding finish_attempt_def record_failure_def None
          by (intro spec_tx_account, simp add: FILE, intro spec_rules still) (simp_all add: account_simps)
      next
        case False
        then show ?thesis
          unfolding finish_attempt_def record_failure_def None
          by (intro spec_tx_account, simp add: FILE, intro spec_rules moved[OF rej])
            (use sw db_invD(1)[OF inv] in \<open>simp_all add: account_simps flip: key_of_def\<close>)
      qed
    qed
  qed
qed


lemma dispatch_performs:
  assumes s: "safe E c d0 w"
  shows "performs (dispatchOne E i) (\<lambda>_. dispatch_words E i w) (dispatch_words E i w) w"
  unfolding performs_def
proof -
  let ?P = "leads (dispatch_words E i w) w"
  have same: "?P w'" if "account_of (db w') = account_of (db w)" for w'
    using that by (auto simp: dispatch_words_def)
  have locked: "spec (dispatch_locked E i) (\<lambda>_. ?P) ?P (w\<lparr>held := k # held w\<rparr>)" for k
    unfolding dispatch_locked_def
  proof (rule spec_andThen)
    let ?w = "w\<lparr>held := k # held w\<rparr>"
    have s': "safe E c d0 ?w" using s by simp
    show "spec (begin_attempt i) (\<lambda>v. spec (case v of None \<Rightarrow> return ()
        | Some (row, req) \<Rightarrow> andThen (hcm_attempt E row) (finish_attempt E row req)) (\<lambda>_. ?P) ?P) ?P ?w"
    proof (rule spec_mono[OF spec_both[OF spec_begin_attempt[OF s'] spec_begin_account]], goal_cases)
      case (1 v w1)
      then have a1: "account_of (db w1) = account_of (db w)" and h1: "hcm w1 = hcm w" by simp_all
      show ?case
      proof (cases v)
        case None
        then show ?thesis using same[OF a1] by (simp add: spec_return)
      next
        case (Some p)
        obtain x r where p: "p = (x, r)" by (cases p)
        obtain x0 where x0: "x0 \<in> set (outbox (db w))" "o_id x0 = i" "x = x0\<lparr>attempts := attempts x0 + 1\<rparr>"
          using 1 Some p by auto
        have st: "started x r (db w1)" and s1: "safe E c d0 w1" using 1 Some p by simp_all
        have "spec (hcm_attempt E x) (\<lambda>v. spec (finish_attempt E x r v) (\<lambda>_. ?P) ?P) ?P w1"
        proof (rule spec_mono[OF spec_attempt_account])
          fix v :: "js_date option" and w2 assume "(\<exists>h. w2 = w1\<lparr>hcm := h\<rparr>) \<and> (v \<noteq> None \<longleftrightarrow> accepts E x (hcm w1))"
          then obtain h where w2: "w2 = w1\<lparr>hcm := h\<rparr>" and v: "v \<noteq> None \<longleftrightarrow> accepts E x (hcm w1)" by blast
          have s2: "safe E c d0 w2" and st2: "started x r (db w2)" using s1 st w2 by simp_all
          have same_verdict: "accepts E x (hcm w1) = accepts E x0 (hcm w)"
            by (cases "operation x0") (simp_all add: accepts_def x0(3) h1)
          have sub: "(if operation x = FILE
            then {[Move (r_id r) (if v \<noteq> None then RequestStatus.APPROVED else RequestStatus.REJECTED)], []} else {[]})
              \<subseteq> dispatch_words E i w"
          proof -
            have acc: "v \<noteq> None \<longleftrightarrow> accepts E x0 (hcm w)" and op: "operation x = operation x0" and ag: "r_id r = aggregateId x0"
              using v st x0(3) same_verdict by (simp_all add: started_def)
            show ?thesis unfolding acc op ag dispatch_words_def using x0(1,2) by auto
          qed
          have a2: "account_of (db w2) = account_of (db w)" using a1 w2 by simp
          have "leads W w2 = leads W w" for W by (simp add: leads_def fun_eq_iff a2)
          then show "spec (finish_attempt E x r v) (\<lambda>_. ?P) ?P w2"
            by (intro spec_mono[OF spec_finish_account[OF s2 st2]])
              (use leads_mono[OF _ sub] same a2 in auto)
        qed simp
        then show ?thesis by (simp add: Some p spec_andThen)
      qed
    next
      case (2 w1)
      then show ?case by (intro same) simp
    qed
  qed
  show "spec (dispatchOne E i) (\<lambda>_. ?P) ?P w"
    unfolding dispatchOne_def findOutbox_def
    by (intro spec_andThen spec_query spec_option spec_if spec_return spec_findRequest)
      (auto intro!: spec_exclusive locked simp: spec_return same)
qed

section \<open>Reads, batches, reviews\<close>

definition read_words :: "'h env \<Rightarrow> balance_pk \<Rightarrow> 'h world \<Rightarrow> action list set" where
  "read_words E k w = (if is_warm (balances (db w) k) \<or> \<not> balanceLazyLoadEnabled E then {[]} else {[], told E k (hcm w)})"

lemma answered_try:
  "hcm_getBalance E e l (hcm w) = (Inr x, h) \<Longrightarrow>
   andThen (try_catch (andThen (call_hcm (hcm_getBalance E e l)) (\<lambda>s. return (Some s))) f) g w = g (Some x) (w\<lparr>hcm := h\<rparr>)"
  by (simp add: andThen_def try_catch_def call_hcm_def return_def)

lemma spec_hydrate_account:
  assumes s: "safe E False d0 w" and cold: "\<not> is_warm (balances (db w) (e, l))"
  shows "spec (hydrate E e l) (\<lambda>_. leads {told E (e, l) (hcm w)} w) (leads {[], told E (e, l) (hcm w)} w) w"
proof (cases "hcm_getBalance E e l (hcm w)")
  case (Pair answer h)
  let ?w = "w\<lparr>hcm := h\<rparr>"
  have start: "hydrate E e l w = andThen
         (try_catch
           (andThen (call_hcm (hcm_getBalance E e l)) (\<lambda>s. return (Some s)))
           (\<lambda>e. case e of HcmUnavailableError _ \<Rightarrow> return None | _ \<Rightarrow> throw e))
         (\<lambda>snapshot. case snapshot of
            None \<Rightarrow> return (Some (fresh_balance e l, True))
          | Some s \<Rightarrow>
              andThen (applyHcmSnapshot s) (\<lambda>_.
              andThen (findBalance e l) (\<lambda>row.
              return (map_option (\<lambda>b. (b, False)) row)))) w"
    unfolding hydrate_def findBalance_def andThen_query using cold by simp
  show ?thesis
  proof (cases answer)
    case (Inl x)
    then show ?thesis
      unfolding spec_def start
      by (simp add: andThen_def try_catch_def call_hcm_def Pair return_def throw_def told_def leads_def split: exception.split)
  next
    case (Inr snap)
    have "spec (andThen (applyHcmSnapshot snap) (\<lambda>_. andThen (findBalance e l) (\<lambda>row.
              return (map_option (\<lambda>b. (b, False)) row)))) (\<lambda>_. leads {told E (e, l) (hcm w)} w) (leads {[], told E (e, l) (hcm w)} w) ?w"
      using snapshot_account[OF safeD(2)[OF s], of snap] safeD[OF s]
      by (intro spec_rules) (simp_all add: told_def Pair Inr leads_def)
    then show ?thesis
      unfolding spec_def start answered_try[OF Pair[unfolded Inr]] by simp
  qed
qed

lemma read_performs:
  assumes s: "safe E False d0 w"
  shows "performs (getBalance E e l) (\<lambda>_. read_words E (e, l) w) (read_words E (e, l) w) w"
  unfolding performs_def getBalance_def
proof (intro spec_andThen spec_findBalance spec_if)
  assume "\<not> is_warm (balances (db w) (e, l))" "\<not> balanceLazyLoadEnabled E"
  then show "spec (case balances (db w) (e, l) of
          None \<Rightarrow> andThen (save_balance (fresh_balance e l)) (\<lambda>_. return (Some (fresh_balance e l, False)))
        | Some b \<Rightarrow> return (Some (b, False))) (\<lambda>_. leads (read_words E (e, l) w) w) (leads (read_words E (e, l) w) w) w"
    using safeD[OF s] by (intro spec_rules) (simp_all add: read_words_def leads_def account_of_fresh_row)
next
  assume c: "\<not> is_warm (balances (db w) (e, l))" "\<not> \<not> balanceLazyLoadEnabled E"
  let ?w = "w\<lparr>held := balanceKey e l # held w\<rparr>"
  have s': "safe E False d0 ?w" using s by simp
  show "spec (runExclusive (balanceKey e l) (hydrate E e l)) (\<lambda>_. leads (read_words E (e, l) w) w)
      (leads (read_words E (e, l) w) w) w"
    by (rule spec_exclusive, rule spec_mono[OF spec_hydrate_account[OF s']])
      (use c in \<open>auto simp: read_words_def elim: leads_mono\<close>)
qed (auto simp: read_words_def intro!: spec_return)

definition reconcile_words :: "'h env \<Rightarrow> js_date \<Rightarrow> hcm_balance \<Rightarrow> 'h world \<Rightarrow> action list set" where
  "reconcile_words E asOf x w = {[Tell (h_employeeId x, h_locationId x) (recon_available E x asOf (db w))]}"

lemma reconcile_performs:
  assumes s: "safe E False d0 w"
  shows "performs (reconcile_entry E asOf x) (\<lambda>_. reconcile_words E asOf x w) {[]} w"
  unfolding reconcile_entry_def
proof (rule performs_exclusive)
  let ?w = "w\<lparr>held := balanceKey (h_employeeId x) (h_locationId x) # held w\<rparr>" and ?k = "(h_employeeId x, h_locationId x)"
  let ?d = "change_balance (mut_reconcile (recon_available E x asOf (db w)) (pending_sum (db w) ?k) asOf) ?k (db w)"
  note inv = safeD(2)[OF s]
  have "act (Tell ?k v) (account_of (db w)) = Some (account_of (change_balance (mut_reconcile v (pending_sum (db w) ?k) asOf) ?k (db w)))" for v
    using db_invD(1,5)[OF inv] by (simp add: account_simps mut_reconcile_def) (simp add: account_of_def fun_upd_idem)
  then have go: "leads (reconcile_words E asOf x w) ?w w'" if "account_of (db w') = account_of ?d" for w'
    using that by (simp add: leads_def reconcile_words_def)
  show "performs (transaction (reconcileBalance E x asOf)) (\<lambda>_. reconcile_words E asOf x w) {[]} ?w"
    unfolding performs_def reconcileBalance_def check_date_def Let_def
    by (intro spec_rules go)
      (use safeD[OF s] in \<open>simp_all add: leads_def account_of_same(4) recon_available_def sum_rows_sum_list
         active_sum[unfolded sum_rows_sum_list] change_balance_def\<close>)
qed simp

lemma quiet_performs:
  assumes s: "safe E c d0 w"
  shows "performs (resolveReview e l) (\<lambda>_. {[]}) {[]} w" "performs (sequence_guard corpus) (\<lambda>_. {[]}) {[]} w"
    "performs (transaction (write_db (log_batch entry))) (\<lambda>_. {[]}) {[]} w"
proof -
  let ?w = "w\<lparr>held := balanceKey e l # held w\<rparr>"
  have "act (Tell (e, l) (available_of (db w) (e, l))) (account_of (db w)) = Some (account_of (db w))"
    by (simp add: account_of_def)
  have "account_of (change_balance mut_clear_review (e, l) (db w)) = account_of (db w)"
    using db_invD(1)[OF safeD(2)[OF s]] by (simp add: account_simps of_bal fun_upd_idem account_fields)
  then show "performs (resolveReview e l) (\<lambda>_. {[]}) {[]} w"
    unfolding resolveReview_def performs_def using safeD[OF s]
    by (intro spec_exclusive spec_change) (simp_all add: leads_def)
  show "performs (sequence_guard corpus) (\<lambda>_. {[]}) {[]} w"
    unfolding sequence_guard_def performs_def
    by (intro spec_rules) (simp_all add: leads_def account_simps)
  show "performs (transaction (write_db (log_batch entry))) (\<lambda>_. {[]}) {[]} w"
    unfolding performs_def by (intro spec_rules) (simp_all add: leads_def account_simps)
qed

section \<open>The words do not depend on the locks\<close>

lemma words_held [simp]:
  "submit_words e l startD endD (w\<lparr>held := h\<rparr>) = submit_words e l startD endD w"
  "approve_words E r (w\<lparr>held := h\<rparr>) = approve_words E r w" "attempt_words E r (w\<lparr>held := h\<rparr>) = attempt_words E r w"
  "settle_words i s (w\<lparr>held := h\<rparr>) = settle_words i s w"
  by (simp_all add: fun_eq_iff submit_words_def approve_words_def attempt_words_def settle_words_def)

end
