(* ===== verification/Configuration.thy ===== *)
theory Configuration
  imports Js_Date
begin

text \<open>
  \<open>src/src/config/app-config.service.ts\<close>: the getters over the environment variables. The library's
  \<open>get\<close> answers the variable's text when it is set and the default otherwise; the type argument of
  \<open>get<number>\<close> converts nothing, so a number that comes from the environment is a string until an
  operator coerces it.
\<close>

section \<open>Variables and coercion\<close>

type_synonym environment = "string \<Rightarrow> string option"

datatype setting = Text string | Number int

definition config_text :: "environment \<Rightarrow> string \<Rightarrow> string \<Rightarrow> string" where
  "config_text vars name fallback = (case vars name of Some s \<Rightarrow> s | None \<Rightarrow> fallback)"

definition config_number :: "environment \<Rightarrow> string \<Rightarrow> int \<Rightarrow> setting" where
  "config_number vars name fallback = (case vars name of Some s \<Rightarrow> Text s | None \<Rightarrow> Number fallback)"

text \<open>
  What \<open>*\<close> and \<open><\<close> make of a setting (\<open>ToNumber\<close>): white space is trimmed, the empty text is 0, decimal
  integers are read, a text that begins with neither a digit nor a sign, a dot or the I of Infinity is
  \<open>NaN\<close>. Fractions, exponents, radix prefixes and infinities are \<open>Other_form\<close>.
\<close>

datatype js_number = Whole int | NaN | Other_form

definition is_white :: "char \<Rightarrow> bool" where
  "is_white ch = ((of_char ch :: nat) \<in> {9, 10, 11, 12, 13, 32, 160})"

definition js_trim :: "string \<Rightarrow> string" where
  "js_trim s = rev (dropWhile is_white (rev (dropWhile is_white s)))"

definition begins_number :: "char \<Rightarrow> bool" where
  "begins_number ch = (digit_value ch \<noteq> None \<or> ch \<in> {CHR ''+'', CHR ''-'', CHR ''.'', CHR ''I''})"

fun unsigned_number :: "string \<Rightarrow> js_number" where
  "unsigned_number [] = Whole 0"
| "unsigned_number (ch # cs) =
     (case digits_value (ch # cs) of
        Some n \<Rightarrow> Whole n
      | None \<Rightarrow> if begins_number ch then Other_form else NaN)"

definition text_to_number :: "string \<Rightarrow> js_number" where
  "text_to_number s = (case js_trim s of
      ch # cs \<Rightarrow>
        if cs \<noteq> [] \<and> ch = CHR ''-'' \<and> digits_value cs \<noteq> None then Whole (- the (digits_value cs))
        else if cs \<noteq> [] \<and> ch = CHR ''+'' \<and> digits_value cs \<noteq> None then Whole (the (digits_value cs))
        else unsigned_number (ch # cs)
    | [] \<Rightarrow> Whole 0)"

definition to_number :: "setting \<Rightarrow> js_number" where
  "to_number v = (case v of Number n \<Rightarrow> Whole n | Text s \<Rightarrow> text_to_number s)"

section \<open>The getters\<close>

definition databasePath :: "environment \<Rightarrow> string" where
  "databasePath vars = config_text vars ''DATABASE_PATH'' ''/app/data/timeoff.sqlite''"

definition hcmBaseUrl_of :: "environment \<Rightarrow> string" where
  "hcmBaseUrl_of vars = config_text vars ''HCM_BASE_URL'' ''http://localhost:3001''"

definition reservationTtlDays_of :: "environment \<Rightarrow> setting" where
  "reservationTtlDays_of vars = config_number vars ''RESERVATION_TTL_DAYS'' 14"

definition hcmRetryMaxAttempts_of :: "environment \<Rightarrow> setting" where
  "hcmRetryMaxAttempts_of vars = config_number vars ''HCM_RETRY_MAX_ATTEMPTS'' 5"

definition hcmRetryBackoffMs_of :: "environment \<Rightarrow> setting" where
  "hcmRetryBackoffMs_of vars = config_number vars ''HCM_RETRY_BACKOFF_MS'' 1000"

definition port_of :: "environment \<Rightarrow> setting" where
  "port_of vars = config_number vars ''PORT'' 3000"

text \<open>\<open>BALANCE_LAZY_LOAD_ENABLED\<close>: everything but \<open>false\<close> and \<open>0\<close> switches lazy loading on.\<close>

definition balanceLazyLoadEnabled_of :: "environment \<Rightarrow> bool" where
  "balanceLazyLoadEnabled_of vars =
     (let raw = config_text vars ''BALANCE_LAZY_LOAD_ENABLED'' ''true''
      in raw \<noteq> ''false'' \<and> raw \<noteq> ''0'')"

section \<open>Numbers as text\<close>

text \<open>\<open>String(n)\<close> of a non-negative integer.\<close>

fun decimal :: "nat \<Rightarrow> string" where
  "decimal n = (if n < 10 then [digit_char (int n)]
                else decimal (n div 10) @ [digit_char (int (n mod 10))])"

declare decimal.simps [simp del]

lemma digits_acc_append:
  "digits_acc a (xs @ ys) = (case digits_acc a xs of None \<Rightarrow> None | Some b \<Rightarrow> digits_acc b ys)"
  by (induction xs arbitrary: a) (simp_all split: option.split)

lemma decimal_digits: "digits_acc a (decimal n) = Some (a * 10 ^ length (decimal n) + int n)"
proof (induction n arbitrary: a rule: decimal.induct)
  case (1 n)
  show ?case
  proof (cases "n < 10")
    case True
    then show ?thesis by (subst decimal.simps, subst decimal.simps) (simp add: digit_value_digit_char)
  next
    case False
    have "int n = int (n div 10) * 10 + int (n mod 10)" by presburger
    with False 1[OF False] show ?thesis
      by (subst decimal.simps, subst decimal.simps)
        (simp add: digits_acc_append digit_value_digit_char algebra_simps)
  qed
qed

lemma decimal_not_Nil: "decimal n \<noteq> []"
  by (subst decimal.simps) simp

lemma decimal_value: "digits_value (decimal n) = Some (int n)"
  using decimal_digits[of 0 n] by (simp add: digits_value_def decimal_not_Nil)

lemma decimal_chars: "ch \<in> set (decimal n) \<Longrightarrow> \<exists>k. 0 \<le> k \<and> k \<le> 9 \<and> ch = digit_char k"
proof (induction n rule: decimal.induct)
  case (1 n)
  show ?case
  proof (cases "n < 10")
    case True
    with "1.prems" have "ch = digit_char (int n)" by (subst (asm) decimal.simps) simp
    then show ?thesis using True by (intro exI[of _ "int n"]) simp
  next
    case False
    with "1.prems" consider "ch \<in> set (decimal (n div 10))" | "ch = digit_char (int (n mod 10))"
      by (subst (asm) decimal.simps) auto
    then show ?thesis
    proof cases
      case 2
      then show ?thesis by (intro exI[of _ "int (n mod 10)"]) simp
    qed (rule "1.IH"[OF False])
  qed
qed

lemma digit_not_white:
  assumes "0 \<le> k" "k \<le> 9"
  shows "\<not> is_white (digit_char k)" "digit_char k \<noteq> CHR ''-''" "digit_char k \<noteq> CHR ''+''"
proof -
  have c: "(of_char (digit_char k) :: nat) = 48 + nat k" by (rule of_char_digit[OF assms])
  then show "\<not> is_white (digit_char k)" using assms by (auto simp: is_white_def)
  show "digit_char k \<noteq> CHR ''-''" "digit_char k \<noteq> CHR ''+''"
    using c arg_cong[of "digit_char k" _ "of_char :: char \<Rightarrow> nat"] by fastforce+
qed

lemma trim_plain:
  assumes "\<forall>ch \<in> set s. \<not> is_white ch"
  shows "js_trim s = s"
proof -
  have "dropWhile is_white xs = xs" if "\<forall>ch \<in> set xs. \<not> is_white ch" for xs
    using that by (cases xs) simp_all
  from this[of s] this[of "rev s"] show ?thesis using assms by (simp add: js_trim_def)
qed

text \<open>A number written in decimal is read back.\<close>

lemma text_to_number_decimal: "text_to_number (decimal n) = Whole (int n)"
proof -
  have plain: "\<not> is_white ch \<and> ch \<noteq> CHR ''-'' \<and> ch \<noteq> CHR ''+''" if digit: "ch \<in> set (decimal n)" for ch
  proof -
    obtain k where "0 \<le> k" "k \<le> 9" "ch = digit_char k" using decimal_chars[OF digit] by auto
    then show ?thesis using digit_not_white[of k] by simp
  qed
  then have t: "js_trim (decimal n) = decimal n" by (simp add: trim_plain)
  obtain ch cs where d: "decimal n = ch # cs" using decimal_not_Nil[of n] by (cases "decimal n") auto
  have "digits_value (ch # cs) = Some (int n)" using decimal_value[of n] d by simp
  then have "unsigned_number (ch # cs) = Whole (int n)" by simp
  moreover have "ch \<noteq> CHR ''-''" "ch \<noteq> CHR ''+''" using plain[of ch] d by auto
  ultimately show ?thesis unfolding text_to_number_def t unfolding d by simp
qed

end
