(* ===== verification/Hcm_Client.thy ===== *)
theory Hcm_Client
  imports Hcm_Contract Configuration
begin

text \<open>
  \<open>src/src/hcm/hcm-client.service.ts\<close>: the fast-fail read, the read with retries and the
  shared retry loop of the two writes. The HTTP library is a parameter: one function per verb on
  an arbitrary network state \<open>'n\<close>, which may answer or fail as it likes. The state of the model
  also records every exchange and every backoff delay, so that the theorems can speak of them.
\<close>

section \<open>HTTP\<close>

record http_request =
  q_url :: string
  q_employeeId :: string
  q_locationId :: string
  q_timeout :: "int option"

record http_post_request =
  p_url :: string
  p_body :: hcm_command
  p_idempotencyKey :: string

text \<open>
  What the library throws: an \<open>AxiosError\<close> with a response (status, and \<open>message\<close> of its body if
  that is a string), an \<open>AxiosError\<close> without one (with its \<open>code\<close>), or anything else.
\<close>

datatype http_error =
    Axios_response int "string option"
  | Axios_network "string option"
  | Other_error

text \<open>The body of a 2xx answer to a write: JSON \<open>null\<close>, or the three optional fields.\<close>

datatype post_body = Null_body | Body "bool option" "string option" "string option"

record 'n http_env =
  hcmBaseUrl :: string
  clientRetryMaxAttempts :: int
  hcmRetryBackoffMs :: int
  http_get :: "http_request \<Rightarrow> 'n \<Rightarrow> (http_error + hcm_balance) \<times> 'n"
  http_post :: "http_post_request \<Rightarrow> 'n \<Rightarrow> (http_error + post_body) \<times> 'n"

record 'n http_state =
  net :: 'n
  wall :: int
  slept :: "int list"
  gets :: "(http_request \<times> (http_error + hcm_balance)) list"
  posts :: "(http_post_request \<times> (http_error + post_body)) list"

definition NO_RETRY_TIMEOUT_MS :: int where
  "NO_RETRY_TIMEOUT_MS = 2500"

section \<open>Helpers\<close>

definition isRetryable :: "http_error \<Rightarrow> bool" where
  "isRetryable err = (case err of
      Axios_response st _ \<Rightarrow> st \<ge> 500
    | Axios_network _ \<Rightarrow> True
    | Other_error \<Rightarrow> True)"

definition extractErrorHint :: "http_error \<Rightarrow> string" where
  "extractErrorHint err = (case err of
      Axios_response st msg \<Rightarrow> (case msg of Some m \<Rightarrow> m | None \<Rightarrow> ''http_'' @ decimal (nat st))
    | Axios_network code \<Rightarrow> (case code of Some k \<Rightarrow> k | None \<Rightarrow> ''network_error'')
    | Other_error \<Rightarrow> ''unknown_error'')"

definition backoffDelay :: "'n http_env \<Rightarrow> int \<Rightarrow> 'n http_state \<Rightarrow> 'n http_state" where
  "backoffDelay C attempt s =
     (let ms = hcmRetryBackoffMs C * 2 ^ nat (attempt - 1)
      in s\<lparr>wall := wall s + ms, slept := slept s @ [ms]\<rparr>)"

definition do_get ::
  "'n http_env \<Rightarrow> http_request \<Rightarrow> 'n http_state \<Rightarrow> (http_error + hcm_balance) \<times> 'n http_state" where
  "do_get C q s = (let (r, n) = http_get C q (net s)
     in (r, s\<lparr>net := n, gets := gets s @ [(q, r)]\<rparr>))"

definition do_post ::
  "'n http_env \<Rightarrow> http_post_request \<Rightarrow> 'n http_state \<Rightarrow> (http_error + post_body) \<times> 'n http_state" where
  "do_post C q s = (let (r, n) = http_post C q (net s)
     in (r, s\<lparr>net := n, posts := posts s @ [(q, r)]\<rparr>))"

definition pause :: "'n http_env \<Rightarrow> int \<Rightarrow> 'n http_state \<Rightarrow> 'n http_state" where
  "pause C attempt s = (if 0 < attempt then backoffDelay C attempt s else s)"

section \<open>getBalance\<close>

function get_loop ::
  "'n http_env \<Rightarrow> http_request \<Rightarrow> string \<Rightarrow> int \<Rightarrow> 'n http_state \<Rightarrow>
   (exception + hcm_balance) \<times> 'n http_state" where
  "get_loop C q operationId attempt s =
     (if attempt < clientRetryMaxAttempts C then
        (case do_get C q (pause C attempt s) of
           (Inr body, s') \<Rightarrow> (Inr body, s')
         | (Inl err, s') \<Rightarrow>
             if \<not> isRetryable err then (Inl (HcmUnavailableError operationId), s')
             else get_loop C q operationId (attempt + 1) s')
      else (Inl (HcmUnavailableError operationId), s))"
  by pat_completeness auto
termination
  by (relation "measure (\<lambda>(C, _, _, attempt, _). nat (clientRetryMaxAttempts C - attempt))") auto

declare get_loop.simps [simp del]

definition client_getBalance ::
  "'n http_env \<Rightarrow> string \<Rightarrow> string \<Rightarrow> HcmGetBalanceOptions \<Rightarrow> 'n http_state \<Rightarrow>
   (exception + hcm_balance) \<times> 'n http_state" where
  "client_getBalance C employeeId locationId retry s =
     (let url = hcmBaseUrl C @ ''/hcm/balance'';
          operationId = ''getBalance:'' @ employeeId @ '':'' @ locationId;
          q = \<lparr>q_url = url, q_employeeId = employeeId, q_locationId = locationId, q_timeout = None\<rparr>
      in if retry = Some False then
           (case do_get C (q\<lparr>q_timeout := Some NO_RETRY_TIMEOUT_MS\<rparr>) s of
              (Inr body, s') \<Rightarrow> (Inr body, s')
            | (Inl _, s') \<Rightarrow> (Inl (HcmUnavailableError operationId), s'))
         else get_loop C q operationId 0 s)"

section \<open>fileTimeOff and reverseTimeOff\<close>

text \<open>Reading a field of \<open>null\<close> throws inside the \<open>try\<close>.\<close>

definition read_body ::
  "http_error + post_body \<Rightarrow> http_error + (bool option \<times> string option \<times> string option)" where
  "read_body r = (case r of
      Inl e \<Rightarrow> Inl e
    | Inr Null_body \<Rightarrow> Inl Other_error
    | Inr (Body okField acked hint) \<Rightarrow> Inr (okField, acked, hint))"

definition or_else :: "'a option \<Rightarrow> 'a \<Rightarrow> 'a" where
  "or_else v d = (case v of None \<Rightarrow> d | Some x \<Rightarrow> x)"

function post_loop ::
  "'n http_env \<Rightarrow> http_post_request \<Rightarrow> int \<Rightarrow> string \<Rightarrow> 'n http_state \<Rightarrow> hcm_result \<times> 'n http_state" where
  "post_loop C q attempt lastHint s =
     (if attempt < clientRetryMaxAttempts C then
        (let (r, s') = do_post C q (pause C attempt s)
         in case read_body r of
              Inr (okField, acked, hint) \<Rightarrow>
                if okField = Some False
                then (\<lparr>ok = False, ackedAt = None, errorHint = Some (or_else hint ''hcm-rejected'')\<rparr>, s')
                else (\<lparr>ok = True, ackedAt = Some (or_else acked (toISOString (wall s'))),
                       errorHint = None\<rparr>, s')
            | Inl err \<Rightarrow>
                if \<not> isRetryable err
                then (\<lparr>ok = False, ackedAt = None, errorHint = Some (extractErrorHint err)\<rparr>, s')
                else post_loop C q (attempt + 1) (extractErrorHint err) s')
      else (\<lparr>ok = False, ackedAt = None, errorHint = Some lastHint\<rparr>, s))"
  by pat_completeness auto
termination
  by (relation "measure (\<lambda>(C, _, attempt, _, _). nat (clientRetryMaxAttempts C - attempt))") auto

declare post_loop.simps [simp del]

definition postWithRetry ::
  "'n http_env \<Rightarrow> string \<Rightarrow> hcm_command \<Rightarrow> string \<Rightarrow> 'n http_state \<Rightarrow> hcm_result \<times> 'n http_state" where
  "postWithRetry C url body idempotency s =
     post_loop C \<lparr>p_url = url, p_body = body, p_idempotencyKey = idempotency\<rparr> 0 ''unreachable'' s"

definition client_fileTimeOff ::
  "'n http_env \<Rightarrow> hcm_command \<Rightarrow> 'n http_state \<Rightarrow> (exception + hcm_result) \<times> 'n http_state" where
  "client_fileTimeOff C cmd s =
     (case postWithRetry C (hcmBaseUrl C @ ''/hcm/timeoff'') cmd (c_idempotencyKey cmd) s of
        (r, s') \<Rightarrow> (Inr r, s'))"

definition client_reverseTimeOff ::
  "'n http_env \<Rightarrow> ReverseTimeOffCommand \<Rightarrow> 'n http_state \<Rightarrow> (exception + ReverseTimeOffResult) \<times> 'n http_state" where
  "client_reverseTimeOff C cmd s =
     (case postWithRetry C (hcmBaseUrl C @ ''/hcm/timeoff/reverse'') cmd (c_idempotencyKey cmd) s of
        (r, s') \<Rightarrow> (Inr r, s'))"

section \<open>What a run of the write loop does\<close>

definition retryable_answer :: "http_error + post_body \<Rightarrow> bool" where
  "retryable_answer r = (case read_body r of Inl e \<Rightarrow> isRetryable e | Inr _ \<Rightarrow> False)"

text \<open>The result the caller gets when \<open>r\<close> is the last answer, read at time \<open>t\<close>.\<close>

definition final_result :: "int \<Rightarrow> http_error + post_body \<Rightarrow> hcm_result" where
  "final_result t r = (case read_body r of
      Inr (okField, acked, hint) \<Rightarrow>
        if okField = Some False
        then \<lparr>ok = False, ackedAt = None, errorHint = Some (or_else hint ''hcm-rejected'')\<rparr>
        else \<lparr>ok = True, ackedAt = Some (or_else acked (toISOString t)), errorHint = None\<rparr>
    | Inl err \<Rightarrow> \<lparr>ok = False, ackedAt = None, errorHint = Some (extractErrorHint err)\<rparr>)"

text \<open>The pauses before the attempts \<open>a, \<dots>, a + n - 1\<close>: none before attempt 0.\<close>

definition pauses :: "'n http_env \<Rightarrow> nat \<Rightarrow> nat \<Rightarrow> int list" where
  "pauses C a n = map (\<lambda>i. hcmRetryBackoffMs C * 2 ^ (i - 1)) (filter (\<lambda>i. 0 < i) [a..<a + n])"

lemma pauses_0 [simp]: "pauses C a 0 = []"
  by (simp add: pauses_def)

lemma pauses_Suc:
  "pauses C a (Suc n) =
     (if 0 < a then [hcmRetryBackoffMs C * 2 ^ (a - 1)] else []) @ pauses C (Suc a) n"
proof -
  have "[a..<a + Suc n] = a # [Suc a..<Suc a + n]"
    by (subst upt_conv_Cons) simp_all
  then show ?thesis by (simp add: pauses_def del: upt_Suc)
qed

lemma pause_simps [simp]:
  "net (pause C a s) = net s" "posts (pause C a s) = posts s" "gets (pause C a s) = gets s"
  by (simp_all add: pause_def backoffDelay_def Let_def)

lemma slept_pause: "slept (pause C (int a) s) = slept s @ pauses C a 1"
  by (simp add: pause_def backoffDelay_def Let_def pauses_def nat_diff_distrib)

lemma wall_pause: "wall (pause C (int a) s) = wall s + sum_list (pauses C a 1)"
  by (simp add: pause_def backoffDelay_def Let_def pauses_def nat_diff_distrib)

lemma pauses_split: "pauses C a (Suc n) = pauses C a 1 @ pauses C (Suc a) n"
  using pauses_Suc[of C a n] pauses_Suc[of C a 0] by simp

text \<open>
  \<open>rs\<close> are the answers of one run that starts at attempt \<open>a\<close>: at most as many as attempts are
  left, every one but the last retryable, the last one too only when the attempts ran out.
\<close>

definition run_of :: "'n http_env \<Rightarrow> nat \<Rightarrow> (http_error + post_body) list \<Rightarrow> bool" where
  "run_of C a rs =
     (int (a + length rs) \<le> max (int a) (clientRetryMaxAttempts C)
      \<and> (\<forall>r \<in> set (butlast rs). retryable_answer r)
      \<and> ((rs = [] \<or> retryable_answer (last rs)) \<longrightarrow> clientRetryMaxAttempts C \<le> int (a + length rs)))"

definition result_of :: "string \<Rightarrow> int \<Rightarrow> (http_error + post_body) list \<Rightarrow> hcm_result" where
  "result_of hint t rs =
     (if rs = [] then \<lparr>ok = False, ackedAt = None, errorHint = Some hint\<rparr> else final_result t (last rs))"

lemma do_post_posts:
  "do_post C q s = (r, s') \<Longrightarrow> posts s' = posts s @ [(q, r)] \<and> slept s' = slept s \<and> wall s' = wall s"
  by (auto simp: do_post_def Let_def split: prod.splits)

lemma post_loop_run:
  "\<exists>rs. run_of C a rs
     \<and> posts (snd (post_loop C q (int a) hint s)) = posts s @ map (Pair q) rs
     \<and> slept (snd (post_loop C q (int a) hint s)) = slept s @ pauses C a (length rs)
     \<and> wall (snd (post_loop C q (int a) hint s)) = wall s + sum_list (pauses C a (length rs))
     \<and> fst (post_loop C q (int a) hint s) =
         result_of hint (wall (snd (post_loop C q (int a) hint s))) rs"
proof (induction "nat (clientRetryMaxAttempts C - int a)" arbitrary: a hint s rule: less_induct)
  case less
  show ?case
  proof (cases "int a < clientRetryMaxAttempts C")
    case False
    then show ?thesis
      by (intro exI[of _ "[]"]) (simp add: post_loop.simps[of C q "int a"] run_of_def result_of_def)
  next
    case True
    obtain r s1 where r: "do_post C q (pause C (int a) s) = (r, s1)"
      by (cases "do_post C q (pause C (int a) s)")
    have s1: "posts s1 = posts s @ [(q, r)]" "slept s1 = slept s @ pauses C a 1"
      "wall s1 = wall s + sum_list (pauses C a 1)"
      using do_post_posts[OF r] by (simp_all add: slept_pause wall_pause)
    show ?thesis
    proof (cases "retryable_answer r")
      case False
      then have "post_loop C q (int a) hint s = (final_result (wall s1) r, s1)"
        using True r
        by (auto simp: post_loop.simps[of C q "int a"] retryable_answer_def final_result_def
            split: sum.splits prod.splits)
      then show ?thesis
        using True False s1
        by (intro exI[of _ "[r]"]) (simp add: run_of_def result_of_def)
    next
      case retry: True
      then obtain err where err: "read_body r = Inl err" "isRetryable err"
        by (auto simp: retryable_answer_def split: sum.splits)
      have loop: "post_loop C q (int a) hint s = post_loop C q (int (Suc a)) (extractErrorHint err) s1"
        using True r err by (simp add: post_loop.simps[of C q "int a"] add.commute)
      obtain rs where rs: "run_of C (Suc a) rs"
        "posts (snd (post_loop C q (int (Suc a)) (extractErrorHint err) s1)) = posts s1 @ map (Pair q) rs"
        "slept (snd (post_loop C q (int (Suc a)) (extractErrorHint err) s1))
           = slept s1 @ pauses C (Suc a) (length rs)"
        "wall (snd (post_loop C q (int (Suc a)) (extractErrorHint err) s1))
           = wall s1 + sum_list (pauses C (Suc a) (length rs))"
        "fst (post_loop C q (int (Suc a)) (extractErrorHint err) s1)
           = result_of (extractErrorHint err)
               (wall (snd (post_loop C q (int (Suc a)) (extractErrorHint err) s1))) rs"
        using less[of "Suc a" "extractErrorHint err" s1] True by auto
      have res: "result_of (extractErrorHint err) t rs = result_of hint t (r # rs)" for t
        using err by (simp add: result_of_def final_result_def)
      have "run_of C a (r # rs)"
        using rs(1) retry True by (auto simp: run_of_def)
      then show ?thesis
        using rs s1 unfolding loop
        by (intro exI[of _ "r # rs"]) (simp add: res pauses_split[of C a "length rs"])
    qed
  qed
qed

text \<open>The pauses of a run add up to \<open>base * (2 ^ (n - 1) - 1)\<close>.\<close>

lemma pauses_from_1: "sum_list (pauses C 1 n) = hcmRetryBackoffMs C * (2 ^ n - 1)"
proof (induction n)
  case (Suc n)
  have "pauses C 1 (Suc n) = pauses C 1 n @ [hcmRetryBackoffMs C * 2 ^ n]"
    by (simp add: pauses_def)
  with Suc show ?case by (simp add: algebra_simps)
qed simp

lemma pauses_total: "sum_list (pauses C 0 n) = hcmRetryBackoffMs C * (2 ^ (n - 1) - 1)"
proof (cases n)
  case (Suc m)
  then show ?thesis using pauses_from_1[of C m] by (simp add: pauses_Suc)
qed simp

section \<open>What a run of the read loop does\<close>

definition retryable_get :: "http_error + hcm_balance \<Rightarrow> bool" where
  "retryable_get r = (case r of Inl e \<Rightarrow> isRetryable e | Inr _ \<Rightarrow> False)"

definition get_result_of :: "string \<Rightarrow> (http_error + hcm_balance) list \<Rightarrow> exception + hcm_balance" where
  "get_result_of operationId rs =
     (if rs = [] then Inl (HcmUnavailableError operationId)
      else case last rs of Inr body \<Rightarrow> Inr body | Inl _ \<Rightarrow> Inl (HcmUnavailableError operationId))"

lemma do_get_gets:
  "do_get C q s = (r, s') \<Longrightarrow> gets s' = gets s @ [(q, r)] \<and> slept s' = slept s \<and> wall s' = wall s"
  by (auto simp: do_get_def Let_def split: prod.splits)

lemma get_loop_run:
  "\<exists>rs. int (a + length rs) \<le> max (int a) (clientRetryMaxAttempts C)
     \<and> (\<forall>r \<in> set (butlast rs). retryable_get r)
     \<and> gets (snd (get_loop C q i (int a) s)) = gets s @ map (Pair q) rs
     \<and> slept (snd (get_loop C q i (int a) s)) = slept s @ pauses C a (length rs)
     \<and> fst (get_loop C q i (int a) s) = get_result_of i rs"
proof (induction "nat (clientRetryMaxAttempts C - int a)" arbitrary: a s rule: less_induct)
  case less
  show ?case
  proof (cases "int a < clientRetryMaxAttempts C")
    case False
    then show ?thesis
      by (intro exI[of _ "[]"]) (simp add: get_loop.simps[of C q i "int a"] get_result_of_def)
  next
    case True
    obtain r s1 where r: "do_get C q (pause C (int a) s) = (r, s1)"
      by (cases "do_get C q (pause C (int a) s)")
    have s1: "gets s1 = gets s @ [(q, r)]" "slept s1 = slept s @ pauses C a 1"
      using do_get_gets[OF r] by (simp_all add: slept_pause)
    show ?thesis
    proof (cases "retryable_get r")
      case False
      then have "get_loop C q i (int a) s = (get_result_of i [r], s1)"
        using True r
        by (auto simp: get_loop.simps[of C q i "int a"] retryable_get_def get_result_of_def
            split: sum.splits)
      then show ?thesis
        using True s1 by (intro exI[of _ "[r]"]) simp
    next
      case retry: True
      then obtain err where err: "r = Inl err" "isRetryable err"
        by (auto simp: retryable_get_def split: sum.splits)
      have loop: "get_loop C q i (int a) s = get_loop C q i (int (Suc a)) s1"
        using True r err by (simp add: get_loop.simps[of C q i "int a"] add.commute)
      obtain rs where rs: "int (Suc a + length rs) \<le> max (int (Suc a)) (clientRetryMaxAttempts C)"
        "\<forall>r \<in> set (butlast rs). retryable_get r"
        "gets (snd (get_loop C q i (int (Suc a)) s1)) = gets s1 @ map (Pair q) rs"
        "slept (snd (get_loop C q i (int (Suc a)) s1)) = slept s1 @ pauses C (Suc a) (length rs)"
        "fst (get_loop C q i (int (Suc a)) s1) = get_result_of i rs"
        using less[of "Suc a" s1] True by auto
      then show ?thesis
        using s1 retry err True unfolding loop
        by (intro exI[of _ "r # rs"])
          (auto simp: get_result_of_def pauses_split[of C a "length rs"])
    qed
  qed
qed

lemma get_loop_fails:
  assumes "fst (get_loop C q i (int a) s) = Inl x"
  shows "x = HcmUnavailableError i"
proof -
  obtain rs where "fst (get_loop C q i (int a) s) = get_result_of i rs"
    using get_loop_run[of a C q i s] by blast
  with assms show ?thesis
    by (auto simp: get_result_of_def split: if_splits sum.splits)
qed

lemma client_get_fails: "fst (client_getBalance C e l retry s) = Inl x \<Longrightarrow> \<exists>op. x = HcmUnavailableError op"
proof (cases "retry = Some False")
  case True
  then show "fst (client_getBalance C e l retry s) = Inl x \<Longrightarrow> \<exists>op. x = HcmUnavailableError op"
    by (auto simp: client_getBalance_def Let_def split: prod.splits sum.splits)
next
  case False
  then show "fst (client_getBalance C e l retry s) = Inl x \<Longrightarrow> \<exists>op. x = HcmUnavailableError op"
    using get_loop_fails[of C _ "''getBalance:'' @ e @ '':'' @ l" 0 s x]
    by (auto simp: client_getBalance_def Let_def)
qed

section \<open>The client meets the contract\<close>

text \<open>Both callers of the read in the service pass \<open>retry: false\<close>.\<close>

interpretation http: hcm_contract
  "\<lambda>e l. client_getBalance C e l (Some False)" "client_fileTimeOff C" "client_reverseTimeOff C" for C
proof
  fix e l s x
  assume "fst (client_getBalance C e l (Some False) s) = Inl x"
  then show "\<exists>op. x = HcmUnavailableError op" by (rule client_get_fails)
qed (simp_all add: client_fileTimeOff_def client_reverseTimeOff_def split_beta)


section \<open>What a caller of the client can count on\<close>

definition sent_as :: "string \<Rightarrow> hcm_command \<Rightarrow> string \<Rightarrow> http_post_request" where
  "sent_as url cmd key = \<lparr>p_url = url, p_body = cmd, p_idempotencyKey = key\<rparr>"

text \<open>A network without a server.\<close>

definition dead_http :: "unit http_env" where
  "dead_http = \<lparr>hcmBaseUrl = ''http://localhost:3001'', clientRetryMaxAttempts = 5, hcmRetryBackoffMs = 1000,
     http_get = (\<lambda>_ n. (Inl (Axios_network (Some ''ECONNREFUSED'')), n)),
     http_post = (\<lambda>_ n. (Inl (Axios_network (Some ''ECONNREFUSED'')), n))\<rparr>"

definition dead_env :: "unit http_state env" where
  "dead_env = \<lparr>uuid = (\<lambda>n. replicate n CHR ''i''), reservationTtlDays = 14, hcmRetryMaxAttempts = 5,
     balanceLazyLoadEnabled = balanceLazyLoadEnabled_of (\<lambda>_. None), sqlDatetime = (\<lambda>_. []),
     hcm_getBalance = (\<lambda>e l. client_getBalance dead_http e l (Some False)),
     hcm_fileTimeOff = client_fileTimeOff dead_http, hcm_reverseTimeOff = client_reverseTimeOff dead_http\<rparr>"

definition dead_world :: "unit http_state world" where
  "dead_world = \<lparr>db = empty_db, held = [], clock = 0, dbClock = 0, uuidNext = 0, faults = [],
     hcm = \<lparr>net = (), wall = 0, slept = [], gets = [], posts = []\<rparr>\<rparr>"

text \<open>The answers that are worth another attempt: no usable answer, or a server error.\<close>

definition transient :: "http_error + post_body \<Rightarrow> bool" where
  "transient r = (case r of
      Inl (Axios_response st _) \<Rightarrow> 500 \<le> st
    | Inl (Axios_network _) \<Rightarrow> True
    | Inl Other_error \<Rightarrow> True
    | Inr Null_body \<Rightarrow> True
    | Inr (Body _ _ _) \<Rightarrow> False)"

lemma retryable_transient: "retryable_answer = transient"
  by (rule ext) (simp add: retryable_answer_def transient_def read_body_def isRetryable_def split: sum.splits http_error.splits post_body.splits)

text \<open>C33: A write sends the same request with the same idempotency key at most as often as configured, one attempt after another only while it gets no usable answer or a server error, waits base times (2^(n-1) - 1) in total for n attempts, and answers by the last response.\<close>

theorem writes_are_bounded_retries:
  "\<exists>rs. length rs \<le> nat (clientRetryMaxAttempts C)
     \<and> posts (snd (postWithRetry C url cmd key s)) = posts s @ map (Pair (sent_as url cmd key)) rs
     \<and> (\<forall>r \<in> set (butlast rs). transient r)
     \<and> (rs \<noteq> [] \<and> transient (last rs) \<longrightarrow> length rs = nat (clientRetryMaxAttempts C))
     \<and> (rs = [] \<longleftrightarrow> clientRetryMaxAttempts C \<le> 0)
     \<and> wall (snd (postWithRetry C url cmd key s)) = wall s + hcmRetryBackoffMs C * (2 ^ (length rs - 1) - 1)
     \<and> fst (postWithRetry C url cmd key s)
         = result_of ''unreachable'' (wall (snd (postWithRetry C url cmd key s))) rs"
proof -
  let ?q = "sent_as url cmd key"
  have p: "postWithRetry C url cmd key s = post_loop C ?q (int 0) ''unreachable'' s"
    by (simp add: postWithRetry_def sent_as_def)
  obtain rs where rs: "run_of C 0 rs"
    "posts (snd (post_loop C ?q (int 0) ''unreachable'' s)) = posts s @ map (Pair ?q) rs"
    "wall (snd (post_loop C ?q (int 0) ''unreachable'' s)) = wall s + sum_list (pauses C 0 (length rs))"
    "fst (post_loop C ?q (int 0) ''unreachable'' s)
       = result_of ''unreachable'' (wall (snd (post_loop C ?q (int 0) ''unreachable'' s))) rs"
    using post_loop_run[of C 0 ?q "''unreachable''" s] by blast
  let ?n = "clientRetryMaxAttempts C"
  have len: "int (length rs) \<le> max 0 ?n" and stop: "rs = [] \<or> retryable_answer (last rs) \<Longrightarrow> ?n \<le> int (length rs)"
    using rs(1) by (simp_all add: run_of_def)
  have "rs = [] \<longleftrightarrow> ?n \<le> 0"
    using len stop by (cases rs) (auto simp: max_def split: if_splits)
  moreover have "length rs \<le> nat ?n" using len by linarith
  moreover have "rs \<noteq> [] \<and> retryable_answer (last rs) \<longrightarrow> length rs = nat ?n" using len stop by linarith
  ultimately show ?thesis using rs unfolding p pauses_total retryable_transient[symmetric] by (intro exI[of _ rs]) (simp add: run_of_def)
qed

definition dead_command :: hcm_command where
  "dead_command = \<lparr>c_employeeId = ''emp1'', c_locationId = ''loc1'', c_days = 2, c_startDate = ''2026-06-01'',
     c_endDate = ''2026-06-02'', c_idempotencyKey = ''k:FILE''\<rparr>"

lemma dead_post_loop:
  "length (posts (snd (post_loop dead_http q a h s))) = length (posts s) + nat (5 - a)"
proof (induction "nat (5 - a)" arbitrary: a h s)
  case 0
  then have "\<not> a < clientRetryMaxAttempts dead_http" by (simp add: dead_http_def)
  with 0 show ?case by (simp add: post_loop.simps[of dead_http q a])
next
  case (Suc n)
  then have "a < clientRetryMaxAttempts dead_http" by (simp add: dead_http_def)
  then have "post_loop dead_http q a h s = post_loop dead_http q (a + 1) ''ECONNREFUSED''
      (snd (do_post dead_http q (pause dead_http a s)))"
    by (subst post_loop.simps)
      (simp add: do_post_def dead_http_def read_body_def isRetryable_def extractErrorHint_def Let_def)
  moreover have "posts (snd (do_post dead_http q (pause dead_http a s)))
      = posts s @ [(q, Inl (Axios_network (Some ''ECONNREFUSED'')))]"
    by (simp add: do_post_def dead_http_def Let_def)
  moreover have "n = nat (5 - (a + 1))" using Suc(2) by simp
  ultimately show ?case using Suc by simp
qed

lemma writes_are_bounded_retries_witness:
  "wall (snd (postWithRetry dead_http ''http://localhost:3001/hcm/timeoff'' dead_command ''k:FILE'' (hcm dead_world)))
     = 15000"
proof -
  let ?run = "postWithRetry dead_http ''http://localhost:3001/hcm/timeoff'' dead_command ''k:FILE'' (hcm dead_world)"
  obtain rs where "posts (snd ?run) = posts (hcm dead_world) @ map (Pair (sent_as ''http://localhost:3001/hcm/timeoff''
        dead_command ''k:FILE'')) rs"
    "wall (snd ?run) = wall (hcm dead_world) + hcmRetryBackoffMs dead_http * (2 ^ (length rs - 1) - 1)"
    using writes_are_bounded_retries[of dead_http "''http://localhost:3001/hcm/timeoff''" dead_command "''k:FILE''" "hcm dead_world"]
    by blast
  moreover have "length (posts (snd ?run)) = 5"
    by (simp add: postWithRetry_def dead_post_loop) (simp add: dead_world_def)
  ultimately show ?thesis by (simp add: dead_world_def dead_http_def)
qed

text \<open>A read made with retry off sends exactly one request and waits for nothing; a read with retries sends at most the configured number; either way a read that fails fails with HcmUnavailableError of its operation.\<close>

lemma reads_fail_as_unavailable:
  "\<exists>rs. gets (snd (client_getBalance C e l retry s)) = gets s @ rs
     \<and> (if retry = Some False then length rs = 1 \<and> slept (snd (client_getBalance C e l retry s)) = slept s
        else length rs \<le> nat (clientRetryMaxAttempts C))
     \<and> (\<forall>x. fst (client_getBalance C e l retry s) = Inl x \<longrightarrow>
          x = HcmUnavailableError (''getBalance:'' @ e @ '':'' @ l))"
proof (cases "retry = Some False")
  case True
  let ?q = "\<lparr>q_url = hcmBaseUrl C @ ''/hcm/balance'', q_employeeId = e, q_locationId = l,
             q_timeout = Some NO_RETRY_TIMEOUT_MS\<rparr>"
  obtain r s1 where r: "do_get C ?q s = (r, s1)" by (cases "do_get C ?q s")
  then show ?thesis
    using do_get_gets[OF r] True
    by (intro exI[of _ "[(?q, r)]"]) (auto simp: client_getBalance_def Let_def split: sum.splits)
next
  case False
  let ?q = "\<lparr>q_url = hcmBaseUrl C @ ''/hcm/balance'', q_employeeId = e, q_locationId = l, q_timeout = None\<rparr>"
  let ?i = "''getBalance:'' @ e @ '':'' @ l"
  have run: "client_getBalance C e l retry s = get_loop C ?q ?i (int 0) s"
    using False by (simp add: client_getBalance_def)
  obtain rs where "int (length rs) \<le> max 0 (clientRetryMaxAttempts C)"
    "gets (snd (get_loop C ?q ?i (int 0) s)) = gets s @ map (Pair ?q) rs"
    using get_loop_run[of 0 C ?q ?i s] by auto
  then show ?thesis
    unfolding run using False get_loop_fails[of C ?q ?i 0 s]
    by (intro exI[of _ "map (Pair ?q) rs"]) auto
qed

end
