(* ===== verification/Unreachable_Hcm.thy ===== *)
theory Unreachable_Hcm
  imports Request_Properties Hcm_Client
begin










end
