(* ===== verification/First_Read_Race.thy ===== *)
theory First_Read_Race
  imports Actor_Properties Concurrency_Properties
begin

text \<open>
  The first read of a balance when lazy loading is switched off: \<open>getBalance\<close> of
  \<open>src/src/balance/balance.service.ts\<close> looks for the row and, when there is none, saves a zero row, both
  outside the balance lock and with an await between them.
\<close>

text \<open>A read that found no row and is about to save the zero row.\<close>

definition late_save :: "string \<Rightarrow> string \<Rightarrow> (unit, 'h) run" where
  "late_save e l = forget (bind (block (save_balance (fresh_balance e l))) (\<lambda>_.
     give (Some (Some (fresh_balance e l, False)))))"

lemma look_then_wait:
  assumes "\<not> balanceLazyLoadEnabled E" "balances (db w) (e, l) = None"
  shows "loop_step E (w, []) (w, [Unlocked (forget (read_run E e l))])"
    "loop_step E (w, [Unlocked (forget (read_run E e l))]) (w, [Unlocked (late_save e l)])"
proof -
  let ?r = "forget (read_run E e l)"
  obtain g where g: "?r = Then g" "g w = (late_save e l, w)"
    using assms by (simp add: forget_def read_run_def block_def bind_Then query_apply findBalance_def is_warm_def late_save_def)
  show "loop_step E (w, []) (w, [Unlocked ?r])"
    using loop_step.look[of E w "[]" e l] by simp
  show "loop_step E (w, [Unlocked ?r]) (w, [Unlocked (late_save e l)])"
    using loop_step.read[of 0 "[Unlocked ?r]" g E w] g by simp
qed

lemma late_save_runs:
  assumes "faults w = []"
  shows "loop_steps E (w, [Unlocked (late_save e l)])
     (w\<lparr>db := (db w)\<lparr>balances := (balances (db w))((e, l) \<mapsto> fresh_balance e l)\<rparr>\<rparr>, [])"
proof -
  let ?w = "w\<lparr>db := (db w)\<lparr>balances := (balances (db w))((e, l) \<mapsto> fresh_balance e l)\<rparr>\<rparr>"
  obtain g out where g: "late_save e l = Then g" "g w = (Fin out, ?w)"
    using assms by (simp add: late_save_def forget_def block_def bind_Then fault_free_simps set_balance_def fresh_balance_def pk_of_def)
  have "loop_step E (w, [Unlocked (late_save e l)]) (?w, [Unlocked (Fin out)])"
    using loop_step.read[of 0 "[Unlocked (late_save e l)]" g E w] g by simp
  moreover have "loop_step E (?w, [Unlocked (Fin out)]) (?w, [])"
    using loop_step.seen[of 0 "[Unlocked (Fin out)]" out E ?w] by simp
  ultimately show ?thesis using loop_steps_step loop_steps_trans by blast
qed

lemma unit_submit_warm:
  assumes "open_for e l b w" "submit E e l s t key w = (Ok r, w')"
  shows "loop_steps E (w, ts) (w', ts)"
proof -
  have "submit E e l s t key w = runExclusive (balanceKey e l) (submit_locked E e l s t key) w"
    using getBalance_warm[of w e l b E] assms(1) by (simp add: submit_def open_for_def andThen_def)
  then have "runExclusive (balanceKey e l) (submit_locked E e l s t key) w = (Ok r, w')" using assms(2) by simp
  then show ?thesis
    using unit_submit[of e l w E s t key ts] assms(1) by (simp add: open_for_def)
qed

text \<open>HCM's value of a balance without requests.\<close>

lemma recon_without_requests:
  assumes "\<forall>r \<in> set (requests d). key_of r \<noteq> (h_employeeId x, h_locationId x)"
  shows "recon_available E x asOf d = h_balance x"
proof -
  let ?e = "h_employeeId x" and ?l = "h_locationId x"
  have none: "\<not> (r_employeeId r = ?e \<and> r_locationId r = ?l)" if "r \<in> set (requests d)" for r
    using assms that by (auto simp: key_of_def)
  have "unackedApprovals E ?e ?l asOf d = []"
    using none by (auto simp: unackedApprovals_def filter_empty_conv)
  moreover have "pendingReverseRows ?e ?l d = []"
    using none by (auto simp: pendingReverseRows_def filter_empty_conv)
  ultimately show ?thesis by (simp add: recon_available_def)
qed

text \<open>C37: With lazy loading switched off the first read of a balance can undo what others have done since it
  looked. While the read that found no row waits to save its zero row, a batch entry gives the balance HCM's
  v days, a submission reserves n of them and its request is PENDING; then the read's save, which no lock
  holds back, puts zero available and zero reserved days in that row: the batch's days and the reservation are
  lost, and the pending request stays. The read enters the pool and makes its look-up, then each stage is a run of the event loop, the read waiting in the pool.\<close>

theorem unlocked_first_read_loses_a_reservation:
  assumes off: "\<not> balanceLazyLoadEnabled E" "balances (db w) (e, l) = None"
    and w: "faults w = []" "held w = []" "world_inv E w" "inj (uuid E)"
    and fresh: "\<forall>r \<in> set (requests (db w)). key_of r \<noteq> (e, l) \<and> idempotencyKey r \<noteq> key" "asOf \<noteq> Invalid_Date"
    and n: "countBusinessDays s t {} = Inr n" "n \<noteq> 0" "n \<le> v" "\<not> str_less t (civil_date_string (clock w))"
  shows "\<exists>w1 w2 r b1 b2.
      loop_step E (w, []) (w, [Unlocked (forget (read_run E e l))])
    \<and> loop_step E (w, [Unlocked (forget (read_run E e l))]) (w, [Unlocked (late_save e l)])
    \<and> reconcile_entry E asOf \<lparr>h_employeeId = e, h_locationId = l, h_balance = v, h_asOf = a\<rparr> w = (Ok (), w1)
    \<and> loop_steps E (w, [Unlocked (late_save e l)]) (w1, [Unlocked (late_save e l)])
    \<and> balances (db w1) (e, l) = Some b1 \<and> available b1 = v \<and> reserved b1 = 0
    \<and> submit E e l s t key w1 = (Ok r, w2) \<and> status r = RequestStatus.PENDING \<and> key_of r = (e, l) \<and> days r = n
    \<and> loop_steps E (w1, [Unlocked (late_save e l)]) (w2, [Unlocked (late_save e l)])
    \<and> balances (db w2) (e, l) = Some b2 \<and> available b2 = v \<and> reserved b2 = n \<and> r \<in> set (requests (db w2))
    \<and> loop_steps E (w2, [Unlocked (late_save e l)])
        (w2\<lparr>db := (db w2)\<lparr>balances := (balances (db w2))((e, l) \<mapsto> fresh_balance e l)\<rparr>\<rparr>, [])
    \<and> available (fresh_balance e l) = 0 \<and> reserved (fresh_balance e l) = 0"
proof -
  let ?x = "\<lparr>h_employeeId = e, h_locationId = l, h_balance = v, h_asOf = a\<rparr>"
  have inv: "db_inv E (uuidNext w) (db w)" using w(3) by (simp add: world_inv_def)
  have q: "reserved_of (db w) (e, l) = 0" using off(2) by (simp add: reserved_of_def)
  have av: "recon_available E ?x asOf (db w) = v"
    using recon_without_requests[of "db w" ?x E asOf] fresh by simp
  let ?b1 = "mut_reconcile v 0 asOf (bal (db w) (e, l))"
  obtain ev where entry: "reconcile_entry E asOf ?x w = (Ok (), w\<lparr>db := (db w)\<lparr>
      balances := (balances (db w))((e, l) \<mapsto> ?b1), reconEvents := reconEvents (db w) @ [ev]\<rparr>\<rparr>)"
    using reconcile_entry_run[OF w(1) inv fresh(2), of ?x] w(2) q av by auto
  let ?w1 = "w\<lparr>db := (db w)\<lparr>balances := (balances (db w))((e, l) \<mapsto> ?b1), reconEvents := reconEvents (db w) @ [ev]\<rparr>\<rparr>"
  have b1: "balances (db ?w1) (e, l) = Some ?b1" "available ?b1 = v" "reserved ?b1 = 0" "lastHcmAsOf ?b1 \<noteq> None"
    by (simp_all add: mut_reconcile_def)
  have s1: "loop_steps E (w, ts) (?w1, ts)" for ts
    using unit_entry[of ?x w E asOf ts] w(2) entry by simp
  have "safe E False (db w) (snd (reconcile_entry E asOf ?x w))"
    using spec_reconcile_entry[OF world_inv_safe[OF w(3)]] by (simp add: spec_same)
  then have inv1: "db_inv E (uuidNext ?w1) (db ?w1)" unfolding entry by (simp add: safe_def world_inv_def)
  have open1: "open_for e l ?b1 ?w1" using b1 w(2) by (simp add: open_for_def)
  let ?r = "submitted E e l s t key n ?w1"
  have free: "\<forall>r \<in> set (requests (db ?w1)). idempotencyKey r \<noteq> key \<and> \<not> overlaps e l s t r"
    using fresh(1) by (auto simp: overlaps_def key_of_def)
  note sub = submit_outcome[OF _ inv1 w(4) open1 _ free n(1,2)]
  let ?w2 = "?w1\<lparr>uuidNext := Suc (Suc (uuidNext ?w1)),
      db := change_balance (mut_reserve n) (e, l) (set_request ?r (db ?w1))\<rparr>"
  have sub1: "submit E e l s t key ?w1 = (Ok ?r, ?w2)"
    by (rule sub(1)) (use w(1) n b1 in simp_all)
  have rows: "balances (db ?w2) = (balances (db ?w1))((e, l) \<mapsto> ?b1\<lparr>reserved := reserved ?b1 + n\<rparr>)"
    using sub(3) w(1) n b1 by simp
  have req: "?r \<in> set (requests (db ?w2))" using sub(2) w(1) n b1 by simp
  have s2: "loop_steps E (?w1, ts) (?w2, ts)" for ts by (rule unit_submit_warm[OF open1 sub1])
  have b2: "balances (db ?w2) (e, l) = Some (?b1\<lparr>reserved := n\<rparr>)"
    using fun_cong[OF rows, of "(e, l)"] b1(3) by simp
  have f2: "faults ?w2 = []" using w(1) by simp
  show ?thesis
    by (rule exI[of _ ?w1], rule exI[of _ ?w2], rule exI[of _ ?r], rule exI[of _ ?b1], rule exI[of _ "?b1\<lparr>reserved := n\<rparr>"])
      (intro conjI look_then_wait off entry s1 b1 sub1 submitted_simps s2 b2 req late_save_runs f2;
        simp add: b1(2) fresh_balance_def)
qed

lemma unlocked_first_read_loses_a_reservation_witness:
  "\<exists>w. loop_steps (fake_env False) (demo_start, []) (w, [])
     \<and> balances (db w) (''emp1'', ''loc1'') = Some (fresh_balance ''emp1'' ''loc1'')
     \<and> (\<exists>r \<in> set (requests (db w)). key_of r = (''emp1'', ''loc1'') \<and> status r = RequestStatus.PENDING \<and> days r = 2)"
proof -
  have start: "faults demo_start = []" "held demo_start = []" "clock demo_start = 0" "db demo_start = empty_db"
    by (simp_all add: demo_start_def fake_world_def)
  have inv: "world_inv (fake_env False) demo_start"
    using starts_pool_ok[OF demo_start_starts, of "fake_env False"] by (simp add: pool_ok_def safe_def)
  let ?E = "fake_env False" and ?late = "late_save ''emp1'' ''loc1'' :: (unit, fake_hcm) run"
  let ?read = "forget (read_run ?E ''emp1'' ''loc1'') :: (unit, fake_hcm) run"
  obtain w1 w2 r where enter: "loop_step ?E (demo_start, []) (demo_start, [Unlocked ?read])"
    "loop_step ?E (demo_start, [Unlocked ?read]) (demo_start, [Unlocked ?late])"
    and run:
    "loop_steps ?E (demo_start, [Unlocked ?late]) (w1, [Unlocked ?late])"
    "key_of r = (''emp1'', ''loc1'') \<and> status r = RequestStatus.PENDING \<and> days r = 2" "r \<in> set (requests (db w2))"
    "loop_steps ?E (w1, [Unlocked ?late]) (w2, [Unlocked ?late])"
    "loop_steps ?E (w2, [Unlocked ?late])
        (w2\<lparr>db := (db w2)\<lparr>balances := (balances (db w2))((''emp1'', ''loc1'') \<mapsto> fresh_balance ''emp1'' ''loc1'')\<rparr>\<rparr>, [])"
    using unlocked_first_read_loses_a_reservation[OF _ _ start(1,2) inv demo_inj _ _ demo_count,
        of "''emp1''" "''loc1''" "''key-1''" "Date_at 0" 10 "toISOString 0"] start demo_not_past(1)
    by (auto simp: empty_db_def)
  show ?thesis
    by (rule exI[of _ "w2\<lparr>db := (db w2)\<lparr>balances := (balances (db w2))((''emp1'', ''loc1'') \<mapsto> fresh_balance ''emp1'' ''loc1'')\<rparr>\<rparr>"])
      (use run(2,3) loop_steps_trans[OF loop_steps_trans[OF loop_steps_trans[OF loop_steps_trans[OF enter[THEN loop_steps_step]] run(1)] run(4)] run(5)] in auto)
qed

end
