(* ===== verification/Event_Loop.thy ===== *)
theory Event_Loop
  imports Concurrency_Properties
begin

text \<open>
  The operations of the service as runs of the event loop: with lazy loading on, every public operation
  that settles is a sequence of loop steps in which the other threads of the pool do not move. So the pools of
  \<open>Interleaving\<close> contain every execution of the operations, and what holds for all pools holds for them.
\<close>

section \<open>Runs under a lasting condition\<close>

definition lasting :: "(database \<Rightarrow> bool) \<Rightarrow> bool" where
  "lasting P = (\<forall>d d'. lifecycle d d' \<longrightarrow> P d \<longrightarrow> P d')"

definition in_loop :: "'h env \<Rightarrow> (database \<Rightarrow> bool) \<Rightarrow> ('a, 'h) svc \<Rightarrow> bool" where
  "in_loop E P m = (\<forall>w ts. world_inv E w \<longrightarrow> P (db w) \<longrightarrow> fst (m w) \<noteq> Hang \<longrightarrow> loop_steps E (w, ts) (snd (m w), ts))"

named_theorems loop_rules

lemma lasting_owned [loop_rules]: "lasting (\<lambda>_. True)" "lasting (owned i k)" "lasting (row_owned i k)"
  "lasting (\<lambda>d. \<forall>r\<in>A. owned (f r) (g r) d)"
  "(\<And>x. lasting (R x)) \<Longrightarrow> lasting (\<lambda>d. case v of None \<Rightarrow> True | Some x \<Rightarrow> R x d)"
  by (cases v; auto simp: lasting_def intro: owned_stays row_owned_stays)+

lemma in_loop_weaken: "in_loop E P m \<Longrightarrow> (\<And>d. Q d \<Longrightarrow> P d) \<Longrightarrow> in_loop E Q m"
  by (simp add: in_loop_def)

lemma in_loop_still [loop_rules]:
  "in_loop E P (return x)" "in_loop E P (throw e)" "in_loop E P (query q)" "in_loop E P now"
  by (simp_all add: in_loop_def svc_simps)

lemma in_loop_query:
  assumes "\<And>d. P d \<Longrightarrow> R (q d) d" "\<And>x. in_loop E (R x) (f x)"
  shows "in_loop E P (andThen (query q) f)"
  using assms by (simp add: in_loop_def andThen_query)

lemma in_loop_andThen:
  assumes m: "in_loop E P m" and f: "\<And>x. in_loop E P (f x)"
    and "lasting P" "runs_as_steps E m" "inj (uuid E)"
  shows "in_loop E P (andThen m f)"
  unfolding in_loop_def
proof (intro allI impI)
  fix w ts assume w: "world_inv E w" "P (db w)" "fst (andThen m f w) \<noteq> Hang"
  obtain out w1 where r: "m w = (out, w1)" by (cases "m w")
  then have nh: "out \<noteq> Hang" using w(3) by (auto simp: andThen_def)
  have one: "loop_steps E (w, ts) (w1, ts)" using m w(1,2) r nh by (force simp: in_loop_def)
  show "loop_steps E (w, ts) (snd (andThen m f w), ts)"
  proof (cases out)
    case (Ok x)
    have "steps E w w1" using assms(4) r by (metis runs_as_steps_def snd_conv)
    from steps_safe[OF this assms(5), of "db w"] w(1) have "safe E False (db w) w1" by (simp add: safe_def)
    then have "world_inv E w1" "P (db w1)"
      using w(2) assms(3) by (auto simp: safe_def evolves_def lasting_def)
    moreover have "andThen m f w = f x w1" using r Ok by (simp add: andThen_def)
    ultimately show ?thesis using f[of x] w(3) one loop_steps_trans by (fastforce simp: in_loop_def)
  qed (use one r nh in \<open>simp_all add: andThen_def\<close>)
qed

lemma in_loop_cases [loop_rules]:
  "(v = None \<Longrightarrow> in_loop E P m) \<Longrightarrow> (\<And>x. v = Some x \<Longrightarrow> in_loop E P (f x)) \<Longrightarrow>
    in_loop E P (case v of None \<Rightarrow> m | Some x \<Rightarrow> f x)"
  "(b \<Longrightarrow> in_loop E P m) \<Longrightarrow> (\<not> b \<Longrightarrow> in_loop E P m') \<Longrightarrow> in_loop E P (if b then m else m')"
  by (cases v) simp_all

lemma in_loop_for_each:
  assumes "\<And>x. x \<in> set xs \<Longrightarrow> in_loop E P (f x)" "\<And>x. runs_as_steps E (f x)" "lasting P" "inj (uuid E)"
  shows "in_loop E P (for_each f xs)"
  using assms(1) by (induction xs) (auto intro!: in_loop_andThen in_loop_still assms(2-))

lemma in_loop_unit:
  assumes "\<And>d. P d \<Longrightarrow> critical E d k r" "alone r = andThen m (\<lambda>_. return ())"
  shows "in_loop E P (runExclusive k m)"
  unfolding in_loop_def
proof (intro allI impI)
  fix w ts assume "P (db w)" "fst (runExclusive k m w) \<noteq> Hang"
  moreover from this(2) have "k \<notin> set (held w)" by (auto simp: runExclusive_def)
  ultimately show "loop_steps E (w, ts) (snd (runExclusive k m w), ts)"
    using unit_exclusive[OF _ assms(1) assms(2)] by blast
qed

lemma unit_return: "andThen m (\<lambda>_. return ()) = (m :: (unit, 'h) svc)" "andThen m return = (m :: (unit, 'h) svc)"
  by (auto simp: fun_eq_iff andThen_def return_def split: prod.split outcome.split)

lemma in_loop_free:
  assumes "\<And>w. free_step w (snd (m w))"
  shows "in_loop E P m"
  using assms loop_step.free loop_steps_step by (fastforce simp: in_loop_def)

section \<open>The units\<close>

lemma forgotten: "alone r = m \<Longrightarrow> alone (forget r) = andThen m (\<lambda>_. return ())"
  by (simp add: alone_forget)

lemma in_loop_handlers [loop_rules]:
  "in_loop E P (runExclusive (balanceKey e l) (submit_locked E e l s t key))"
  "in_loop E (owned i k) (runExclusive k (approve_locked E i))"
  "in_loop E (owned i k) (runExclusive k (reject_locked i))"
  "in_loop E (owned i k) (runExclusive k (cancel_locked E i))"
  "in_loop E P (runExclusive (balanceKey e l) (hydrate E e l))"
  by (rule in_loop_unit[OF critical.submit forgotten[OF alone_submit]]
    in_loop_unit[OF critical.approve forgotten[OF alone_approve]]
    in_loop_unit[OF critical.reject forgotten[OF alone_settle(1)]]
    in_loop_unit[OF critical.cancel forgotten[OF alone_settle(2)]]
    in_loop_unit[OF critical.hydrate forgotten[OF alone_hydrate]]; assumption?)+

lemma in_loop_workers [loop_rules]:
  "in_loop E (row_owned i k) (runExclusive k (dispatch_locked E i))"
  "in_loop E P (reconcile_entry E asOf x)" "in_loop E P (resolveReview e l)"
  "in_loop E P (sequence_guard corpus)" "in_loop E P (transaction (write_db (log_batch b)))"
proof -
  show "in_loop E (row_owned i k) (runExclusive k (dispatch_locked E i))"
    by (rule in_loop_unit[OF critical.dispatch]) (simp_all add: alone_dispatch unit_return)
  show "in_loop E P (reconcile_entry E asOf x)"
    unfolding reconcile_entry_def by (rule in_loop_unit[OF critical.entry[where asOf = asOf]]) (simp add: unit_return)
  show "in_loop E P (resolveReview e l)"
    unfolding resolveReview_def by (rule in_loop_unit[OF critical.review]) (simp add: unit_return)
qed (rule in_loop_free, rule free_step.intros)+

lemma in_loop_expire: "in_loop E (owned (r_id r) (request_key r)) (expire_one r)"
  unfolding expire_one_def request_key_def
  by (rule in_loop_unit[OF critical.expire[where i = "r_id r"]]) (simp_all add: alone_forget alone_settle unit_return)

section \<open>The operations\<close>

lemma in_loop_getBalance [loop_rules]:
  assumes "balanceLazyLoadEnabled E"
  shows "in_loop E P (getBalance E e l)"
  unfolding getBalance_def findBalance_def
  by (rule in_loop_query[where R = "\<lambda>_ _. True"]) (use assms in \<open>auto intro!: loop_rules\<close>)

lemma in_loop_with_lock:
  assumes "balanceLazyLoadEnabled E" "inj (uuid E)" "\<And>k. in_loop E (owned i k) (runExclusive k body)"
  shows "in_loop E P (with_request_lock E i body)"
  unfolding with_request_lock_def findRequest_def
proof (rule in_loop_query[where R = "\<lambda>v d. case v of None \<Rightarrow> True | Some p \<Rightarrow> owned i (request_key p) d"])
  show "case List.find (\<lambda>r. r_id r = i) (requests d) of None \<Rightarrow> True | Some p \<Rightarrow> owned i (request_key p) d" for d
    by (auto simp: owned_def dest: find_Some_in split: option.split)
  have go: "in_loop E (owned i (request_key p)) (andThen (getBalance E (r_employeeId p) (r_locationId p))
      (\<lambda>_. runExclusive (balanceKey (r_employeeId p) (r_locationId p)) body))" for p
    unfolding request_key_def balanceKey_def[symmetric]
    by (rule in_loop_andThen, rule in_loop_getBalance[OF assms(1)], rule assms(3), rule lasting_owned(2),
        rule run_units(1), rule assms(2))
  show "in_loop E (\<lambda>d. case v of None \<Rightarrow> True | Some p \<Rightarrow> owned i (request_key p) d)
     (case v of None \<Rightarrow> throw (NotFoundException (Not_found i))
      | Some p \<Rightarrow> andThen (getBalance E (r_employeeId p) (r_locationId p))
          (\<lambda>_. runExclusive (balanceKey (r_employeeId p) (r_locationId p)) body))" for v
    by (cases v) (simp_all only: option.case go in_loop_still(2))
qed

lemma in_loop_dispatchOne: "in_loop E P (dispatchOne E i)"
  unfolding in_loop_def
proof (intro allI impI)
  fix w ts assume nh: "fst (dispatchOne E i w) \<noteq> Hang"
  show "loop_steps E (w, ts) (snd (dispatchOne E i w), ts)"
  proof (cases "\<exists>x r. List.find (\<lambda>x. o_id x = i) (outbox (db w)) = Some x \<and> o_status x = OutboxStatus.PENDING
      \<and> List.find (\<lambda>r. r_id r = aggregateId x) (requests (db w)) = Some r")
    case True
    then obtain x r where x: "List.find (\<lambda>x. o_id x = i) (outbox (db w)) = Some x" "o_status x = OutboxStatus.PENDING"
      "List.find (\<lambda>r. r_id r = aggregateId x) (requests (db w)) = Some r" by blast
    have run: "dispatchOne E i w = runExclusive (request_key r) (dispatch_locked E i) w"
      unfolding dispatchOne_def findOutbox_def findRequest_def andThen_query request_key_def x option.case
      using x(2) by (simp only: simp_thms if_False andThen_query x(3) option.case)
    have own: "row_owned i (request_key r) (db w)"
      using find_Some_in[OF x(1)] find_Some_in[OF x(3)] by (auto simp: row_owned_def owned_def)
    have "request_key r \<notin> set (held w)" using nh run by (auto simp: runExclusive_def)
    from unit_exclusive[OF this critical.dispatch[OF own], where m = "dispatch_locked E i"] show ?thesis
      using nh unfolding run by (simp add: alone_dispatch unit_return)
  next
    case False
    have "snd (dispatchOne E i w) = w"
    proof (cases "List.find (\<lambda>x. o_id x = i) (outbox (db w))")
      case None
      then show ?thesis by (simp add: dispatchOne_def findOutbox_def andThen_query return_apply)
    next
      case (Some x)
      show ?thesis
      proof (cases "o_status x = OutboxStatus.PENDING")
        case pending: True
        with False Some have "List.find (\<lambda>r. r_id r = aggregateId x) (requests (db w)) = None" by (metis option.exhaust)
        with Some pending show ?thesis
          by (simp add: dispatchOne_def findOutbox_def findRequest_def andThen_query return_apply)
      next
        case False
        with Some show ?thesis by (simp add: dispatchOne_def findOutbox_def andThen_query return_apply)
      qed
    qed
    then show ?thesis by simp
  qed
qed

text \<open>\<open>settles_in_loop E m w\<close>: unless it waits for ever, the operation is a run of the loop beside any pool.\<close>

definition settles_in_loop :: "'h env \<Rightarrow> ('a, 'h) svc \<Rightarrow> 'h world \<Rightarrow> bool" where
  "settles_in_loop E m w = (fst (m w) \<noteq> Hang \<longrightarrow> (\<forall>ts. loop_steps E (w, ts) (snd (m w), ts)))"

lemma in_loop_settles: "in_loop E (\<lambda>_. True) m \<Longrightarrow> world_inv E w \<Longrightarrow> settles_in_loop E m w"
  by (simp add: in_loop_def settles_in_loop_def)

lemma operations_in_loop:
  assumes lazy: "balanceLazyLoadEnabled E" and inj: "inj (uuid E)"
  shows "in_loop E (\<lambda>_. True) (submit E e l s t key)" "in_loop E (\<lambda>_. True) (approve E i)"
    "in_loop E (\<lambda>_. True) (reject E i)" "in_loop E (\<lambda>_. True) (cancel E i)" "in_loop E (\<lambda>_. True) sweep"
    "in_loop E (\<lambda>_. True) (dispatchPending E)" "in_loop E (\<lambda>_. True) (ingestBatch E corpus)"
proof -
  show "in_loop E (\<lambda>_. True) (submit E e l s t key)"
    unfolding submit_def by (intro in_loop_andThen loop_rules step_rules lazy inj)
  show "in_loop E (\<lambda>_. True) (approve E i)" "in_loop E (\<lambda>_. True) (reject E i)" "in_loop E (\<lambda>_. True) (cancel E i)"
    unfolding approve_def reject_def cancel_def by (intro in_loop_with_lock loop_rules lazy inj)+
  show "in_loop E (\<lambda>_. True) (dispatchPending E)"
    unfolding dispatchPending_def
    by (rule in_loop_query[where R = "\<lambda>_ _. True"])
      (auto intro!: in_loop_for_each in_loop_dispatchOne loop_rules step_rules inj)
  show "in_loop E (\<lambda>_. True) (ingestBatch E corpus)"
    unfolding ingestBatch_def Let_def
    by (intro in_loop_andThen in_loop_for_each loop_rules step_rules inj)
  show "in_loop E (\<lambda>_. True) sweep"
    unfolding sweep_def
  proof (rule in_loop_andThen)
    fix t
    have each: "in_loop E (\<lambda>d. \<forall>r\<in>set rs. owned (r_id r) (request_key r) d) (for_each expire_one rs)" for rs
      by (intro in_loop_for_each loop_rules step_rules inj) (rule in_loop_weaken[OF in_loop_expire], blast)
    show "in_loop E (\<lambda>_. True) (andThen (query (\<lambda>d. filter (sweepable t) (requests d))) (for_each expire_one))"
      by (rule in_loop_query[OF _ each]) (auto simp: owned_def)
  qed (rule loop_rules step_rules inj)+
qed

section \<open>The theorem\<close>

text \<open>C19: The event loop contains the service: in every reachable state, with lazy loading on, each public
  operation that does not wait for ever (a balance read, the four request operations, the sweep, the
  dispatcher's tick, the ingestion of a batch, the resolution of a review) is a sequence of blocks of the
  event loop during which no other thread moves, whatever threads are in the pool; so what holds of all
  interleavings of blocks holds of the operations.\<close>

theorem operations_are_runs_of_the_loop:
  assumes "reachable E w" "inj (uuid E)" "balanceLazyLoadEnabled E"
  shows "settles_in_loop E (getBalance E e l) w \<and> settles_in_loop E (submit E e l s t key) w
    \<and> settles_in_loop E (approve E i) w \<and> settles_in_loop E (reject E i) w \<and> settles_in_loop E (cancel E i) w
    \<and> settles_in_loop E sweep w \<and> settles_in_loop E (dispatchPending E) w
    \<and> settles_in_loop E (ingestBatch E corpus) w \<and> settles_in_loop E (resolveReview e l) w"
  using reachable_inv[OF assms(1,2)]
  by (intro conjI in_loop_settles operations_in_loop[OF assms(3,2)] in_loop_getBalance[OF assms(3)] in_loop_workers)

lemma demo_approve:
  "fst (approve (fake_env True) (r_id demo_new) demo_submitted) = Ok (committed_request 0 demo_new)"
  "snd (approve (fake_env True) (r_id demo_new) demo_submitted) = demo_approved"
proof -
  have new: "r_employeeId demo_new = ''emp1''" "r_locationId demo_new = ''loc1''"
    by (simp_all add: demo_new_def demo_request_def)
  have find: "List.find (\<lambda>r. r_id r = r_id demo_new) (requests (db demo_submitted)) = Some demo_new"
    by (simp add: demo_submitted_db(2))
  have "balances (db demo_submitted) (''emp1'', ''loc1'') = Some (mut_reserve 2 (demo_balance 10 0))"
    by (simp add: demo_submitted_db(1) demo_warm_db change_balance_def set_balance_def set_request_def
      demo_balance_def pk_of_def bal_def mut_reserve_def fake_world_def empty_db_def)
  then have "getBalance (fake_env True) ''emp1'' ''loc1'' demo_submitted = (Ok (Some (mut_reserve 2 (demo_balance 10 0), False)), demo_submitted)"
    by (rule getBalance_warm) (simp add: demo_balance_def mut_reserve_def)
  then have "approve (fake_env True) (r_id demo_new) demo_submitted
      = runExclusive demo_key (approve_locked (fake_env True) (r_id demo_new)) demo_submitted"
    by (simp add: approve_def with_request_lock_def findRequest_def query_apply find andThen_def new demo_key_def)
  then show "fst (approve (fake_env True) (r_id demo_new) demo_submitted) = Ok (committed_request 0 demo_new)"
    "snd (approve (fake_env True) (r_id demo_new) demo_submitted) = demo_approved"
    by (simp_all add: demo_approved_db(3) demo_approved_def)
qed

lemma operations_are_runs_of_the_loop_witness:
  "loop_steps (fake_env True) (demo_submitted, []) (demo_approved, [])
   \<and> fst (approve (fake_env True) (r_id demo_new) demo_submitted) = Ok (committed_request 0 demo_new)"
proof -
  have "settles_in_loop (fake_env True) (approve (fake_env True) (r_id demo_new)) demo_submitted"
    using operations_are_runs_of_the_loop[OF demo_reachable demo_inj] by simp
  then show ?thesis by (simp add: settles_in_loop_def demo_approve)
qed

end
