(* ===== verification/Start_Up.thy ===== *)
theory Start_Up
  imports Hcm_Client
begin

text \<open>
  From the process environment to the running service: the environments of the HCM client and of the
  services built from the getters of \<open>Configuration\<close>, the database options
  (\<open>src/src/database/database.module.ts\<close>), the ports the two servers listen on
  (\<open>src/src/main.ts\<close>, \<open>src/src/mock-hcm/main.ts\<close>) and the health route.
\<close>

section \<open>The environments\<close>

text \<open>
  A loop \<open>for (attempt = 0; attempt < max; attempt++)\<close> over a \<open>NaN\<close> limit ends at once, like one over 0.
\<close>

definition attempt_bound :: "js_number \<Rightarrow> int option" where
  "attempt_bound v = (case v of Whole n \<Rightarrow> Some n | NaN \<Rightarrow> Some 0 | Other_form \<Rightarrow> None)"

definition http_env_of ::
  "environment \<Rightarrow> (http_request \<Rightarrow> 'n \<Rightarrow> (http_error + hcm_balance) \<times> 'n) \<Rightarrow>
   (http_post_request \<Rightarrow> 'n \<Rightarrow> (http_error + post_body) \<times> 'n) \<Rightarrow> 'n http_env option" where
  "http_env_of vars get post =
     (case (attempt_bound (to_number (hcmRetryMaxAttempts_of vars)), to_number (hcmRetryBackoffMs_of vars)) of
        (Some n, Whole ms) \<Rightarrow>
          Some \<lparr>hcmBaseUrl = hcmBaseUrl_of vars, clientRetryMaxAttempts = n, hcmRetryBackoffMs = ms,
                http_get = get, http_post = post\<rparr>
      | _ \<Rightarrow> None)"

text \<open>The services, with the HTTP client as their HCM; the numbers must be readable here.\<close>

definition service_env_of ::
  "environment \<Rightarrow> 'n http_env \<Rightarrow> (nat \<Rightarrow> string) \<Rightarrow> (js_date \<Rightarrow> string) \<Rightarrow>
   'n http_state env option" where
  "service_env_of vars C uuids stored =
     (case (to_number (reservationTtlDays_of vars), to_number (hcmRetryMaxAttempts_of vars)) of
        (Whole ttl, Whole n) \<Rightarrow>
          Some \<lparr>uuid = uuids, reservationTtlDays = ttl, hcmRetryMaxAttempts = n,
                balanceLazyLoadEnabled = balanceLazyLoadEnabled_of vars, sqlDatetime = stored,
                hcm_getBalance = (\<lambda>e l. client_getBalance C e l (Some False)),
                hcm_fileTimeOff = client_fileTimeOff C, hcm_reverseTimeOff = client_reverseTimeOff C\<rparr>
      | _ \<Rightarrow> None)"

section \<open>Database options\<close>

datatype source_value = Str string | Flag bool | Names "string list"

type_synonym source_options = "string \<Rightarrow> source_value option"

definition buildDataSourceOptions :: "source_options \<Rightarrow> source_options" where
  "buildDataSourceOptions overrides =
     [''type'' \<mapsto> Str ''better-sqlite3'',
      ''database'' \<mapsto> Str ''/app/data/timeoff.sqlite'',
      ''entities'' \<mapsto> Names [''Balance'', ''TimeOffRequest'', ''Outbox'', ''BatchSyncLog'', ''ReconciliationEvent''],
      ''synchronize'' \<mapsto> Flag False,
      ''logging'' \<mapsto> Flag False] ++ overrides"

definition database_options :: "environment \<Rightarrow> source_options" where
  "database_options vars =
     buildDataSourceOptions [''database'' \<mapsto> Str (databasePath vars), ''synchronize'' \<mapsto> Flag True]"

section \<open>Ports and health\<close>

definition listen_port :: "environment \<Rightarrow> setting" where
  "listen_port vars = (case vars ''PORT'' of Some s \<Rightarrow> Text s | None \<Rightarrow> Number 3000)"

definition mock_listen_port :: "environment \<Rightarrow> js_number" where
  "mock_listen_port vars = to_number (case vars ''PORT'' of Some s \<Rightarrow> Text s | None \<Rightarrow> Number 3001)"

text \<open>The body of the health route, its one field.\<close>

definition health :: string where
  "health = ''ok''"

lemma listen_port_is_configured: "listen_port = port_of"
  by (rule ext) (simp add: listen_port_def port_of_def config_number_def)

lemma database_options_simps:
  "database_options vars ''database'' = Some (Str (config_text vars ''DATABASE_PATH'' ''/app/data/timeoff.sqlite''))"
  "database_options vars ''synchronize'' = Some (Flag True)" "database_options vars ''logging'' = Some (Flag False)"
  by (simp_all add: database_options_def buildDataSourceOptions_def databasePath_def)

section \<open>Properties\<close>

lemma no_attempts:
  assumes "clientRetryMaxAttempts C \<le> 0"
  shows "get_loop C q i 0 s = (Inl (HcmUnavailableError i), s)"
    "post_loop C p 0 h s = (\<lparr>ok = False, ackedAt = None, errorHint = Some h\<rparr>, s)"
  using assms by (simp_all add: get_loop.simps[of C q i 0] post_loop.simps[of C p 0])

text \<open>C35: Nothing validates the retry limit: when HCM_RETRY_MAX_ATTEMPTS is set to a text that is no
  number, or to zero or less, the client never sends a write nor a retried read, answers every write
  unreachable and every such read unavailable, and records no exchange.\<close>

theorem unreadable_retry_limit_silences_hcm:
  assumes "vars ''HCM_RETRY_MAX_ATTEMPTS'' = Some s"
    and "text_to_number s = NaN \<or> (\<exists>n. text_to_number s = Whole n \<and> n \<le> 0)"
    and "http_env_of vars get post = Some C"
  shows "client_fileTimeOff C cmd st = (Inr \<lparr>ok = False, ackedAt = None, errorHint = Some ''unreachable''\<rparr>, st)
    \<and> client_reverseTimeOff C cmd st = (Inr \<lparr>ok = False, ackedAt = None, errorHint = Some ''unreachable''\<rparr>, st)
    \<and> client_getBalance C e l None st = (Inl (HcmUnavailableError (''getBalance:'' @ e @ '':'' @ l)), st)"
proof -
  have "clientRetryMaxAttempts C \<le> 0"
    using assms by (auto simp: http_env_of_def attempt_bound_def hcmRetryMaxAttempts_of_def config_number_def
        to_number_def split: js_number.splits option.splits)
  then show ?thesis
    by (simp add: client_fileTimeOff_def client_reverseTimeOff_def client_getBalance_def postWithRetry_def no_attempts)
qed

lemma unreadable_retry_limit_silences_hcm_witness:
  "\<exists>C. http_env_of [''HCM_RETRY_MAX_ATTEMPTS'' \<mapsto> ''five''] (http_get dead_http) (http_post dead_http) = Some C
     \<and> client_getBalance C ''emp1'' ''loc1'' None (hcm dead_world)
         = (Inl (HcmUnavailableError ''getBalance:emp1:loc1''), hcm dead_world)"
proof -
  let ?v = "[''HCM_RETRY_MAX_ATTEMPTS'' \<mapsto> ''five'']"
  have nan: "text_to_number ''five'' = NaN" by code_simp
  then obtain C where C: "http_env_of ?v (http_get dead_http) (http_post dead_http) = Some C"
    by (simp add: http_env_of_def attempt_bound_def hcmRetryMaxAttempts_of_def hcmRetryBackoffMs_of_def
        config_number_def to_number_def)
  show ?thesis
    using unreadable_retry_limit_silences_hcm[of ?v "''five''" "http_get dead_http" "http_post dead_http" C undefined
        "hcm dead_world" "''emp1''" "''loc1''"] C nan by simp
qed

text \<open>The environment reaches the service: numbers written in decimal are the ones the client and the
  services use, unset variables leave the defaults (14 days, 5 attempts, 1000 ms, localhost), and lazy
  loading is on unless it is set to \<open>false\<close> or \<open>0\<close>.\<close>

lemma settings_reach_the_service:
  assumes "vars ''HCM_RETRY_MAX_ATTEMPTS'' = map_option decimal n" "vars ''RESERVATION_TTL_DAYS'' = map_option decimal d"
    and "vars ''HCM_RETRY_BACKOFF_MS'' = map_option decimal b"
  shows "\<exists>C E. http_env_of vars get post = Some C \<and> service_env_of vars C uuids stored = Some E
    \<and> clientRetryMaxAttempts C = (case n of None \<Rightarrow> 5 | Some k \<Rightarrow> int k) \<and> hcmRetryMaxAttempts E = clientRetryMaxAttempts C
    \<and> hcmRetryBackoffMs C = (case b of None \<Rightarrow> 1000 | Some k \<Rightarrow> int k)
    \<and> reservationTtlDays E = (case d of None \<Rightarrow> 14 | Some k \<Rightarrow> int k)
    \<and> (balanceLazyLoadEnabled E \<longleftrightarrow> vars ''BALANCE_LAZY_LOAD_ENABLED'' \<notin> {Some ''false'', Some ''0''})"
proof -
  have num: "to_number (config_number vars name k) = Whole (case m of None \<Rightarrow> k | Some j \<Rightarrow> int j)"
    if "vars name = map_option decimal m" for name k m
    using that by (cases m) (simp_all add: config_number_def to_number_def text_to_number_decimal)
  show ?thesis
    using num[OF assms(1)] num[OF assms(2)] num[OF assms(3)]
    by (auto simp: http_env_of_def service_env_of_def attempt_bound_def hcmRetryMaxAttempts_of_def
        reservationTtlDays_of_def hcmRetryBackoffMs_of_def balanceLazyLoadEnabled_of_def config_text_def
        split: option.splits)
qed

end
