(* ===== verification/Wiring.thy ===== *)
theory Wiring
  imports Start_Up
begin

text \<open>
  The module declarations (\<open>*.module.ts\<close> under \<open>src/src/\<close>), the constructor parameters of the classes
  they provide, the two entry points and the test module of \<open>testing/test-module.ts\<close>. The container that
  builds the instances is the framework's: what it promises is the locale \<open>container\<close>, what its library
  modules export the function \<open>lib\<close> of that locale. That every parameter is injected, with one shared
  instance, and that no provider waits for itself, is the property at the end.
\<close>

section \<open>Declarations\<close>

text \<open>An injection token: a class, a string token, the repository of an entity, or the data source.\<close>

datatype token = Class string | Named string | Repository string | Data_Source

datatype library =
    Nest_Config bool \<comment> \<open>is it global\<close>
  | Http
  | Schedule
  | Orm_Root
  | Orm_Feature "string list"

datatype import_entry = Plain string | Forward_Ref string | Library library

datatype recipe = Use_Class string | Use_Value string

record module_decl =
  is_global :: bool
  imported :: "import_entry list"
  controllers :: "string list"
  providers :: "(token \<times> recipe) list"
  exported :: "token list"
  reexported :: "library list"

abbreviation own_class :: "string \<Rightarrow> token \<times> recipe" where
  "own_class c \<equiv> (Class c, Use_Class c)"

section \<open>The modules\<close>

definition AppModule :: module_decl where
  "AppModule = \<lparr>is_global = False,
     imported = [Plain ''AppConfigModule'', Plain ''DatabaseModule'', Plain ''ClockModule'', Plain ''LockModule'',
       Library Schedule,
       Plain ''HcmModule'', Plain ''BalanceModule'', Plain ''TimeOffRequestModule'', Plain ''ReconciliationModule'',
       Plain ''ReservationReaperModule''],
     controllers = [''HealthController''], providers = [], exported = [], reexported = []\<rparr>"

definition AppConfigModule :: module_decl where
  "AppConfigModule = \<lparr>is_global = True, imported = [Library (Nest_Config True)], controllers = [],
     providers = [own_class ''AppConfigService''], exported = [Class ''AppConfigService''], reexported = []\<rparr>"

definition DatabaseModule :: module_decl where
  "DatabaseModule = \<lparr>is_global = False, imported = [Library Orm_Root], controllers = [], providers = [],
     exported = [], reexported = [Orm_Root]\<rparr>"

definition ClockModule :: module_decl where
  "ClockModule = \<lparr>is_global = True, imported = [], controllers = [],
     providers = [(Named ''CLOCK'', Use_Class ''SystemClock'')], exported = [Named ''CLOCK''], reexported = []\<rparr>"

definition LockModule :: module_decl where
  "LockModule = \<lparr>is_global = True, imported = [], controllers = [],
     providers = [own_class ''BalanceLockService''], exported = [Class ''BalanceLockService''], reexported = []\<rparr>"

definition HcmModule :: module_decl where
  "HcmModule = \<lparr>is_global = False,
     imported = [Library Http, Library (Orm_Feature [''Outbox'', ''TimeOffRequest'', ''Balance'']),
       Forward_Ref ''BalanceModule''],
     controllers = [],
     providers = [(Named ''HCM_CLIENT'', Use_Class ''HcmClientService''), own_class ''OutboxDispatcherService''],
     exported = [Named ''HCM_CLIENT'', Class ''OutboxDispatcherService''], reexported = []\<rparr>"

definition BalanceModule :: module_decl where
  "BalanceModule = \<lparr>is_global = False,
     imported = [Library (Orm_Feature [''Balance'', ''TimeOffRequest'', ''ReconciliationEvent'', ''Outbox'']),
       Forward_Ref ''HcmModule''],
     controllers = [''BalanceController''], providers = [own_class ''BalanceService''],
     exported = [Class ''BalanceService''], reexported = []\<rparr>"

definition TimeOffRequestModule :: module_decl where
  "TimeOffRequestModule = \<lparr>is_global = False,
     imported = [Library (Orm_Feature [''TimeOffRequest'', ''Outbox'']), Plain ''BalanceModule'', Plain ''HcmModule''],
     controllers = [''TimeOffRequestController''], providers = [own_class ''TimeOffRequestService''],
     exported = [Class ''TimeOffRequestService''], reexported = []\<rparr>"

definition ReconciliationModule :: module_decl where
  "ReconciliationModule = \<lparr>is_global = False,
     imported = [Library (Orm_Feature [''BatchSyncLog'', ''ReconciliationEvent'']), Plain ''BalanceModule''],
     controllers = [''BatchController''], providers = [own_class ''ReconciliationService''],
     exported = [Class ''ReconciliationService''], reexported = []\<rparr>"

definition ReservationReaperModule :: module_decl where
  "ReservationReaperModule = \<lparr>is_global = False,
     imported = [Library (Orm_Feature [''TimeOffRequest'', ''Outbox'']), Plain ''TimeOffRequestModule''],
     controllers = [], providers = [own_class ''ReservationReaperService''], exported = [], reexported = []\<rparr>"

definition MockHcmModule :: module_decl where
  "MockHcmModule = \<lparr>is_global = False, imported = [], controllers = [''HcmController'', ''ControlController''],
     providers = [], exported = [], reexported = []\<rparr>"

section \<open>The constructors\<close>

definition AppConfigService_new :: "token list" where
  "AppConfigService_new = [Class ''ConfigService'']"

definition BalanceService_new :: "token list" where
  "BalanceService_new =
     [Repository ''Balance'', Repository ''TimeOffRequest'', Repository ''Outbox'', Repository ''ReconciliationEvent'',
      Class ''BalanceLockService'', Named ''CLOCK'', Class ''AppConfigService'', Named ''HCM_CLIENT'']"

definition HcmClientService_new :: "token list" where
  "HcmClientService_new = [Class ''HttpService'', Class ''AppConfigService'']"

definition OutboxDispatcherService_new :: "token list" where
  "OutboxDispatcherService_new =
     [Repository ''Outbox'', Repository ''TimeOffRequest'', Named ''HCM_CLIENT'', Class ''BalanceLockService'',
      Class ''BalanceService'', Class ''AppConfigService'', Named ''CLOCK'', Data_Source]"

definition TimeOffRequestService_new :: "token list" where
  "TimeOffRequestService_new =
     [Repository ''TimeOffRequest'', Repository ''Outbox'', Class ''BalanceService'', Class ''BalanceLockService'',
      Named ''CLOCK'', Named ''HCM_CLIENT'', Class ''AppConfigService'', Data_Source]"

definition ReconciliationService_new :: "token list" where
  "ReconciliationService_new = [Data_Source, Class ''BalanceService'', Class ''BalanceLockService'', Named ''CLOCK'']"

definition ReservationReaperService_new :: "token list" where
  "ReservationReaperService_new =
     [Repository ''TimeOffRequest'', Repository ''Outbox'', Class ''BalanceLockService'', Class ''TimeOffRequestService'',
      Named ''CLOCK'']"

definition BalanceController_new :: "token list" where
  "BalanceController_new = [Class ''BalanceService'']"

definition BatchController_new :: "token list" where
  "BatchController_new = [Class ''ReconciliationService'']"

definition TimeOffRequestController_new :: "token list" where
  "TimeOffRequestController_new = [Class ''TimeOffRequestService'']"

text \<open>The other classes (clock, lock, health route, mock controllers) declare no constructor.\<close>

definition new_of :: "string \<Rightarrow> token list" where
  "new_of c = (case map_of
     [(''AppConfigService'', AppConfigService_new), (''BalanceService'', BalanceService_new),
      (''HcmClientService'', HcmClientService_new), (''OutboxDispatcherService'', OutboxDispatcherService_new),
      (''TimeOffRequestService'', TimeOffRequestService_new), (''ReconciliationService'', ReconciliationService_new),
      (''ReservationReaperService'', ReservationReaperService_new), (''BalanceController'', BalanceController_new),
      (''BatchController'', BatchController_new), (''TimeOffRequestController'', TimeOffRequestController_new)] c of
     Some ts \<Rightarrow> ts | None \<Rightarrow> [])"

section \<open>Applications\<close>

text \<open>The declarations by name, and the modules an application loads from its root.\<close>

definition declared :: "(string \<times> module_decl) list" where
  "declared = [(''AppModule'', AppModule), (''AppConfigModule'', AppConfigModule), (''DatabaseModule'', DatabaseModule),
     (''ClockModule'', ClockModule), (''LockModule'', LockModule), (''HcmModule'', HcmModule),
     (''BalanceModule'', BalanceModule), (''TimeOffRequestModule'', TimeOffRequestModule),
     (''ReconciliationModule'', ReconciliationModule), (''ReservationReaperModule'', ReservationReaperModule),
     (''MockHcmModule'', MockHcmModule)]"

type_synonym application = "(string \<times> module_decl) list"

fun names_of :: "import_entry list \<Rightarrow> string list" where
  "names_of [] = []"
| "names_of (Plain n # is) = n # names_of is"
| "names_of (Forward_Ref n # is) = n # names_of is"
| "names_of (Library l # is) = names_of is"

fun plain_names :: "import_entry list \<Rightarrow> string list" where
  "plain_names [] = []"
| "plain_names (Plain n # is) = n # plain_names is"
| "plain_names (_ # is) = plain_names is"

fun libraries_of :: "import_entry list \<Rightarrow> library list" where
  "libraries_of [] = []"
| "libraries_of (Library l # is) = l # libraries_of is"
| "libraries_of (_ # is) = libraries_of is"

lemma filter_shrinks: "map_of xs n = Some d \<Longrightarrow> length (filter (\<lambda>x. fst x \<noteq> n) xs) < length xs"
  by (rule length_filter_less[where x = "(n, d)"]) (auto dest: map_of_SomeD)

text \<open>Depth first from the roots; \<open>todo\<close> are names, each declaration is loaded once.\<close>

function load :: "application \<Rightarrow> string list \<Rightarrow> application" where
  "load decls [] = []"
| "load decls (n # todo) =
     (case map_of decls n of
        None \<Rightarrow> load decls todo
      | Some d \<Rightarrow> (n, d) # load (filter (\<lambda>x. fst x \<noteq> n) decls) (names_of (imported d) @ todo))"
  by pat_completeness auto

termination
  by (relation "measures [\<lambda>(ds, todo). length ds, \<lambda>(ds, todo). length todo]") (auto intro: filter_shrinks)

definition app :: application where
  "app = load declared [''AppModule'']"

definition mock_app :: application where
  "mock_app = load declared [''MockHcmModule'']"

text \<open>
  The test harness: its own root, and then the builder's provider overrides, which put a value in the
  place of every provider of a token, the caller's last.
\<close>

definition RootTestModule :: module_decl where
  "RootTestModule = \<lparr>is_global = False,
     imported = [Library Orm_Root,
       Library (Orm_Feature [''Balance'', ''TimeOffRequest'', ''Outbox'', ''BatchSyncLog'', ''ReconciliationEvent'']),
       Plain ''AppConfigModule'', Plain ''ClockModule'', Plain ''LockModule'', Plain ''BalanceModule'', Plain ''HcmModule'',
       Plain ''TimeOffRequestModule'', Plain ''ReconciliationModule'', Plain ''ReservationReaperModule''],
     controllers = [], providers = [], exported = [], reexported = []\<rparr>"

definition override_in :: "token \<times> string \<Rightarrow> module_decl \<Rightarrow> module_decl" where
  "override_in p d =
     d\<lparr>providers := map (\<lambda>(t, r). (t, if t = fst p then Use_Value (snd p) else r)) (providers d)\<rparr>"

definition overrideProvider :: "token \<times> string \<Rightarrow> application \<Rightarrow> application" where
  "overrideProvider p = map (\<lambda>(n, d). (n, override_in p d))"

definition createTestModule :: "(token \<times> string) list \<Rightarrow> application" where
  "createTestModule overrides =
     fold overrideProvider overrides
       (overrideProvider (Named ''HCM_CLIENT'', ''FakeHcmClient'')
         (overrideProvider (Named ''CLOCK'', ''FakeClock'')
           (load ((''RootTestModule'', RootTestModule) # declared) [''RootTestModule''])))"

text \<open>Every class the application builds, with its module and one of the tokens it asks for.\<close>

definition classes_of :: "module_decl \<Rightarrow> string list" where
  "classes_of d = concat (map (\<lambda>(t, r). case r of Use_Class c \<Rightarrow> [c] | Use_Value _ \<Rightarrow> []) (providers d)) @ controllers d"

definition injections :: "application \<Rightarrow> (string \<times> string \<times> token) list" where
  "injections a = concat (map (\<lambda>(m, d). concat (map (\<lambda>c. map (\<lambda>t. (m, c, t)) (new_of c)) (classes_of d))) a)"

definition provided :: "module_decl \<Rightarrow> token list" where
  "provided d = map fst (providers d)"

text \<open>A provider waits for the providers its class asks for.\<close>

definition waits :: "application \<Rightarrow> (token \<times> token) list" where
  "waits a = concat (map (\<lambda>(m, d). concat (map (\<lambda>(t, r). case r of
     Use_Class c \<Rightarrow> map (\<lambda>u. (t, u)) (new_of c) | Use_Value _ \<Rightarrow> []) (providers d))) a)"

definition plain_imports :: "application \<Rightarrow> (string \<times> string) list" where
  "plain_imports a = concat (map (\<lambda>(m, d). map (\<lambda>n. (m, n)) (plain_names (imported d))) a)"

text \<open>The methods a scheduler calls, by class, and the jobs an application starts: none without the scheduler.\<close>

datatype schedule = Interval int | Cron string

definition dispatch_schedule :: "string \<times> schedule" where
  "dispatch_schedule = (''dispatchPending'', Interval 5000)"

definition sweep_schedule :: "string \<times> schedule" where
  "sweep_schedule = (''sweep'', Cron ''EVERY_5_MINUTES'')"

definition scheduled :: "string \<Rightarrow> (string \<times> schedule) list" where
  "scheduled c =
     (if c = ''OutboxDispatcherService'' then [dispatch_schedule]
      else if c = ''ReservationReaperService'' then [sweep_schedule] else [])"

definition jobs :: "application \<Rightarrow> (string \<times> schedule) list" where
  "jobs a = (if \<exists>(n, d) \<in> set a. Schedule \<in> set (libraries_of (imported d))
     then concat (map (\<lambda>(n, d). concat (map scheduled (classes_of d))) a) else [])"

section \<open>Bootstrap\<close>

text \<open>
  What the two entry points set up before they listen: the root module, the log levels (\<open>None\<close> is the
  framework's default), the headers switched off and the options of the global validation pipe.
\<close>

record pipe_options =
  whitelist :: bool
  transform :: bool
  forbidNonWhitelisted :: bool

record server_setup =
  root :: application
  log_levels :: "string list option"
  disabled :: "string list"
  global_pipe :: pipe_options

definition bootstrap :: "environment \<Rightarrow> server_setup \<times> setting" where
  "bootstrap vars =
     (\<lparr>root = app, log_levels = None, disabled = [''x-powered-by''],
       global_pipe = \<lparr>whitelist = True, transform = True, forbidNonWhitelisted = False\<rparr>\<rparr>,
      listen_port vars)"

datatype message = Server_running js_number | Active_scenario string

definition mock_bootstrap :: "environment \<Rightarrow> server_setup \<times> js_number \<times> message list" where
  "mock_bootstrap vars =
     (let testing = vars ''NODE_ENV'' = Some ''test''; port = mock_listen_port vars
      in (\<lparr>root = mock_app, log_levels = Some (if testing then [] else [''log'', ''error'', ''warn'']),
           disabled = [''x-powered-by''],
           global_pipe = \<lparr>whitelist = True, transform = True, forbidNonWhitelisted = False\<rparr>\<rparr>,
          port,
          if testing then []
          else [Server_running port,
                Active_scenario (case vars ''HCM_SCENARIO'' of Some s \<Rightarrow> s | None \<Rightarrow> ''correct'')]))"

text \<open>The fields a body may carry into the submit route; the day count is none of them.\<close>

definition SubmitRequestDto_fields :: "string list" where
  "SubmitRequestDto_fields = [''employeeId'', ''locationId'', ''startDate'', ''endDate'']"

text \<open>\<open>pipe\<close> is the framework's validation pipe: with \<open>whitelist\<close> it drops the fields a body's class does not declare.\<close>

lemma client_days_are_stripped:
  fixes pipe :: "pipe_options \<Rightarrow> string list \<Rightarrow> (string \<Rightarrow> 'v option) \<Rightarrow> (string \<Rightarrow> 'v option) option"
  assumes "\<And>os fields body clean. pipe os fields body = Some clean \<Longrightarrow> whitelist os \<Longrightarrow> clean = body |` set fields"
    and "pipe (global_pipe (fst (bootstrap vars))) SubmitRequestDto_fields body = Some clean"
  shows "clean ''days'' = None"
  using assms(1)[OF assms(2)] by (simp add: bootstrap_def SubmitRequestDto_fields_def restrict_map_def)

section \<open>What the container promises\<close>

text \<open>What the documentation of the libraries says their modules export, and which are global.\<close>

fun documented :: "library \<Rightarrow> token list" where
  "documented (Nest_Config _) = [Class ''ConfigService'']"
| "documented Http = [Class ''HttpService'']"
| "documented Schedule = []"
| "documented Orm_Root = [Data_Source]"
| "documented (Orm_Feature es) = map Repository es"

fun everywhere :: "library \<Rightarrow> bool" where
  "everywhere (Nest_Config g) = g"
| "everywhere Orm_Root = True"
| "everywhere _ = False"

datatype origin = From string | From_Library

text \<open>
  \<open>resolve m t\<close>: whose provider of \<open>t\<close> the classes of module \<open>m\<close> are given. A module sees its own
  providers, what the modules it imports export, and what the global modules export.
\<close>

locale container =
  fixes a :: application and lib :: "library \<Rightarrow> token set" and resolve :: "string \<Rightarrow> token \<Rightarrow> origin option"
  assumes given_by: "resolve m t = Some (From n) \<Longrightarrow> \<exists>d. (n, d) \<in> set a \<and> t \<in> set (provided d)"
    and given_by_library: "resolve m t = Some From_Library \<Longrightarrow> \<exists>l. t \<in> lib l"
    and own: "(m, d) \<in> set a \<Longrightarrow> t \<in> set (provided d) \<Longrightarrow> resolve m t \<noteq> None"
    and from_import: "(m, d) \<in> set a \<Longrightarrow> (n, e) \<in> set a \<Longrightarrow> n \<in> set (names_of (imported d)) \<Longrightarrow>
      t \<in> set (exported e) \<Longrightarrow> resolve m t \<noteq> None"
    and from_global: "(m, d) \<in> set a \<Longrightarrow> (n, e) \<in> set a \<Longrightarrow> is_global e \<Longrightarrow> t \<in> set (exported e) \<Longrightarrow> resolve m t \<noteq> None"
    and from_library: "(m, d) \<in> set a \<Longrightarrow> l \<in> set (libraries_of (imported d)) \<Longrightarrow> t \<in> lib l \<Longrightarrow> resolve m t \<noteq> None"
    and from_reexport: "(m, d) \<in> set a \<Longrightarrow> (n, e) \<in> set a \<Longrightarrow> n \<in> set (names_of (imported d)) \<Longrightarrow> l \<in> set (reexported e) \<Longrightarrow>
      t \<in> lib l \<Longrightarrow> resolve m t \<noteq> None"
    and from_global_library: "(m, d) \<in> set a \<Longrightarrow> (n, e) \<in> set a \<Longrightarrow> l \<in> set (libraries_of (imported e)) \<Longrightarrow> everywhere l \<Longrightarrow>
      t \<in> lib l \<Longrightarrow> resolve m t \<noteq> None"
    and libraries: "t \<in> set (documented l) \<Longrightarrow> t \<in> lib l"
    and foreign: "t \<in> lib l \<Longrightarrow> (n, d) \<in> set a \<Longrightarrow> t \<notin> set (provided d)"

text \<open>The tokens a module is promised, computed: from modules, and from libraries.\<close>

definition sees :: "module_decl \<Rightarrow> string \<times> module_decl \<Rightarrow> bool" where
  "sees d x \<longleftrightarrow> fst x \<in> set (names_of (imported d)) \<or> is_global (snd x)"

definition from_modules :: "application \<Rightarrow> module_decl \<Rightarrow> token list" where
  "from_modules a d = concat (map (\<lambda>x. exported (snd x)) (filter (sees d) a))"

definition from_libraries :: "application \<Rightarrow> module_decl \<Rightarrow> token list" where
  "from_libraries a d = concat (map documented
     (libraries_of (imported d)
      @ concat (map (\<lambda>x. reexported (snd x)) (filter (\<lambda>x. fst x \<in> set (names_of (imported d))) a))
      @ concat (map (\<lambda>x. filter everywhere (libraries_of (imported (snd x)))) a)))"

definition promised :: "application \<Rightarrow> module_decl \<Rightarrow> token list" where
  "promised a d = provided d @ from_modules a d @ from_libraries a d"

context container
begin

lemma promised_resolves:
  assumes "(m, d) \<in> set a" "t \<in> set (promised a d)"
  shows "resolve m t \<noteq> None"
proof
  assume none: "resolve m t = None"
  have "t \<notin> set (provided d)" using own[OF assms(1)] none by blast
  moreover have "t \<notin> set (from_modules a d)"
  proof
    assume "t \<in> set (from_modules a d)"
    then obtain n e where "(n, e) \<in> set a" "t \<in> set (exported e)" "n \<in> set (names_of (imported d)) \<or> is_global e"
      by (auto simp: from_modules_def sees_def)
    then show False using from_import[OF assms(1)] from_global[OF assms(1)] none by blast
  qed
  moreover have "t \<notin> set (from_libraries a d)"
    using from_library[OF assms(1)] from_reexport[OF assms(1)] from_global_library[OF assms(1)] libraries none
    unfolding from_libraries_def by fastforce
  ultimately show False using assms(2) by (simp add: promised_def)
qed

lemma one_provider:
  assumes "resolve m t \<noteq> None" "(n, d) \<in> set a" "t \<in> set (provided d)"
    and "\<And>k e. (k, e) \<in> set a \<Longrightarrow> t \<in> set (provided e) \<Longrightarrow> k = n"
  shows "resolve m t = Some (From n)"
proof -
  obtain x where x: "resolve m t = Some x" using assms(1) by blast
  then show ?thesis using assms(2-) given_by[of m t] given_by_library[of m t] foreign
    by (cases x) blast+
qed

end

text \<open>A container that keeps these promises and gives nothing more.\<close>

definition seek :: "application \<Rightarrow> string \<Rightarrow> token \<Rightarrow> origin option" where
  "seek a m t = (case map_of a m of None \<Rightarrow> None | Some d \<Rightarrow>
     if t \<in> set (provided d) then Some (From m)
     else case find (\<lambda>x. sees d x \<and> t \<in> set (exported (snd x))) a of
       Some x \<Rightarrow> Some (From (fst x))
     | None \<Rightarrow> if t \<in> set (from_libraries a d) then Some From_Library else None)"

lemma seek_finds:
  assumes "map_of a m = Some d"
  shows "seek a m t \<noteq> None \<longleftrightarrow> t \<in> set (promised a d)"
proof -
  have "find (\<lambda>x. sees d x \<and> t \<in> set (exported (snd x))) a = None \<longleftrightarrow> t \<notin> set (from_modules a d)"
    by (auto simp: find_None_iff from_modules_def)
  then show ?thesis using assms
    by (cases "find (\<lambda>x. sees d x \<and> t \<in> set (exported (snd x))) a") (auto simp: seek_def promised_def)
qed

lemma seek_gives:
  assumes "seek a m t = Some x" "\<And>n d. (n, d) \<in> set a \<Longrightarrow> set (exported d) \<subseteq> set (provided d)"
  shows "case x of From n \<Rightarrow> \<exists>d. (n, d) \<in> set a \<and> t \<in> set (provided d) | From_Library \<Rightarrow> \<exists>l. t \<in> set (documented l)"
proof -
  obtain d where d: "map_of a m = Some d" using assms(1) by (auto simp: seek_def split: option.splits)
  then have "(m, d) \<in> set a" by (rule map_of_SomeD)
  moreover have "y \<in> set a \<and> t \<in> set (provided (snd y))"
    if "find (\<lambda>x. sees d x \<and> t \<in> set (exported (snd x))) a = Some y" for y
    using that assms(2)[of "fst y" "snd y"] by (auto simp: find_Some_iff)
  ultimately show ?thesis
    using assms(1) d by (auto simp: seek_def from_libraries_def split: option.splits if_splits)
qed

lemma seek_container:
  assumes "distinct (map fst a)" and sub: "\<And>n d. (n, d) \<in> set a \<Longrightarrow> set (exported d) \<subseteq> set (provided d)"
    and "\<And>t l n d. (n, d) \<in> set a \<Longrightarrow> t \<in> set (documented l) \<Longrightarrow> t \<notin> set (provided d)"
  shows "container a (\<lambda>l. set (documented l)) (seek a)"
proof -
  have found: "seek a m t \<noteq> None" if "(m, d) \<in> set a" "t \<in> set (promised a d)" for m d t
    using seek_finds[of a m d t] that assms(1) by simp
  show ?thesis
  proof (rule container.intro)
    show "\<And>m t n. seek a m t = Some (From n) \<Longrightarrow> \<exists>d. (n, d) \<in> set a \<and> t \<in> set (provided d)"
      using seek_gives[OF _ sub] by fastforce
    show "\<And>m t. seek a m t = Some From_Library \<Longrightarrow> \<exists>l. t \<in> set (documented l)"
      using seek_gives[OF _ sub] by fastforce
    show "\<And>t l n d. t \<in> set (documented l) \<Longrightarrow> (n, d) \<in> set a \<Longrightarrow> t \<notin> set (provided d)"
      using assms(3) by blast
  qed (rule found, assumption, force simp: promised_def from_modules_def from_libraries_def sees_def)+
qed

section \<open>The service is wired\<close>

text \<open>Instances are made in the order of these ranks, and plain imports go down the module ranks.\<close>

definition token_rank :: "token \<Rightarrow> nat" where
  "token_rank t = (case map_of
     [(Class ''AppConfigService'', 1), (Named ''HCM_CLIENT'', 2), (Class ''BalanceService'', 3),
      (Class ''OutboxDispatcherService'', 4), (Class ''TimeOffRequestService'', 4), (Class ''ReconciliationService'', 4),
      (Class ''ReservationReaperService'', 5)] t of Some k \<Rightarrow> k | None \<Rightarrow> 0)"

definition module_rank :: "string \<Rightarrow> nat" where
  "module_rank m = (case map_of
     [(''BalanceModule'', 1), (''HcmModule'', 1), (''TimeOffRequestModule'', 2), (''ReconciliationModule'', 2),
      (''ReservationReaperModule'', 3), (''AppModule'', 4), (''RootTestModule'', 4)] m of Some k \<Rightarrow> k | None \<Rightarrow> 0)"

definition well_wired :: "application \<Rightarrow> bool" where
  "well_wired a \<longleftrightarrow>
     (\<forall>x\<in>set a. \<forall>c\<in>set (classes_of (snd x)). set (new_of c) \<subseteq> set (promised a (snd x)))
     \<and> distinct (map fst a) \<and> distinct (concat (map (\<lambda>x. provided (snd x)) a))
     \<and> (\<forall>(t, u)\<in>set (waits a). token_rank u < token_rank t)
     \<and> (\<forall>(m, n)\<in>set (plain_imports a). module_rank n < module_rank m)"

lemma app_well_wired: "well_wired app"
  by code_simp

lemma test_well_wired: "well_wired (load ((''RootTestModule'', RootTestModule) # declared) [''RootTestModule''])"
  by code_simp

lemma override_keeps [simp]:
  "provided (override_in p d) = provided d" "exported (override_in p d) = exported d"
  "imported (override_in p d) = imported d" "reexported (override_in p d) = reexported d"
  "is_global (override_in p d) = is_global d"
  by (simp_all add: override_in_def provided_def o_def case_prod_beta)

lemma classes_of_iff:
  "c \<in> set (classes_of d) \<longleftrightarrow> (\<exists>t. (t, Use_Class c) \<in> set (providers d)) \<or> c \<in> set (controllers d)"
proof -
  have "(\<exists>x\<in>set ps. c \<in> set (case x of (t, Use_Class c) \<Rightarrow> [c] | (t, Use_Value v) \<Rightarrow> []))
      \<longleftrightarrow> (\<exists>t. (t, Use_Class c) \<in> set ps)" for ps
    by (induction ps) (auto split: recipe.splits)
  then show ?thesis by (auto simp: classes_of_def)
qed

lemma waits_iff:
  "(t, u) \<in> set (waits a) \<longleftrightarrow> (\<exists>m d c. (m, d) \<in> set a \<and> (t, Use_Class c) \<in> set (providers d) \<and> u \<in> set (new_of c))"
proof -
  have "(\<exists>x\<in>set ps. (t, u) \<in> set (case x of (t, Use_Class c) \<Rightarrow> map (Pair t) (new_of c) | (t, Use_Value v) \<Rightarrow> []))
      \<longleftrightarrow> (\<exists>c. (t, Use_Class c) \<in> set ps \<and> u \<in> set (new_of c))" for ps
    by (induction ps) (auto split: recipe.splits)
  then show ?thesis by (fastforce simp: waits_def)
qed

lemma override_providers: "(t, Use_Class c) \<in> set (providers (override_in p d)) \<Longrightarrow> (t, Use_Class c) \<in> set (providers d)"
  by (auto simp: override_in_def split: if_splits)

lemma override_classes: "c \<in> set (classes_of (override_in p d)) \<Longrightarrow> c \<in> set (classes_of d)"
  using override_providers by (fastforce simp: classes_of_iff override_in_def)

lemma in_override: "(m, e) \<in> set (overrideProvider p a) \<longleftrightarrow> (\<exists>d. (m, d) \<in> set a \<and> e = override_in p d)"
  by (auto simp: overrideProvider_def)

lemma override_waits: "x \<in> set (waits (overrideProvider p a)) \<Longrightarrow> x \<in> set (waits a)"
  by (cases x) (auto simp: waits_iff in_override dest: override_providers)

lemma override_promised: "promised (overrideProvider p a) (override_in p d) = promised a d"
proof -
  have f: "filter P (overrideProvider p a) = overrideProvider p (filter P a)"
    if "\<And>x. P (fst x, override_in p (snd x)) = P x" for P
    using that by (induction a) (auto simp: overrideProvider_def)
  have "sees (override_in p d) (fst x, override_in p (snd x)) = sees d x" for x
    by (simp add: sees_def)
  moreover have "sees (override_in p d) = sees d" by (rule ext) (simp add: sees_def)
  ultimately show ?thesis
    by (simp add: promised_def from_modules_def from_libraries_def f)
      (simp add: overrideProvider_def o_def case_prod_beta)
qed

lemma override_plain_imports [simp]: "plain_imports (overrideProvider p a) = plain_imports a"
  by (simp add: plain_imports_def overrideProvider_def o_def case_prod_unfold)

lemma override_names: "map fst (overrideProvider p a) = map fst a"
    "map (\<lambda>x. provided (snd x)) (overrideProvider p a) = map (\<lambda>x. provided (snd x)) a"
  by (simp_all add: overrideProvider_def o_def case_prod_beta)

lemma override_well_wired:
  assumes "well_wired a"
  shows "well_wired (overrideProvider p a)"
proof -
  have "set (new_of c) \<subseteq> set (promised (overrideProvider p a) e)"
    if new: "(m, e) \<in> set (overrideProvider p a)" "c \<in> set (classes_of e)" for m e c
  proof -
    obtain d where d: "(m, d) \<in> set a" "e = override_in p d" using new(1) unfolding in_override by blast
    then have "c \<in> set (classes_of d)" using new(2) override_classes by blast
    then have "set (new_of c) \<subseteq> set (promised a d)" using d(1) assms unfolding well_wired_def by fastforce
    then show ?thesis using d(2) by (simp add: override_promised)
  qed
  moreover have "token_rank u < token_rank t" if "(t, u) \<in> set (waits (overrideProvider p a))" for t u
    using override_waits[OF that] assms unfolding well_wired_def by blast
  ultimately show ?thesis
    using assms unfolding well_wired_def override_names override_plain_imports by fastforce
qed

lemma test_module_well_wired: "well_wired (createTestModule overrides)"
proof -
  have "well_wired a \<Longrightarrow> well_wired (fold overrideProvider ps a)" for ps a
    by (induction ps arbitrary: a) (simp_all add: override_well_wired)
  then show ?thesis by (simp add: createTestModule_def override_well_wired test_well_wired del: load.simps)
qed

text \<open>The two servers share no module, and only the service schedules anything.\<close>

lemma servers_are_separate: "set (map fst app) \<inter> set (map fst mock_app) = {}" "injections mock_app = []"
  by code_simp+

lemma scheduled_jobs:
  "set (jobs app) = {(''dispatchPending'', Interval 5000), (''sweep'', Cron ''EVERY_5_MINUTES'')}"
  "jobs (createTestModule []) = []"
  by code_simp+

text \<open>The promises can be kept: a container that gives each module what it sees, and no more.\<close>

definition own_token :: "token \<Rightarrow> bool" where
  "own_token t = (case t of Class c \<Rightarrow> c \<notin> {''ConfigService'', ''HttpService''} | Named _ \<Rightarrow> True | _ \<Rightarrow> False)"

lemma documented_foreign: "own_token t \<Longrightarrow> t \<notin> set (documented l)"
  by (cases l) (auto simp: own_token_def)

lemma app_checked:
  "distinct (map fst app)" "\<forall>x\<in>set app. set (exported (snd x)) \<subseteq> set (provided (snd x))"
  "\<forall>x\<in>set app. \<forall>t\<in>set (provided (snd x)). own_token t"
  by code_simp+

interpretation nest: container app "\<lambda>l. set (documented l)" "seek app"
  by (rule seek_container) (use app_checked documented_foreign in \<open>fastforce+\<close>)

lemma injected_tokens: "(m, c, t) \<in> set (injections a) \<longleftrightarrow> (\<exists>d. (m, d) \<in> set a \<and> c \<in> set (classes_of d) \<and> t \<in> set (new_of c))"
  by (auto simp: injections_def) fastforce

lemma provided_once:
  assumes "distinct (concat (map (\<lambda>x. provided (snd x)) a))" "x \<in> set a" "y \<in> set a"
    and "t \<in> set (provided (snd x))" "t \<in> set (provided (snd y))"
  shows "x = y"
  using assms by (induction a) auto

lemma well_wired_acyclic:
  assumes "well_wired a"
  shows "acyclic (set (waits a))" "acyclic (set (plain_imports a))"
  by (rule acyclicI_order[where f = "\<lambda>t. token_rank t"], use assms in \<open>auto simp: well_wired_def\<close>)
    (rule acyclicI_order[where f = module_rank], use assms in \<open>auto simp: well_wired_def\<close>)

text \<open>C24: In the service and in every test application built by createTestModule with any overrides, each
  constructor parameter of each class is injected by any container that keeps the framework's promises; a
  parameter one of the application's modules provides is always that one module's instance, so all actors share
  one lock service, one clock and one HCM client. No provider waits for itself, and the only import cycle of
  modules is closed by forward references.\<close>

theorem every_dependency_is_injected:
  assumes "container a lib resolve" and "a = app \<or> (\<exists>overrides. a = createTestModule overrides)"
  shows "(\<forall>(m, c, t)\<in>set (injections a). resolve m t \<noteq> None \<and>
      (\<forall>(n, d)\<in>set a. t \<in> set (provided d) \<longrightarrow> resolve m t = Some (From n)))
    \<and> acyclic (set (waits a)) \<and> acyclic (set (plain_imports a))"
proof -
  have w: "well_wired a" using assms(2) app_well_wired test_module_well_wired by blast
  have "resolve m t \<noteq> None \<and> (\<forall>(n, d)\<in>set a. t \<in> set (provided d) \<longrightarrow> resolve m t = Some (From n))"
    if inj: "(m, c, t) \<in> set (injections a)" for m c t
  proof -
    obtain d where d: "(m, d) \<in> set a" and c: "c \<in> set (classes_of d)" "t \<in> set (new_of c)"
      using inj unfolding injected_tokens by blast
    have "set (new_of c) \<subseteq> set (promised a d)"
      using w d c(1) unfolding well_wired_def by (metis snd_conv)
    then have "t \<in> set (promised a d)" using c(2) by blast
    note r = container.promised_resolves[OF assms(1) d this]
    have "resolve m t = Some (From n)" if "(n, e) \<in> set a" "t \<in> set (provided e)" for n e
    proof (rule container.one_provider[OF assms(1) r that])
      fix k f assume "(k, f) \<in> set a" "t \<in> set (provided f)"
      then show "k = n" using provided_once[of a "(k, f)" "(n, e)" t] that w unfolding well_wired_def by simp
    qed
    with r show ?thesis by blast
  qed
  then show ?thesis using well_wired_acyclic[OF w] by blast
qed

lemma every_dependency_is_injected_witness:
  "seek app ''BalanceModule'' (Class ''BalanceLockService'') = Some (From ''LockModule'')
   \<and> seek app ''HcmModule'' (Class ''BalanceLockService'') = Some (From ''LockModule'')
   \<and> seek app ''BalanceModule'' (Named ''HCM_CLIENT'') = Some (From ''HcmModule'')"
proof -
  have "(''BalanceModule'', ''BalanceService'', Class ''BalanceLockService'') \<in> set (injections app)
      \<and> (''HcmModule'', ''OutboxDispatcherService'', Class ''BalanceLockService'') \<in> set (injections app)
      \<and> (''BalanceModule'', ''BalanceService'', Named ''HCM_CLIENT'') \<in> set (injections app)
      \<and> (''LockModule'', LockModule) \<in> set app \<and> (''HcmModule'', HcmModule) \<in> set app
      \<and> Class ''BalanceLockService'' \<in> set (provided LockModule) \<and> Named ''HCM_CLIENT'' \<in> set (provided HcmModule)"
    by code_simp
  moreover note all = every_dependency_is_injected[OF nest.container_axioms disjI1[OF refl], THEN conjunct1, THEN bspec]
  ultimately show ?thesis
    using all[of "(''BalanceModule'', ''BalanceService'', Class ''BalanceLockService'')"]
      all[of "(''HcmModule'', ''OutboxDispatcherService'', Class ''BalanceLockService'')"]
      all[of "(''BalanceModule'', ''BalanceService'', Named ''HCM_CLIENT'')"]
    by blast
qed

end
