(* ===== verification/Balance_Lock.thy ===== *)
theory Balance_Lock
  imports Balance_Service
begin

text \<open>
  \<open>src/src/common/lock/balance-lock.service.ts\<close>: the per-key lock as a chain of promises. A call
  of \<open>runExclusive\<close> is a ticket: it records the tail of its key's chain, becomes the tail, waits for
  the recorded one, runs, and resolves its own promise. \<open>installLatch\<close> is the test seam. One step
  is what the JavaScript event loop runs without interruption.

  \<open>ticket_lock\<close> states what users of a lock rely on; the chain is shown to provide it. Its
  consequence \<open>nested_waits\<close> is the reason why \<open>runExclusive\<close> of \<open>Svc_Monad\<close> never returns on a
  key that its own call chain holds.
\<close>

section \<open>State\<close>

datatype phase = Waiting | At_gate nat | Critical | Done

record ticket =
  t_key :: string
  t_prev :: "nat option"
  t_phase :: phase

text \<open>Tickets and latch gates are numbered in order of creation; \<open>gates\<close> tells which are open.\<close>

record lock_state =
  tickets :: "ticket list"
  chains :: "string \<Rightarrow> nat option"
  latches :: "string \<Rightarrow> nat option"
  reached :: "bool list"
  gates :: "bool list"

definition no_lock :: lock_state where
  "no_lock = \<lparr>tickets = [], chains = (\<lambda>_. None), latches = (\<lambda>_. None), reached = [], gates = []\<rparr>"

definition set_phase :: "nat \<Rightarrow> phase \<Rightarrow> lock_state \<Rightarrow> lock_state" where
  "set_phase i p s = s\<lparr>tickets := (tickets s)[i := (tickets s ! i)\<lparr>t_phase := p\<rparr>]\<rparr>"

definition is_done :: "lock_state \<Rightarrow> nat \<Rightarrow> bool" where
  "is_done s i = (t_phase (tickets s ! i) = Done)"

section \<open>Operations\<close>

text \<open>The synchronous start of \<open>runExclusive\<close>: up to \<open>await prev\<close>.\<close>

definition enqueue :: "string \<Rightarrow> lock_state \<Rightarrow> lock_state" where
  "enqueue k s =
     s\<lparr>tickets := tickets s @ [\<lparr>t_key = k, t_prev = chains s k, t_phase = Waiting\<rparr>],
       chains := (chains s)(k := Some (length (tickets s)))\<rparr>"

text \<open>\<open>await prev\<close> resumes: the critical section is entered, or the latch stops the call at its gate.\<close>

definition can_enter :: "nat \<Rightarrow> lock_state \<Rightarrow> bool" where
  "can_enter i s =
     (i < length (tickets s) \<and> t_phase (tickets s ! i) = Waiting
      \<and> (case t_prev (tickets s ! i) of None \<Rightarrow> True | Some p \<Rightarrow> is_done s p))"

definition enter :: "nat \<Rightarrow> lock_state \<Rightarrow> lock_state" where
  "enter i s =
     (let k = t_key (tickets s ! i)
      in case latches s k of
           None \<Rightarrow> set_phase i Critical s
         | Some g \<Rightarrow>
             set_phase i (At_gate g) (s\<lparr>latches := (latches s)(k := None), reached := (reached s)[g := True]\<rparr>))"

definition can_pass :: "nat \<Rightarrow> lock_state \<Rightarrow> bool" where
  "can_pass i s =
     (i < length (tickets s)
      \<and> (case t_phase (tickets s ! i) of At_gate g \<Rightarrow> g < length (gates s) \<and> gates s ! g | _ \<Rightarrow> False))"

definition pass :: "nat \<Rightarrow> lock_state \<Rightarrow> lock_state" where
  "pass i s = set_phase i Critical s"

text \<open>The \<open>finally\<close> block, after the function has returned or thrown.\<close>

definition can_leave :: "nat \<Rightarrow> lock_state \<Rightarrow> bool" where
  "can_leave i s = (i < length (tickets s) \<and> t_phase (tickets s ! i) = Critical)"

definition leave :: "nat \<Rightarrow> lock_state \<Rightarrow> lock_state" where
  "leave i s =
     (let k = t_key (tickets s ! i);
          s' = (if chains s k = Some i then s\<lparr>chains := (chains s)(k := None)\<rparr> else s)
      in set_phase i Done s')"

definition installLatch :: "string \<Rightarrow> lock_state \<Rightarrow> lock_state" where
  "installLatch k s = s\<lparr>latches := (latches s)(k := Some (length (gates s))),
                        reached := reached s @ [False], gates := gates s @ [False]\<rparr>"

definition release_latch :: "nat \<Rightarrow> lock_state \<Rightarrow> lock_state" where
  "release_latch g s = s\<lparr>gates := (gates s)[g := True]\<rparr>"

inductive lock_step :: "lock_state \<Rightarrow> lock_state \<Rightarrow> bool" where
  call: "lock_step s (enqueue k s)"
| entry: "can_enter i s \<Longrightarrow> lock_step s (enter i s)"
| gate: "can_pass i s \<Longrightarrow> lock_step s (pass i s)"
| exit: "can_leave i s \<Longrightarrow> lock_step s (leave i s)"
| latch: "lock_step s (installLatch k s)"
| unlatch: "g < length (gates s) \<Longrightarrow> lock_step s (release_latch g s)"

inductive lock_reachable :: "lock_state \<Rightarrow> bool" where
  init: "lock_reachable no_lock"
| step: "lock_reachable s \<Longrightarrow> lock_step s s' \<Longrightarrow> lock_reachable s'"

inductive_cases lock_stepE: "lock_step s s'"

section \<open>Invariant\<close>

text \<open>No ticket of key \<open>k\<close> strictly between \<open>i\<close> and \<open>j\<close>.\<close>

definition adjacent :: "lock_state \<Rightarrow> string \<Rightarrow> nat \<Rightarrow> nat \<Rightarrow> bool" where
  "adjacent s k i j = (\<forall>m. i < m \<longrightarrow> m < j \<longrightarrow> t_key (tickets s ! m) \<noteq> k)"

definition tail_ok :: "lock_state \<Rightarrow> string \<Rightarrow> bool" where
  "tail_ok s k =
     ((chains s k = None \<longrightarrow> (\<forall>i < length (tickets s). t_key (tickets s ! i) = k \<longrightarrow> is_done s i))
      \<and> (\<forall>j. chains s k = Some j \<longrightarrow> j < length (tickets s) \<and> t_key (tickets s ! j) = k \<and> \<not> is_done s j
            \<and> adjacent s k j (length (tickets s))))"

definition prev_ok :: "lock_state \<Rightarrow> nat \<Rightarrow> bool" where
  "prev_ok s j =
     ((t_prev (tickets s ! j) = None \<longrightarrow>
         (\<forall>i < j. t_key (tickets s ! i) = t_key (tickets s ! j) \<longrightarrow> is_done s i))
      \<and> (\<forall>p. t_prev (tickets s ! j) = Some p \<longrightarrow> p < j \<and> t_key (tickets s ! p) = t_key (tickets s ! j)
            \<and> adjacent s (t_key (tickets s ! j)) p j))"

definition turn_ok :: "lock_state \<Rightarrow> nat \<Rightarrow> bool" where
  "turn_ok s j = (t_phase (tickets s ! j) \<noteq> Waiting \<longrightarrow>
     (\<forall>i < j. t_key (tickets s ! i) = t_key (tickets s ! j) \<longrightarrow> is_done s i))"

definition lock_inv :: "lock_state \<Rightarrow> bool" where
  "lock_inv s = ((\<forall>k. tail_ok s k)
     \<and> (\<forall>j < length (tickets s). prev_ok s j \<and> turn_ok s j))"

lemma lock_invD:
  assumes "lock_inv s"
  shows "tail_ok s k" "j < length (tickets s) \<Longrightarrow> prev_ok s j" "j < length (tickets s) \<Longrightarrow> turn_ok s j"
  using assms by (simp_all add: lock_inv_def)

lemma lock_inv_init: "lock_inv no_lock"
  by (simp add: lock_inv_def no_lock_def tail_ok_def)

subsection \<open>A new ticket\<close>

lemma enqueue_nth:
  "i < length (tickets s) \<Longrightarrow> tickets (enqueue k s) ! i = tickets s ! i"
  "tickets (enqueue k s) ! length (tickets s) = \<lparr>t_key = k, t_prev = chains s k, t_phase = Waiting\<rparr>"
  "length (tickets (enqueue k s)) = Suc (length (tickets s))"
  by (simp_all add: enqueue_def nth_append)

lemma enqueue_done: "i < length (tickets s) \<Longrightarrow> is_done (enqueue k s) i = is_done s i"
  by (simp add: is_done_def enqueue_nth)

lemma enqueue_adjacent:
  "j \<le> length (tickets s) \<Longrightarrow> adjacent (enqueue k s) k' i j = adjacent s k' i j"
  by (simp add: adjacent_def enqueue_nth)

lemma enqueue_tail:
  assumes "tail_ok s k'"
  shows "tail_ok (enqueue k s) k'"
proof (cases "k' = k")
  case True
  then show ?thesis
    by (simp add: tail_ok_def is_done_def adjacent_def enqueue_def)
next
  case False
  then have c: "chains (enqueue k s) k' = chains s k'" by (simp add: enqueue_def)
  show ?thesis
  proof (cases "chains s k'")
    case None
    then show ?thesis
      using assms False by (auto simp: tail_ok_def c enqueue_nth enqueue_done less_Suc_eq)
  next
    case (Some j)
    then have "j < length (tickets s)" "adjacent s k' j (length (tickets s))"
      using assms by (simp_all add: tail_ok_def)
    then have "adjacent (enqueue k s) k' j (Suc (length (tickets s)))"
      using False by (auto simp: adjacent_def enqueue_nth less_Suc_eq)
    then show ?thesis
      using assms Some by (simp add: tail_ok_def c enqueue_nth enqueue_done)
  qed
qed

lemma enqueue_inv:
  assumes "lock_inv s"
  shows "lock_inv (enqueue k s)"
proof -
  let ?n = "length (tickets s)"
  have old: "prev_ok (enqueue k s) j \<and> turn_ok (enqueue k s) j" if "j < ?n" for j
    using lock_invD(2,3)[OF assms that] that
    by (auto simp: prev_ok_def turn_ok_def enqueue_nth enqueue_done enqueue_adjacent)
  have "prev_ok (enqueue k s) ?n"
    using lock_invD(1)[OF assms, of k]
    by (auto simp: prev_ok_def tail_ok_def enqueue_nth enqueue_done enqueue_adjacent)
  moreover have "turn_ok (enqueue k s) ?n"
    by (simp add: turn_ok_def enqueue_nth)
  ultimately show ?thesis
    using old enqueue_tail[OF lock_invD(1)[OF assms]]
    by (auto simp: lock_inv_def enqueue_nth less_Suc_eq)
qed

subsection \<open>A ticket changes its phase\<close>

lemma set_phase_nth:
  "length (tickets (set_phase i p s)) = length (tickets s)"
  "t_key (tickets (set_phase i p s) ! j) = t_key (tickets s ! j)"
  "t_prev (tickets (set_phase i p s) ! j) = t_prev (tickets s ! j)"
  "i < length (tickets s) \<Longrightarrow>
     t_phase (tickets (set_phase i p s) ! j) = (if j = i then p else t_phase (tickets s ! j))"
proof -
  have "(tickets s)[i := (tickets s ! i)\<lparr>t_phase := p\<rparr>] ! j =
      (if j = i \<and> i < length (tickets s) then (tickets s ! i)\<lparr>t_phase := p\<rparr> else tickets s ! j)"
    by (auto simp: nth_list_update list_update_beyond)
  note upd = this
  show "length (tickets (set_phase i p s)) = length (tickets s)"
    by (simp add: set_phase_def)
  show "t_key (tickets (set_phase i p s) ! j) = t_key (tickets s ! j)"
    "t_prev (tickets (set_phase i p s) ! j) = t_prev (tickets s ! j)"
    by (simp_all add: set_phase_def upd)
  show "i < length (tickets s) \<Longrightarrow>
     t_phase (tickets (set_phase i p s) ! j) = (if j = i then p else t_phase (tickets s ! j))"
    by (simp add: set_phase_def upd)
qed

lemma set_phase_chains [simp]: "chains (set_phase i p s) = chains s"
  by (simp add: set_phase_def)

text \<open>Entering and passing the gate: nobody becomes finished.\<close>

lemma phase_inv:
  assumes inv: "lock_inv s" and i: "i < length (tickets s)" "\<not> is_done s i" "p \<noteq> Done"
    and turn: "\<forall>m < i. t_key (tickets s ! m) = t_key (tickets s ! i) \<longrightarrow> is_done s m"
  shows "lock_inv (set_phase i p s)"
proof -
  have d: "is_done (set_phase i p s) j = is_done s j" for j
    using i by (auto simp: is_done_def set_phase_nth)
  have adj: "adjacent (set_phase i p s) = adjacent s"
    by (simp add: fun_eq_iff adjacent_def set_phase_nth)
  have "turn_ok (set_phase i p s) j" if "j < length (tickets s)" for j
    using lock_invD(3)[OF inv that] turn i by (simp add: turn_ok_def d set_phase_nth)
  then show ?thesis
    using lock_invD(1,2)[OF inv]
    by (simp add: lock_inv_def tail_ok_def prev_ok_def d adj set_phase_nth)
qed

lemma leave_done:
  assumes "i < length (tickets s)"
  shows "is_done (leave i s) j \<longleftrightarrow> j = i \<or> is_done s j"
proof -
  let ?s = "if chains s (t_key (tickets s ! i)) = Some i
            then s\<lparr>chains := (chains s)(t_key (tickets s ! i) := None)\<rparr> else s"
  have "tickets ?s = tickets s" by simp
  then show ?thesis
    unfolding leave_def Let_def is_done_def
    using set_phase_nth(4)[of i ?s Done j] assms by simp
qed

lemma leave_frame:
  "length (tickets (leave i s)) = length (tickets s)"
  "t_key (tickets (leave i s) ! j) = t_key (tickets s ! j)"
  "t_prev (tickets (leave i s) ! j) = t_prev (tickets s ! j)"
  "adjacent (leave i s) = adjacent s"
  "chains (leave i s) k = (if k = t_key (tickets s ! i) \<and> chains s k = Some i then None else chains s k)"
  by (auto simp: leave_def Let_def set_phase_nth adjacent_def fun_eq_iff)

lemma leave_inv:
  assumes inv: "lock_inv s" and i: "can_leave i s"
  shows "lock_inv (leave i s)"
proof -
  have len: "i < length (tickets s)" and cr: "t_phase (tickets s ! i) = Critical"
    using i by (simp_all add: can_leave_def)
  note d = leave_done[OF len]
  have before: "\<forall>m < i. t_key (tickets s ! m) = t_key (tickets s ! i) \<longrightarrow> is_done s m"
    using lock_invD(3)[OF inv len] cr by (simp add: turn_ok_def)
  have tail: "tail_ok (leave i s) k" for k
  proof (cases "k = t_key (tickets s ! i) \<and> chains s k = Some i")
    case True
    then have "adjacent s k i (length (tickets s))"
      using lock_invD(1)[OF inv, of k] unfolding tail_ok_def by blast
    then have "m = i \<or> is_done s m" if "m < length (tickets s)" "t_key (tickets s ! m) = k" for m
      using that before True by (metis adjacent_def linorder_neqE_nat)
    then show ?thesis using True by (auto simp: tail_ok_def leave_frame d)
  next
    case False
    have "chains s k \<noteq> Some i"
      using False lock_invD(1)[OF inv, of k] by (auto simp: tail_ok_def)
    then show ?thesis
      using lock_invD(1)[OF inv, of k] False
      by (auto simp: tail_ok_def leave_frame d)
  qed
  have "prev_ok (leave i s) j" if "j < length (tickets s)" for j
    using lock_invD(2)[OF inv that] by (auto simp: prev_ok_def leave_frame d)
  moreover have "turn_ok (leave i s) j" if j: "j < length (tickets s)" for j
  proof (cases "j = i")
    case True
    then show ?thesis using before by (simp add: turn_ok_def leave_frame d)
  next
    case False
    then have "t_phase (tickets (leave i s) ! j) = t_phase (tickets s ! j)"
      using len by (simp add: leave_def Let_def set_phase_nth)
    then show ?thesis
      using lock_invD(3)[OF inv j] by (simp add: turn_ok_def leave_frame d)
  qed
  ultimately show ?thesis
    using tail by (simp add: lock_inv_def leave_frame)
qed

subsection \<open>All steps\<close>

lemma turn_of_entry:
  assumes inv: "lock_inv s" and i: "can_enter i s"
  shows "\<forall>m < i. t_key (tickets s ! m) = t_key (tickets s ! i) \<longrightarrow> is_done s m"
proof (cases "t_prev (tickets s ! i)")
  case None
  then show ?thesis
    using lock_invD(2)[OF inv, of i] i by (simp add: can_enter_def prev_ok_def)
next
  case (Some p)
  have len: "i < length (tickets s)" and pd: "is_done s p"
    using i Some by (simp_all add: can_enter_def)
  have p: "p < i" "t_key (tickets s ! p) = t_key (tickets s ! i)"
    "adjacent s (t_key (tickets s ! i)) p i"
    using lock_invD(2)[OF inv len] Some by (simp_all add: prev_ok_def)
  have "turn_ok s p" using lock_invD(3)[OF inv] p(1) len by simp
  then have "\<forall>m < p. t_key (tickets s ! m) = t_key (tickets s ! i) \<longrightarrow> is_done s m"
    using pd p(2) by (simp add: turn_ok_def is_done_def)
  then show ?thesis
    using pd p(3) unfolding adjacent_def by (metis linorder_neqE_nat)
qed

lemma lock_inv_frame:
  assumes "tickets s' = tickets s" "chains s' = chains s"
  shows "lock_inv s' = lock_inv s"
proof -
  have "is_done s' = is_done s" "adjacent s' = adjacent s"
    by (simp_all add: fun_eq_iff is_done_def adjacent_def assms)
  then show ?thesis
    by (simp add: lock_inv_def tail_ok_def prev_ok_def turn_ok_def assms)
qed

lemma lock_inv_step:
  assumes inv: "lock_inv s" and st: "lock_step s s'"
  shows "lock_inv s'"
  using st
proof (cases rule: lock_step.cases)
  case (call k)
  then show ?thesis using enqueue_inv[OF inv] by simp
next
  case (entry i)
  note turn = turn_of_entry[OF inv entry(2)]
  have i: "i < length (tickets s)" "\<not> is_done s i"
    using entry(2) by (simp_all add: can_enter_def is_done_def)
  show ?thesis
  proof (cases "latches s (t_key (tickets s ! i))")
    case None
    then show ?thesis
      using phase_inv[OF inv i _ turn, of Critical] entry(1) by (simp add: enter_def)
  next
    case (Some g)
    let ?s = "s\<lparr>latches := (latches s)(t_key (tickets s ! i) := None), reached := (reached s)[g := True]\<rparr>"
    have "lock_inv ?s" using inv lock_inv_frame[of ?s s] by simp
    then have "lock_inv (set_phase i (At_gate g) ?s)"
      by (rule phase_inv) (use i turn in \<open>simp_all add: is_done_def\<close>)
    then show ?thesis using Some entry(1) by (simp add: enter_def Let_def)
  qed
next
  case (gate i)
  have i: "i < length (tickets s)" "\<not> is_done s i" "t_phase (tickets s ! i) \<noteq> Waiting"
    using gate(2) by (auto simp: can_pass_def is_done_def split: phase.splits)
  then show ?thesis
    using phase_inv[OF inv i(1,2), of Critical] lock_invD(3)[OF inv i(1)] gate(1)
    by (simp add: pass_def turn_ok_def)
next
  case (exit i)
  then show ?thesis using leave_inv[OF inv] by simp
next
  case (latch k)
  then show ?thesis using inv lock_inv_frame[of s' s] by (simp add: installLatch_def)
next
  case (unlatch g)
  then show ?thesis using inv lock_inv_frame[of s' s] by (simp add: release_latch_def)
qed

lemma lock_reachable_inv: "lock_reachable s \<Longrightarrow> lock_inv s"
  by (induction rule: lock_reachable.induct) (auto intro: lock_inv_init lock_inv_step)

section \<open>What users of the lock rely on\<close>

locale ticket_lock =
  fixes reach :: "'s \<Rightarrow> bool"
    and key :: "'s \<Rightarrow> nat \<Rightarrow> string option"
    and inside :: "'s \<Rightarrow> nat \<Rightarrow> bool"
    and finished :: "'s \<Rightarrow> nat \<Rightarrow> bool"
  assumes fifo: "reach s \<Longrightarrow> i < j \<Longrightarrow> key s i = key s j \<Longrightarrow> key s j \<noteq> None \<Longrightarrow>
                 inside s j \<or> finished s j \<Longrightarrow> finished s i"
    and exclusive: "reach s \<Longrightarrow> inside s i \<Longrightarrow> key s i \<noteq> None \<and> \<not> finished s i"
begin

lemma mutual_exclusion:
  assumes "reach s" "inside s i" "inside s j" "key s i = key s j"
  shows "i = j"
proof (rule ccontr)
  assume "i \<noteq> j"
  then consider "i < j" | "j < i" by linarith
  then show False
  proof cases
    case 1
    then show ?thesis using fifo[OF assms(1) 1 assms(4)] exclusive[OF assms(1)] assms(2,3) by blast
  next
    case 2
    then show ?thesis
      using fifo[OF assms(1) 2 assms(4)[symmetric]] exclusive[OF assms(1)] assms by metis
  qed
qed

text \<open>A later ticket of the same key waits as long as an earlier one has not finished.\<close>

lemma nested_waits:
  assumes "reach s" "i < j" "key s i = key s j" "key s j \<noteq> None" "\<not> finished s i"
  shows "\<not> inside s j \<and> \<not> finished s j"
  using fifo[OF assms(1-4)] assms(5) by blast

end

definition key_of_ticket :: "lock_state \<Rightarrow> nat \<Rightarrow> string option" where
  "key_of_ticket s i = (if i < length (tickets s) then Some (t_key (tickets s ! i)) else None)"

text \<open>The lock is held from the entry on, at a test gate too.\<close>

definition holds :: "lock_state \<Rightarrow> nat \<Rightarrow> bool" where
  "holds s i = (i < length (tickets s) \<and> t_phase (tickets s ! i) \<noteq> Waiting
                \<and> t_phase (tickets s ! i) \<noteq> Done)"

definition over :: "lock_state \<Rightarrow> nat \<Rightarrow> bool" where
  "over s i = (i < length (tickets s) \<and> is_done s i)"

interpretation chain: ticket_lock lock_reachable key_of_ticket holds over
proof
  fix s i j
  assume s: "lock_reachable s" and ij: "i < j" "key_of_ticket s i = key_of_ticket s j"
    "key_of_ticket s j \<noteq> None" "holds s j \<or> over s j"
  then have "turn_ok s j"
    using lock_invD(3)[OF lock_reachable_inv[OF s]] by (auto simp: key_of_ticket_def split: if_splits)
  then show "over s i"
    using ij by (auto simp: turn_ok_def key_of_ticket_def over_def holds_def is_done_def split: if_splits)
next
  fix s i assume "holds s i"
  then show "key_of_ticket s i \<noteq> None \<and> \<not> over s i"
    by (simp add: holds_def over_def is_done_def key_of_ticket_def)
qed

section \<open>Progress and cleanup\<close>

lemma first_waiter_enters:
  assumes s: "lock_reachable s" and j: "j < length (tickets s)" "t_phase (tickets s ! j) = Waiting"
    and first: "\<forall>i < j. t_key (tickets s ! i) = t_key (tickets s ! j) \<longrightarrow> is_done s i"
  shows "can_enter j s"
  using lock_invD(2)[OF lock_reachable_inv[OF s] j(1)] j first
  by (auto simp: can_enter_def prev_ok_def split: option.splits)

section \<open>Keys\<close>

lemma balanceKey_inject:
  assumes "CHR '':'' \<notin> set e" "CHR '':'' \<notin> set e'"
  shows "balanceKey e l = balanceKey e' l' \<longleftrightarrow> e = e' \<and> l = l'"
proof
  assume eq: "balanceKey e l = balanceKey e' l'"
  have "takeWhile (\<lambda>c. c \<noteq> CHR '':'') (balanceKey x y) = x" if "CHR '':'' \<notin> set x" for x y
    using that by (induction x) (auto simp: balanceKey_def)
  then have "e = e'" using eq assms by metis
  with eq show "e = e' \<and> l = l'" by (simp add: balanceKey_def)
qed simp

section \<open>The chain is a queue\<close>

text \<open>
  The specification of the lock: per key the tickets in line, the first of them the owner (or the
  next to enter). \<open>line\<close> reads it off the chain.
\<close>

definition line :: "lock_state \<Rightarrow> string \<Rightarrow> nat list" where
  "line s k = filter (\<lambda>i. t_key (tickets s ! i) = k \<and> \<not> is_done s i) [0..<length (tickets s)]"

inductive queue_step :: "(string \<Rightarrow> nat list) \<Rightarrow> (string \<Rightarrow> nat list) \<Rightarrow> bool" where
  stay: "queue_step q q"
| join: "\<forall>k'. n \<notin> set (q k') \<Longrightarrow> queue_step q (q(k := q k @ [n]))"
| head_leaves: "q k = i # rest \<Longrightarrow> queue_step q (q(k := rest))"

lemma filter_lt_first:
  assumes "i < n" "p i" "\<forall>j < i. \<not> p j"
  shows "filter p [0..<n] = i # filter p [Suc i..<n]"
proof -
  have "[0..<n] = [0..<i] @ i # [Suc i..<n]"
    using assms(1) upt_add_eq_append[of 0 i "n - i"] by (simp add: upt_conv_Cons)
  moreover have "filter p [0..<i] = []" using assms(3) by (simp add: filter_empty_conv)
  ultimately show ?thesis using assms(2) by simp
qed

lemma line_first:
  assumes "i < length (tickets s)" "\<not> is_done s i"
    "\<forall>m < i. t_key (tickets s ! m) = t_key (tickets s ! i) \<longrightarrow> is_done s m"
  shows "\<exists>rest. line s (t_key (tickets s ! i)) = i # rest"
  using filter_lt_first[of i "length (tickets s)" "\<lambda>j. t_key (tickets s ! j) = t_key (tickets s ! i) \<and> \<not> is_done s j"]
    assms by (auto simp: line_def)

lemma line_enqueue: "line (enqueue k s) = (line s)(k := line s k @ [length (tickets s)])"
proof
  fix k'
  have "filter (\<lambda>i. t_key (tickets (enqueue k s) ! i) = k' \<and> \<not> is_done (enqueue k s) i) [0..<length (tickets s)]
      = line s k'"
    unfolding line_def by (rule filter_cong) (simp_all add: enqueue_nth enqueue_done)
  then show "line (enqueue k s) k' = ((line s)(k := line s k @ [length (tickets s)])) k'"
    by (simp add: line_def[of "enqueue k s"] enqueue_nth is_done_def)
qed

lemma line_same:
  assumes "length (tickets s') = length (tickets s)" "\<And>i. t_key (tickets s' ! i) = t_key (tickets s ! i)"
    "\<And>i. is_done s' i = is_done s i"
  shows "line s' = line s"
  using assms by (simp add: line_def fun_eq_iff)

lemma line_leave:
  assumes "i < length (tickets s)" "line s (t_key (tickets s ! i)) = i # rest"
  shows "line (leave i s) = (line s)(t_key (tickets s ! i) := rest)"
proof
  fix k
  have "line (leave i s) k = filter (\<lambda>j. j \<noteq> i) (line s k)"
    by (simp add: line_def leave_frame leave_done[OF assms(1)] conj_commute conj_left_commute)
  moreover have "distinct (line s k)" by (simp add: line_def)
  moreover have "i \<notin> set (line s k)" if "k \<noteq> t_key (tickets s ! i)"
    using that by (simp add: line_def)
  ultimately show "line (leave i s) k = ((line s)(t_key (tickets s ! i) := rest)) k"
    using assms(2) by (cases "k = t_key (tickets s ! i)") (auto simp: filter_id_conv)
qed

text \<open>C21: The promise chain refines a FIFO queue per key: every step of the lock leaves the queues as they are, appends a new ticket to one queue, or removes the head of one queue, and whoever holds a key is the head of its queue.\<close>

theorem lock_refines_queue:
  assumes "lock_reachable s" "lock_step s s'"
  shows "queue_step (line s) (line s')
    \<and> (\<forall>i. holds s i \<longrightarrow> (\<exists>rest. line s (t_key (tickets s ! i)) = i # rest))"
proof
  note inv = lock_reachable_inv[OF assms(1)]
  have first: "\<exists>rest. line s (t_key (tickets s ! i)) = i # rest"
    if "i < length (tickets s)" "t_phase (tickets s ! i) \<noteq> Waiting" "t_phase (tickets s ! i) \<noteq> Done" for i
    using line_first[OF that(1)] lock_invD(3)[OF inv that(1)] that(2,3) by (simp add: turn_ok_def is_done_def)
  then show "\<forall>i. holds s i \<longrightarrow> (\<exists>rest. line s (t_key (tickets s ! i)) = i # rest)"
    by (simp add: holds_def)
  have phase: "line (set_phase i p t) = line t"
    if "i < length (tickets t)" "\<not> is_done t i" "p \<noteq> Done" for i p t
    using that by (intro line_same) (auto simp: set_phase_nth is_done_def)
  show "queue_step (line s) (line s')"
    using assms(2)
  proof (cases rule: lock_step.cases)
    case (call k)
    have "\<forall>k'. length (tickets s) \<notin> set (line s k')" by (simp add: line_def)
    then show ?thesis unfolding call line_enqueue by (rule queue_step.join)
  next
    case (entry i)
    have i: "i < length (tickets s)" "\<not> is_done s i" using entry(2) by (simp_all add: can_enter_def is_done_def)
    let ?t = "\<lambda>g. s\<lparr>latches := (latches s)(t_key (tickets s ! i) := None), reached := (reached s)[g := True]\<rparr>"
    have "line (set_phase i (At_gate g) (?t g)) = line (?t g)" for g
      by (rule phase) (use i in \<open>simp_all add: is_done_def\<close>)
    moreover have "line (?t g) = line s" for g by (rule line_same) (simp_all add: is_done_def)
    ultimately have "line (enter i s) = line s"
      using phase[OF i, of Critical] by (simp add: enter_def Let_def split: option.split)
    then show ?thesis using entry(1) queue_step.stay by simp
  next
    case (gate i)
    have "i < length (tickets s)" "\<not> is_done s i"
      using gate(2) by (auto simp: can_pass_def is_done_def split: phase.splits)
    then show ?thesis using phase[of i s Critical] gate(1) queue_step.stay by (simp add: pass_def)
  next
    case (exit i)
    have i: "i < length (tickets s)" "t_phase (tickets s ! i) = Critical" using exit(2) by (simp_all add: can_leave_def)
    then obtain rest where r: "line s (t_key (tickets s ! i)) = i # rest" using first[of i] by auto
    then show ?thesis unfolding exit(1) line_leave[OF i(1) r] by (rule queue_step.head_leaves)
  next
    case (latch k)
    have "line s' = line s" by (rule line_same) (simp_all add: latch installLatch_def is_done_def)
    then show ?thesis using queue_step.stay by simp
  next
    case (unlatch g)
    have "line s' = line s" by (rule line_same) (simp_all add: unlatch release_latch_def is_done_def)
    then show ?thesis using queue_step.stay by simp
  qed
qed

text \<open>Two calls on one key: the first inside, the second in line.\<close>

definition demo_lock :: lock_state where
  "demo_lock = enqueue ''k'' (enter 0 (enqueue ''k'' no_lock))"

lemma demo_lock_simps:
  "tickets demo_lock = [\<lparr>t_key = ''k'', t_prev = None, t_phase = Critical\<rparr>,
                        \<lparr>t_key = ''k'', t_prev = Some 0, t_phase = Waiting\<rparr>]"
  "chains demo_lock = (\<lambda>_. None)(''k'' := Some 1)"
  by (simp_all add: demo_lock_def enqueue_def enter_def no_lock_def set_phase_def Let_def)

lemma demo_lock_reachable: "lock_reachable demo_lock"
proof -
  have "lock_reachable (enqueue ''k'' no_lock)" by (rule lock_reachable.step[OF init lock_step.call])
  moreover have "can_enter 0 (enqueue ''k'' no_lock)" by (simp add: can_enter_def enqueue_def no_lock_def)
  ultimately show ?thesis
    unfolding demo_lock_def by (metis lock_reachable.step lock_step.call lock_step.entry)
qed

lemma lock_refines_queue_witness:
  "queue_step (line demo_lock) (line (leave 0 demo_lock)) \<and> (\<exists>rest. line demo_lock ''k'' = 0 # rest)"
proof -
  have "lock_step demo_lock (leave 0 demo_lock)"
    by (rule lock_step.exit) (simp add: can_leave_def demo_lock_simps)
  then show ?thesis
    using lock_refines_queue[OF demo_lock_reachable, of "leave 0 demo_lock"] by (auto simp: holds_def demo_lock_simps)
qed

text \<open>C22: At most one ticket of a key is inside its critical section at a time, and when one is inside, every earlier ticket of the key has finished.\<close>

theorem lock_is_exclusive_and_fair:
  assumes "lock_reachable s" "key_of_ticket s i = Some k" "key_of_ticket s j = Some k" "holds s j"
  shows "(holds s i \<longrightarrow> i = j) \<and> (i < j \<longrightarrow> over s i)"
proof
  show "holds s i \<longrightarrow> i = j"
    using chain.mutual_exclusion[OF assms(1) _ assms(4)] assms(2,3) by simp
  show "i < j \<longrightarrow> over s i"
    using chain.nested_waits[OF assms(1)] assms(2-4) by fastforce
qed

lemma lock_is_exclusive_and_fair_witness:
  "holds demo_lock 0 \<and> \<not> holds demo_lock 1"
proof -
  have "holds demo_lock 0" by (simp add: holds_def demo_lock_simps)
  with lock_is_exclusive_and_fair[OF demo_lock_reachable, of 1 "''k''" 0] show ?thesis
    by (simp add: key_of_ticket_def demo_lock_simps)
qed

text \<open>C23: The lock never blocks by itself: the head of a key's queue is inside or may enter at once; and the chain map holds an entry for a key exactly while its queue is not empty, so it does not leak.\<close>

theorem lock_makes_progress:
  assumes "lock_reachable s"
  shows "(chains s k = None \<longleftrightarrow> line s k = []) \<and>
    (\<forall>i rest. line s k = i # rest \<longrightarrow> can_enter i s \<or> holds s i)"
proof
  note inv = lock_reachable_inv[OF assms]
  show "chains s k = None \<longleftrightarrow> line s k = []"
    using lock_invD(1)[OF inv, of k]
    by (cases "chains s k") (auto simp: tail_ok_def line_def filter_empty_conv)
  show "\<forall>i rest. line s k = i # rest \<longrightarrow> can_enter i s \<or> holds s i"
  proof (intro allI impI)
    fix i rest assume l: "line s k = i # rest"
    have "i \<in> set (line s k)" using l by simp
    then have i: "i < length (tickets s)" "t_key (tickets s ! i) = k" "\<not> is_done s i" by (simp_all add: line_def)
    have "sorted (line s k)" by (simp add: line_def sorted_wrt_filter)
    then have least: "\<not> j < i" if "j \<in> set (line s k)" for j using that l by (auto simp: not_less)
    have "is_done s j" if "j < i" "t_key (tickets s ! j) = k" for j
    proof (rule ccontr)
      assume "\<not> is_done s j"
      then have "j \<in> set (line s k)" using that i(1) by (simp add: line_def)
      then show False using least that(1) by blast
    qed
    then show "can_enter i s \<or> holds s i"
      using first_waiter_enters[OF assms i(1)] i by (auto simp: holds_def is_done_def)
  qed
qed

lemma lock_makes_progress_witness:
  "chains demo_lock ''other'' = None \<and> line demo_lock ''other'' = [] \<and> line demo_lock ''k'' \<noteq> []"
  using lock_makes_progress[OF demo_lock_reachable, of "''other''"] lock_makes_progress[OF demo_lock_reachable, of "''k''"]
  by (simp add: demo_lock_simps)

end
