(* ===== verification/Fixtures.thy ===== *)
theory Fixtures
  imports Start_Up Fake_Hcm Balance_Lock System_Inv Outbox_Dispatcher Reservation_Reaper
begin

text \<open>
  The test harness: the clock the tests set (\<open>src/src/common/clock/fake-clock.ts\<close>), the seed
  factories (\<open>src/src/testing/factories.ts\<close>) and the drivers of the dormant workers
  (\<open>src/src/testing/concurrency-helpers.ts\<close>). An option of a factory is absent (\<open>None\<close>) or given;
  a nullable column that is given may be given as \<open>null\<close>.
\<close>

section \<open>The fake clock\<close>

type_synonym fake_clock = js_date

definition new_clock :: "js_date \<Rightarrow> fake_clock" where
  "new_clock initial = initial"

definition clock_now :: "fake_clock \<Rightarrow> js_date" where
  "clock_now current = current"

definition setNow :: "js_date \<Rightarrow> fake_clock \<Rightarrow> fake_clock" where
  "setNow d current = d"

definition advance :: "int \<Rightarrow> fake_clock \<Rightarrow> fake_clock" where
  "advance ms current = (case current of Date_at t \<Rightarrow> Date_at (t + ms) | Invalid_Date \<Rightarrow> Invalid_Date)"

lemma advance_now: "clock_now (advance ms (setNow (Date_at t) c)) = Date_at (t + ms)"
  by (simp add: clock_now_def advance_def setNow_def)

lemma advance_twice: "advance m (advance n c) = advance (n + m) c"
  by (cases c) (simp_all add: advance_def algebra_simps)

section \<open>Factories\<close>

definition given :: "'a option \<Rightarrow> 'a \<Rightarrow> 'a" where
  "given v fallback = (case v of Some x \<Rightarrow> x | None \<Rightarrow> fallback)"

lemma given_simps [simp]: "given None x = x" "given (Some y) x = y"
  by (simp_all add: given_def)

text \<open>A generated identifier where the option is absent.\<close>

definition given_uuid :: "'h env \<Rightarrow> string option \<Rightarrow> (string, 'h) svc" where
  "given_uuid E v = (case v of Some s \<Rightarrow> return s | None \<Rightarrow> fresh_uuid E)"

record SeedBalanceOptions =
  s_employeeId :: "string option"
  s_locationId :: "string option"
  s_available :: "int option"
  s_reserved :: "int option"
  s_needsReview :: "bool option"
  s_lastHcmAsOf :: "js_date option option"

definition seedBalance_row :: "SeedBalanceOptions \<Rightarrow> (balance, 'h) svc" where
  "seedBalance_row opts =
     (let entity =
        \<lparr>b_employeeId = given (s_employeeId opts) ''emp1'', b_locationId = given (s_locationId opts) ''loc1'',
         available = given (s_available opts) 10, reserved = given (s_reserved opts) 0,
         needsReview = given (s_needsReview opts) False,
         lastHcmAsOf = given (s_lastHcmAsOf opts) (Some (js_Date_parse ''2026-05-27T00:00:00Z''))\<rparr>
      in andThen (save_balance entity) (\<lambda>_. return entity))"

record SeedRequestOptions =
  s_id :: "string option"
  sr_employeeId :: "string option"
  sr_locationId :: "string option"
  s_startDate :: "string option"
  s_endDate :: "string option"
  s_days :: "int option"
  s_status :: "RequestStatus option"
  s_idempotencyKey :: "string option"
  s_hcmIdempotencyKey :: "string option"
  s_expiresAt :: "int option"
  s_committedAt :: "int option option"
  s_hcmAckAt :: "js_date option option"

text \<open>\<open>new Date('2026-06-15T00:00:00Z')\<close>.\<close>

definition default_expiry :: int where
  "default_expiry = (case js_Date_parse ''2026-06-15T00:00:00Z'' of Date_at t \<Rightarrow> t | Invalid_Date \<Rightarrow> 0)"

definition seedRequest :: "'h env \<Rightarrow> SeedRequestOptions \<Rightarrow> (request, 'h) svc" where
  "seedRequest E opts =
     andThen (given_uuid E (s_id opts)) (\<lambda>i.
     andThen (given_uuid E (s_idempotencyKey opts)) (\<lambda>key.
     andThen (given_uuid E (s_hcmIdempotencyKey opts)) (\<lambda>hcmKey.
     let entity =
        \<lparr>r_id = i, r_employeeId = given (sr_employeeId opts) ''emp1'',
         r_locationId = given (sr_locationId opts) ''loc1'',
         startDate = given (s_startDate opts) ''2026-06-01'', endDate = given (s_endDate opts) ''2026-06-02'',
         days = given (s_days opts) 2, status = given (s_status opts) RequestStatus.PENDING,
         idempotencyKey = key, hcmIdempotencyKey = hcmKey, expiresAt = given (s_expiresAt opts) default_expiry,
         committedAt = given (s_committedAt opts) None, hcmAckAt = given (s_hcmAckAt opts) None\<rparr>
     in andThen (save_request entity) (\<lambda>_. return entity))))"

record SeedOutboxOptions =
  s_aggregateId :: string
  s_operation :: "OutboxOperation option"
  so_status :: "OutboxStatus option"
  so_idempotencyKey :: "string option"
  s_payload :: "hcm_command option"
  s_attempts :: "int option"

definition seedOutbox :: "'h env \<Rightarrow> SeedOutboxOptions \<Rightarrow> (outbox_row, 'h) svc" where
  "seedOutbox E opts =
     andThen (given_uuid E (so_idempotencyKey opts)) (\<lambda>key.
     andThen (fresh_uuid E) (\<lambda>i w.
     let entity =
        \<lparr>o_id = i, aggregateId = s_aggregateId opts, operation = given (s_operation opts) FILE,
         payload = given (s_payload opts)
           \<lparr>c_employeeId = ''emp1'', c_locationId = ''loc1'', c_days = 2, c_startDate = ''2026-06-01'',
            c_endDate = ''2026-06-02'', c_idempotencyKey = key\<rparr>,
         o_idempotencyKey = key, o_status = given (so_status opts) OutboxStatus.PENDING,
         attempts = given (s_attempts opts) 0, o_createdAt = dbClock w\<rparr>
     in andThen (save_outbox entity) (\<lambda>_. return entity) w))"

definition seedBatchSyncLog :: "int \<Rightarrow> js_date option \<Rightarrow> (batch_sync_log, 'h) svc" where
  "seedBatchSyncLog sequenceNo asOf =
     (let entity = \<lparr>sequence = sequenceNo, l_asOf = given asOf (js_Date_parse ''2026-05-27T00:00:00Z'')\<rparr>
      in andThen (write_db (\<lambda>d. d\<lparr>batchSyncLog := upsert_by sequence entity (batchSyncLog d)\<rparr>)) (\<lambda>_. return entity))"

record SeedReconciliationEventOptions =
  se_employeeId :: "string option"
  se_locationId :: "string option"
  s_localValue :: "int option"
  s_hcmValue :: "int option"
  s_resolution :: "ReconResolution option"

definition seedReconciliationEvent :: "SeedReconciliationEventOptions \<Rightarrow> (recon_event, 'h) svc" where
  "seedReconciliationEvent opts =
     (let entity =
        \<lparr>e_employeeId = given (se_employeeId opts) ''emp1'', e_locationId = given (se_locationId opts) ''loc1'',
         localValue = given (s_localValue opts) 10, e_hcmValue = given (s_hcmValue opts) 10,
         resolution = given (s_resolution opts) NO_CHANGE\<rparr>
      in andThen (write_db (\<lambda>d. d\<lparr>reconEvents := reconEvents d @ [entity]\<rparr>)) (\<lambda>_. return entity))"

section \<open>The test module\<close>

text \<open>\<open>src/src/testing/test-module.ts\<close>: what the tests replace, the clock, HCM and the database.\<close>

definition DEFAULT_CLOCK_DATE :: js_date where
  "DEFAULT_CLOCK_DATE = js_Date_parse ''2025-12-15T00:00:00Z''"

definition test_database_options :: source_options where
  "test_database_options =
     buildDataSourceOptions [''database'' \<mapsto> Str '':memory:'', ''synchronize'' \<mapsto> Flag True, ''dropSchema'' \<mapsto> Flag True]"

definition test_doubles :: "int \<Rightarrow> fake_clock \<times> fake_hcm" where
  "test_doubles t = (new_clock DEFAULT_CLOCK_DATE, new_fake t)"

section \<open>Driving the workers\<close>

definition withLockLatch :: "string \<Rightarrow> string \<Rightarrow> lock_state \<Rightarrow> lock_state" where
  "withLockLatch employeeId locationId s = installLatch (balanceKey employeeId locationId) s"

definition runDispatcherOnce :: "'h env \<Rightarrow> (unit, 'h) svc" where
  "runDispatcherOnce E = dispatchPending E"

definition runReaperOnce :: "(unit, 'h) svc" where
  "runReaperOnce = sweep"

section \<open>What the default fixtures are\<close>

definition no_balance_options :: SeedBalanceOptions where
  "no_balance_options = \<lparr>s_employeeId = None, s_locationId = None, s_available = None, s_reserved = None,
     s_needsReview = None, s_lastHcmAsOf = None\<rparr>"

definition no_request_options :: SeedRequestOptions where
  "no_request_options = \<lparr>s_id = None, sr_employeeId = None, sr_locationId = None, s_startDate = None,
     s_endDate = None, s_days = None, s_status = None, s_idempotencyKey = None, s_hcmIdempotencyKey = None,
     s_expiresAt = None, s_committedAt = None, s_hcmAckAt = None\<rparr>"

text \<open>
  The default balance and the default request together are no state the service can reach: the request
  is PENDING with two days that the balance does not reserve.
\<close>

lemma default_fixtures_break_the_books:
  assumes "faults w = []" "db w = empty_db"
  shows "\<exists>b r w'. andThen (seedBalance_row no_balance_options) (\<lambda>_. seedRequest E no_request_options) w = (Ok r, w')
    \<and> balances (db w') (key_of r) = Some b \<and> reserved b = 0 \<and> status r = RequestStatus.PENDING \<and> days r = 2
    \<and> (\<forall>n. \<not> db_inv E n (db w'))"
proof -
  have "andThen (seedBalance_row no_balance_options) (\<lambda>_. seedRequest E no_request_options) w
    = (Ok r, w') \<Longrightarrow> reserved_of (db w') (key_of r) = 0 \<and> pending_sum (db w') (key_of r) = 2
      \<and> status r = RequestStatus.PENDING \<and> days r = 2 \<and> balances (db w') (key_of r) \<noteq> None" for r w'
    using assms
    by (auto simp: seedBalance_row_def seedRequest_def no_balance_options_def no_request_options_def Let_def
        andThen_def return_def given_uuid_def fresh_uuid_def save_balance_def save_request_def write_db_def
        next_fault_def drop_fault_def key_taken_def empty_db_def set_balance_def set_request_def upsert_by_def
        reserved_of_def pending_sum_def pending_days_def key_of_def pk_of_def)
  moreover have "\<exists>r w'. andThen (seedBalance_row no_balance_options) (\<lambda>_. seedRequest E no_request_options) w = (Ok r, w')"
    using assms
    by (simp add: seedBalance_row_def seedRequest_def no_balance_options_def no_request_options_def Let_def
        andThen_def return_def given_uuid_def fresh_uuid_def save_balance_def save_request_def write_db_def
        next_fault_def drop_fault_def key_taken_def empty_db_def set_balance_def)
  ultimately obtain r w' where *: "andThen (seedBalance_row no_balance_options) (\<lambda>_. seedRequest E no_request_options) w = (Ok r, w')"
      "reserved_of (db w') (key_of r) = 0" "pending_sum (db w') (key_of r) = 2" "status r = RequestStatus.PENDING"
      "days r = 2" "balances (db w') (key_of r) \<noteq> None"
    by meson
  moreover from * obtain b where "balances (db w') (key_of r) = Some b" by auto
  moreover have "\<not> db_inv E n (db w')" for n using db_invD(5)[of E n "db w'" "key_of r"] * by auto
  ultimately show ?thesis by (auto simp: reserved_of_def)
qed

end
