(* ===== verification/Wire.thy ===== *)
theory Wire
  imports Hcm_Client Mock_Hcm
begin

text \<open>
  The HTTP client of the service in front of the mock HCM server, over a network that may lose a
  request or its answer. The routes and the body validation are those of
  \<open>src/src/mock-hcm/hcm.controller.ts\<close> and \<open>src/src/mock-hcm/main.ts\<close>; the network is the library's
  and the deployment's, here a script of fates.
\<close>

section \<open>The network\<close>

datatype fate = Arrives | Request_lost | Answer_lost

record wire =
  server :: mock_store
  fates :: "fate list"

text \<open>The fate of the attempt after \<open>i\<close> others; a network at the end of its script loses nothing.\<close>

definition fate_of :: "wire \<Rightarrow> nat \<Rightarrow> fate" where
  "fate_of n i = (if i < length (fates n) then fates n ! i else Arrives)"

definition http_exception :: "mock_error \<Rightarrow> http_error" where
  "http_exception e = (case e of
      Bad_Request m \<Rightarrow> Axios_response 400 (Some m)
    | Service_Unavailable m \<Rightarrow> Axios_response 503 (Some m))"

text \<open>The write routes: the body is validated before the handler runs.\<close>

definition serve_write ::
  "(string \<Rightarrow> bool) \<Rightarrow> string \<Rightarrow> http_post_request \<Rightarrow> mock_store \<Rightarrow> (http_error + hcm_result) \<times> mock_store" where
  "serve_write isDateString base q s =
     (if \<not> command_dto_valid isDateString (p_body q) then (Inl (Axios_response 400 None), s)
      else if p_url q = base @ ''/hcm/timeoff'' then
        (case mock_fileTimeOff (p_idempotencyKey q) (p_body q) s of
           (Inr r, s') \<Rightarrow> (Inr r, s') | (Inl e, s') \<Rightarrow> (Inl (http_exception e), s'))
      else if p_url q = base @ ''/hcm/timeoff/reverse'' then
        (case mock_reverseTimeOff (p_idempotencyKey q) (p_body q) s of
           (Inr r, s') \<Rightarrow> (Inr r, s') | (Inl e, s') \<Rightarrow> (Inl (http_exception e), s'))
      else (Inl (Axios_response 404 None), s))"

definition wire_post ::
  "(string \<Rightarrow> bool) \<Rightarrow> string \<Rightarrow> http_post_request \<Rightarrow> wire \<Rightarrow> (http_error + post_body) \<times> wire" where
  "wire_post isDateString base q n =
     (let (r, s) = serve_write isDateString base q (server n); n' = n\<lparr>fates := tl (fates n)\<rparr>
      in case fate_of n 0 of
           Request_lost \<Rightarrow> (Inl (Axios_network (Some ''ECONNRESET'')), n')
         | Answer_lost \<Rightarrow> (Inl (Axios_network (Some ''ECONNRESET'')), n'\<lparr>server := s\<rparr>)
         | Arrives \<Rightarrow> (map_sum id (\<lambda>x. Body (Some (ok x)) (ackedAt x) (errorHint x)) r, n'\<lparr>server := s\<rparr>))"

lemma fate_of_tl [simp]: "fate_of (n\<lparr>fates := tl (fates n)\<rparr>) i = fate_of n (Suc i)"
  "fate_of (n\<lparr>fates := tl (fates n), server := s\<rparr>) i = fate_of n (Suc i)"
  by (simp_all add: fate_of_def nth_tl less_diff_conv)

section \<open>Whether the days are deducted\<close>

text \<open>\<open>filed d c done s\<close>: a command for \<open>c_days c\<close> of \<open>d\<close> days has been deducted and recorded, or not.\<close>

definition filed :: "int \<Rightarrow> hcm_command \<Rightarrow> bool \<Rightarrow> mock_store \<Rightarrow> bool" where
  "filed d c deducted s =
     (activeScenario s \<notin> {Timeout, Silent_insufficient, Ignore_idempotency_key}
      \<and> mock_stored (c_idempotencyKey c) s = (if deducted then Some True else None)
      \<and> hcm_days c s = Some (if deducted then d - c_days c else d))"

lemma file_scenario: "activeScenario (snd (file_accepted k c s)) = activeScenario s"
  by (auto simp: file_accepted_def Let_def split: option.splits)

lemma file_once:
  assumes "filed d c deducted s" "c_days c \<le> d"
  shows "ok (fst (file_accepted (c_idempotencyKey c) c s)) \<and> filed d c True (snd (file_accepted (c_idempotencyKey c) c s))"
proof -
  let ?k = "c_idempotencyKey c"
  have dedup: "should_dedup s" using assms(1) by (auto simp: filed_def should_dedup_def)
  show ?thesis
  proof (cases deducted)
    case True
    then have "mock_stored ?k s = Some True" using assms(1) by (simp add: filed_def)
    from file_replays[OF dedup this, of c] show ?thesis using assms(1) True by simp
  next
    case False
    then have "prior_result ?k s = None" using assms(1) dedup by (simp add: prior_result_def mock_stored_def filed_def)
    then have "ok (fst (file_accepted ?k c s)) \<and> hcm_days c (snd (file_accepted ?k c s)) = Some (d - c_days c)"
      using assms False by (auto simp: filed_def file_accepted_def hcm_days_def acked_now_def Let_def)
    then show ?thesis
      using file_records[OF dedup, of ?k c] file_scenario[of ?k c s] assms(1) by (simp add: filed_def)
  qed
qed

lemma serve_file:
  assumes "filed d c deducted s" "c_days c \<le> d" "command_dto_valid isDateString c"
  shows "serve_write isDateString base \<lparr>p_url = base @ ''/hcm/timeoff'', p_body = c, p_idempotencyKey = c_idempotencyKey c\<rparr> s
    = (Inr (fst (file_accepted (c_idempotencyKey c) c s)), snd (file_accepted (c_idempotencyKey c) c s))"
  using assms by (auto simp: serve_write_def mock_fileTimeOff_def filed_def command_dto_valid_def split: prod.split)

text \<open>The loop from attempt \<open>a\<close> on, \<open>k\<close> attempts left.\<close>

lemma lossy_loop:
  assumes q: "q = \<lparr>p_url = hcmBaseUrl C @ ''/hcm/timeoff'', p_body = c, p_idempotencyKey = c_idempotencyKey c\<rparr>"
    and C: "http_post C = wire_post isDateString (hcmBaseUrl C)"
    and c: "c_days c \<le> d" "command_dto_valid isDateString c"
  shows "filed d c deducted (server (net st)) \<Longrightarrow> clientRetryMaxAttempts C = int (a + k) \<Longrightarrow>
    ok (fst (post_loop C q (int a) hint st)) = (\<exists>i<k. fate_of (net st) i = Arrives)
    \<and> filed d c (deducted \<or> (\<exists>i<k. fate_of (net st) i \<noteq> Request_lost)) (server (net (snd (post_loop C q (int a) hint st))))"
proof (induction k arbitrary: a hint st deducted)
  case 0
  then show ?case by (simp add: post_loop.simps[of C q "int a"])
next
  case (Suc k)
  let ?n = "net st" and ?f = "file_accepted (c_idempotencyKey c) c (server (net st))"
  let ?st = "\<lambda>r n. (pause C (int a) st)\<lparr>net := n, posts := posts st @ [(q, r)]\<rparr>"
  have more: "int a < clientRetryMaxAttempts C" using Suc.prems(2) by simp
  note once = file_once[OF Suc.prems(1) c(1)] and serve = serve_file[OF Suc.prems(1) c, of "hcmBaseUrl C"]
  have post: "do_post C q (pause C (int a) st) = (case wire_post isDateString (hcmBaseUrl C) q ?n of (r, n) \<Rightarrow> (r, ?st r n))"
    by (simp add: do_post_def C split: prod.split)
  have again: "post_loop C q (int a) hint st = post_loop C q (int (Suc a)) (extractErrorHint err) (?st (Inl err) n)"
    if "wire_post isDateString (hcmBaseUrl C) q ?n = (Inl err, n)" "err = Axios_network (Some ''ECONNRESET'')" for n err
    using that more by (simp add: post_loop.simps[of C q "int a"] post read_body_def isRetryable_def add.commute)
  have step: "clientRetryMaxAttempts C = int (Suc a + k)" using Suc.prems(2) by simp
  show ?case
  proof (cases "fate_of ?n 0")
    case Arrives
    have "post_loop C q (int a) hint st = (final_result (wall (?st r n)) r, ?st r n)"
      if "wire_post isDateString (hcmBaseUrl C) q ?n = (r, n)" "r = Inr (Body (Some True) y z)" for r n y z
      using that more by (simp add: post_loop.simps[of C q "int a"] post read_body_def final_result_def)
    moreover have "wire_post isDateString (hcmBaseUrl C) q ?n
        = (Inr (Body (Some True) (ackedAt (fst ?f)) (errorHint (fst ?f))), ?n\<lparr>fates := tl (fates ?n), server := snd ?f\<rparr>)"
      using Arrives once by (simp add: wire_post_def serve q)
    ultimately show ?thesis
      using Arrives once by (auto simp: final_result_def read_body_def Ex_less_Suc2)
  next
    case Request_lost
    have w: "wire_post isDateString (hcmBaseUrl C) q ?n = (Inl (Axios_network (Some ''ECONNRESET'')), ?n\<lparr>fates := tl (fates ?n)\<rparr>)"
      using Request_lost by (simp add: wire_post_def serve q)
    show ?thesis
      unfolding again[OF w refl]
      using Suc.IH[OF _ step, of deducted "?st (Inl (Axios_network (Some ''ECONNRESET''))) (?n\<lparr>fates := tl (fates ?n)\<rparr>)"] Suc.prems(1)
        Request_lost by (simp add: Ex_less_Suc2)
  next
    case Answer_lost
    have w: "wire_post isDateString (hcmBaseUrl C) q ?n
        = (Inl (Axios_network (Some ''ECONNRESET'')), ?n\<lparr>fates := tl (fates ?n), server := snd ?f\<rparr>)"
      using Answer_lost by (simp add: wire_post_def serve q)
    show ?thesis
      unfolding again[OF w refl]
      using Suc.IH[OF _ step, of True "?st (Inl (Axios_network (Some ''ECONNRESET''))) (?n\<lparr>fates := tl (fates ?n), server := snd ?f\<rparr>)"]
        once Answer_lost by (simp add: Ex_less_Suc2)
  qed
qed

text \<open>C13: Over a network that loses requests or answers, the client's retries and the server's
  idempotency keys together deduct a FILE's days once or not at all, whatever is lost: once if an attempt
  reaches the server, and the client reports success exactly when one of its attempts is answered, so a
  FILE it reports as failed may have been deducted.\<close>

theorem lossy_write_deducts_at_most_once:
  assumes "http_post C = wire_post isDateString (hcmBaseUrl C)" "clientRetryMaxAttempts C = int m"
    and "command_dto_valid isDateString c" "c_days c \<le> d" "hcm_days c (server (net st)) = Some d"
    and "mock_stored (c_idempotencyKey c) (server (net st)) = None"
    and "activeScenario (server (net st)) \<notin> {Timeout, Silent_insufficient, Ignore_idempotency_key}"
  shows "\<exists>r st'. client_fileTimeOff C c st = (Inr r, st')
    \<and> (ok r \<longleftrightarrow> (\<exists>i<m. fate_of (net st) i = Arrives))
    \<and> hcm_days c (server (net st')) = Some (if \<exists>i<m. fate_of (net st) i \<noteq> Request_lost then d - c_days c else d)"
proof -
  let ?q = "\<lparr>p_url = hcmBaseUrl C @ ''/hcm/timeoff'', p_body = c, p_idempotencyKey = c_idempotencyKey c\<rparr>"
  have "filed d c False (server (net st))" using assms by (simp add: filed_def)
  note loop = lossy_loop[OF refl assms(1,4,3) this, of 0 m, simplified, OF assms(2), of "''unreachable''"]
  obtain r st' where run: "post_loop C ?q 0 ''unreachable'' st = (r, st')"
    by (cases "post_loop C ?q 0 ''unreachable'' st")
  then have "client_fileTimeOff C c st = (Inr r, st')"
    by (simp add: client_fileTimeOff_def postWithRetry_def)
  with loop run show ?thesis by (simp add: filed_def)
qed

definition demo_wire :: "wire http_env" where
  "demo_wire = \<lparr>hcmBaseUrl = ''http://localhost:3001'', clientRetryMaxAttempts = 2, hcmRetryBackoffMs = 1000,
     http_get = (\<lambda>_ n. (Inl (Axios_network None), n)), http_post = wire_post (\<lambda>s. s \<noteq> []) ''http://localhost:3001''\<rparr>"

text \<open>The first answer and the second request are lost: the client gives up, the days are gone.\<close>

lemma lossy_write_deducts_at_most_once_witness:
  "\<exists>r st'. client_fileTimeOff demo_wire demo_command
       \<lparr>net = \<lparr>server = demo_store, fates = [Answer_lost, Request_lost]\<rparr>, wall = 0, slept = [], gets = [], posts = []\<rparr>
       = (Inr r, st')
     \<and> \<not> ok r \<and> hcm_days demo_command (server (net st')) = Some 8"
proof -
  let ?n = "\<lparr>server = demo_store, fates = [Answer_lost, Request_lost]\<rparr>"
  have f: "\<not> (\<exists>i<2. fate_of ?n i = Arrives)" "\<exists>i<2. fate_of ?n i \<noteq> Request_lost"
    by (auto simp: fate_of_def less_Suc_eq numeral_2_eq_2)
  show ?thesis
    using lossy_write_deducts_at_most_once[of demo_wire "\<lambda>s. s \<noteq> []" 2 demo_command 10
        "\<lparr>net = ?n, wall = 0, slept = [], gets = [], posts = []\<rparr>"] demo_store_simps f
    by (simp add: demo_wire_def command_dto_valid_def demo_command_def mock_stored_def)
qed

end
