(* ===== verification/Hcm_Ledger.thy ===== *)
theory Hcm_Ledger
  imports System Hcm_Contract
begin

text \<open>
  What HCM has done for the service, along every run. \<open>hcm_books\<close> is what a HCM must promise: its
  books, a list of the commands it has applied, are not changed by a read, and a write answered with
  success is in them under its idempotency key, put there by this write at the latest. The lemmas show
  that a service in front of such a HCM never records a command as sent that is not in the books, and
  that the books hold no command but the outbox's.
\<close>

section \<open>Runs in which HCM changes only by its own rules\<close>

text \<open>
  \<open>system_step\<close> lets HCM change at will; here \<open>outside\<close> says how it may change when nobody calls it.
  A crash in a dispatch loses the answer or comes before the call.
\<close>

inductive ledger_step :: "'h env \<Rightarrow> ('h \<Rightarrow> 'h \<Rightarrow> bool) \<Rightarrow> 'h world \<Rightarrow> 'h world \<Rightarrow> bool" for E outside where
  act: "unit_step E w w' \<Longrightarrow> ledger_step E outside w w'"
| time: "ledger_step E outside w (w\<lparr>clock := t, dbClock := u\<rparr>)"
| hcm: "outside (hcm w) h \<Longrightarrow> ledger_step E outside w (w\<lparr>hcm := h\<rparr>)"
| faults: "\<forall>f \<in> set fs. \<forall>row. f \<noteq> Version_mismatch row \<Longrightarrow> ledger_step E outside w (w\<lparr>faults := fs\<rparr>)"
| restart: "ledger_step E outside w (w\<lparr>held := []\<rparr>)"
| crash_before_call: "ledger_step E outside w ((snd (begin_attempt i w))\<lparr>held := []\<rparr>)"
| crash_after_call: "begin_attempt i w = (Ok (Some (row, req)), w1) \<Longrightarrow>
    ledger_step E outside w ((snd (hcm_attempt E row w1))\<lparr>held := []\<rparr>)"
| crash_in_approval: "ledger_step E outside w ((snd (applyHcmSnapshot s w))\<lparr>held := []\<rparr>)"

inductive ledger_steps :: "'h env \<Rightarrow> ('h \<Rightarrow> 'h \<Rightarrow> bool) \<Rightarrow> 'h world \<Rightarrow> 'h world \<Rightarrow> bool" for E outside where
  none: "ledger_steps E outside w w"
| more: "ledger_steps E outside w w' \<Longrightarrow> ledger_step E outside w' w'' \<Longrightarrow> ledger_steps E outside w w''"

lemma attempt_moves_hcm_only: "\<exists>h. snd (hcm_attempt E x w) = w\<lparr>hcm := h\<rparr>"
  by (auto simp: hcm_attempt_def try_catch_def andThen_def call_hcm_def svc_simps split: prod.splits sum.splits)

lemma ledger_step_system: "ledger_step E outside w w' \<Longrightarrow> system_step E w w'"
proof (induction rule: ledger_step.induct)
  case (crash_after_call i w row req w1)
  obtain h where "snd (hcm_attempt E row w1) = w1\<lparr>hcm := h\<rparr>"
    using attempt_moves_hcm_only[of E row w1] by (elim exE)
  then show ?case
    using system_step.crash_in_dispatch[of E w h i] crash_after_call by simp
next
  case (crash_before_call w i)
  have "(snd (begin_attempt i w))\<lparr>held := []\<rparr> = (snd (begin_attempt i w))\<lparr>hcm := hcm (snd (begin_attempt i w)), held := []\<rparr>"
    by simp
  then show ?case using system_step.crash_in_dispatch by metis
qed (auto intro: system_step.intros)

lemma ledger_steps_system: "ledger_steps E outside w w' \<Longrightarrow> steps E w w'"
  by (induction rule: ledger_steps.induct) (auto intro: steps.intros ledger_step_system)

section \<open>What an operation sends and records\<close>

type_synonym sent_command = "OutboxOperation \<times> hcm_command"

text \<open>The idempotency keys of the rows recorded as sent, and the commands the outbox holds.\<close>

definition sent_keys :: "database \<Rightarrow> string set" where
  "sent_keys d = (\<lambda>x. c_idempotencyKey (payload x)) ` {x \<in> set (outbox d). o_status x = SENT}"

definition commands :: "database \<Rightarrow> sent_command set" where
  "commands d = (\<lambda>x. (operation x, payload x)) ` set (outbox d)"

definition keys_of :: "sent_command list \<Rightarrow> string set" where
  "keys_of L = (\<lambda>p. c_idempotencyKey (snd p)) ` set L"

definition no_news :: "(database \<Rightarrow> database) \<Rightarrow> bool" where
  "no_news f = (\<forall>d. sent_keys (f d) \<subseteq> sent_keys d)"

lemma set_outbox_news: "o_status x \<noteq> SENT \<Longrightarrow> no_news (set_outbox x)"
  by (auto simp: no_news_def sent_keys_def set_outbox_def upsert_by_def in_set_update_where split: if_splits)

lemma still_outbox_news: "(\<And>d. outbox (f d) = outbox d) \<Longrightarrow> no_news f"
  by (simp add: no_news_def sent_keys_def)

lemma void_news: "no_news (void_files i)"
  by (auto simp: no_news_def sent_keys_def void_files_def in_set_update_where void_row_def)

lemma exclusive_world:
  "hcm (snd (runExclusive k m w)) = (if k \<in> set (held w) then hcm w else hcm (snd (m (w\<lparr>held := k # held w\<rparr>))))"
  "db (snd (runExclusive k m w)) = (if k \<in> set (held w) then db w else db (snd (m (w\<lparr>held := k # held w\<rparr>))))"
  by (auto simp: runExclusive_def split: prod.splits outcome.splits)

locale hcm_books =
  fixes E :: "'h env" and books :: "sent_command list \<Rightarrow> 'h \<Rightarrow> bool" and outside :: "'h \<Rightarrow> 'h \<Rightarrow> bool"
  assumes read_keeps: "books L h \<Longrightarrow> books L (snd (hcm_getBalance E e l h))"
    and write_enters: "books L h \<Longrightarrow> \<exists>L'. books L' (snd (hcm_write E x h))
      \<and> set L \<subseteq> set L' \<and> set L' \<subseteq> insert (operation x, payload x) (set L)
      \<and> (\<forall>a. fst (hcm_write E x h) = Inr a \<longrightarrow> ok a \<longrightarrow> c_idempotencyKey (payload x) \<in> keys_of L')"
    and outside_keeps: "books L h \<Longrightarrow> outside h h' \<Longrightarrow> books L h'"
begin

text \<open>An operation that only reads HCM and records nothing as sent.\<close>

definition calm :: "('a, 'h) svc \<Rightarrow> bool" where
  "calm m = (\<forall>w. (\<forall>L. books L (hcm w) \<longrightarrow> books L (hcm (snd (m w))))
                 \<and> sent_keys (db (snd (m w))) \<subseteq> sent_keys (db w))"

named_theorems calm_rules

lemma calm_still [calm_rules]:
  "calm (return x)" "calm (throw e)" "calm (query q)" "calm now" "calm (fresh_uuid E')"
  by (simp_all add: calm_def svc_defs)

lemma calm_read [calm_rules]: "calm (call_hcm (hcm_getBalance E e l))"
proof -
  have "snd (call_hcm (hcm_getBalance E e l) w) = w\<lparr>hcm := snd (hcm_getBalance E e l (hcm w))\<rparr>" for w
    by (simp add: call_hcm_def split_beta)
  then show ?thesis by (simp add: calm_def read_keeps)
qed

lemma calm_andThen [calm_rules]:
  assumes "calm m" "\<And>x. calm (f x)"
  shows "calm (andThen m f)"
  unfolding calm_def
proof
  fix w
  show "(\<forall>L. books L (hcm w) \<longrightarrow> books L (hcm (snd (andThen m f w))))
    \<and> sent_keys (db (snd (andThen m f w))) \<subseteq> sent_keys (db w)"
    using assms unfolding calm_def andThen_def
    by (cases "m w"; cases "fst (m w)") (simp_all, (metis snd_conv subset_trans)+)
qed

lemma calm_try [calm_rules]:
  assumes "calm m" "\<And>e. calm (f e)"
  shows "calm (try_catch m f)"
  unfolding calm_def
proof
  fix w
  show "(\<forall>L. books L (hcm w) \<longrightarrow> books L (hcm (snd (try_catch m f w))))
    \<and> sent_keys (db (snd (try_catch m f w))) \<subseteq> sent_keys (db w)"
    using assms unfolding calm_def try_catch_def
    by (cases "m w"; cases "fst (m w)") (simp_all, (metis snd_conv subset_trans)+)
qed

lemma calm_write [calm_rules]: "no_news f \<Longrightarrow> calm (write_db f)"
  by (auto simp: calm_def write_db_def no_news_def split: save_fault.splits)

lemma calm_save_balance [calm_rules]: "calm (save_balance b)"
  by (auto simp: calm_def save_balance_def set_balance_def sent_keys_def split: save_fault.splits)

lemma calm_save_request [calm_rules]: "calm (save_request r)"
  using calm_write[OF still_outbox_news[of "set_request r"]]
  by (auto simp: calm_def save_request_def set_request_def)

lemma calm_save_outbox [calm_rules]: "o_status x \<noteq> SENT \<Longrightarrow> calm (save_outbox x)"
  unfolding save_outbox_def by (intro calm_rules set_outbox_news)

lemma calm_free_key [calm_rules]: "calm (free_terminal_key r)"
  using calm_write[OF still_outbox_news[of "rename_key r"]]
  by (auto simp: calm_def free_terminal_key_def rename_key_def)

lemma calm_transaction [calm_rules]: "calm m \<Longrightarrow> calm (transaction m)"
  by (auto simp: calm_def transaction_def split: prod.splits outcome.splits) (metis snd_conv subsetD)+

lemma calm_exclusive [calm_rules]:
  assumes "calm m"
  shows "calm (runExclusive k m)"
  unfolding calm_def
proof
  fix w
  note exclusive_world[of k m w]
  moreover have "(\<forall>L. books L (hcm w) \<longrightarrow> books L (hcm (snd (m (w\<lparr>held := k # held w\<rparr>)))))
      \<and> sent_keys (db (snd (m (w\<lparr>held := k # held w\<rparr>)))) \<subseteq> sent_keys (db w)"
    using assms[unfolded calm_def, THEN spec, of "w\<lparr>held := k # held w\<rparr>"] by simp
  ultimately show "(\<forall>L. books L (hcm w) \<longrightarrow> books L (hcm (snd (runExclusive k m w))))
      \<and> sent_keys (db (snd (runExclusive k m w))) \<subseteq> sent_keys (db w)"
    by simp
qed

lemma calm_cases [calm_rules]:
  "calm m \<Longrightarrow> (\<And>x. calm (f x)) \<Longrightarrow> calm (case v of None \<Rightarrow> m | Some x \<Rightarrow> f x)"
  "(b \<Longrightarrow> calm m) \<Longrightarrow> (\<not> b \<Longrightarrow> calm m') \<Longrightarrow> calm (if b then m else m')"
  "(\<And>x. calm (g x)) \<Longrightarrow> (\<And>x. calm (f x)) \<Longrightarrow> calm (case s of Inl x \<Rightarrow> g x | Inr x \<Rightarrow> f x)"
  by (cases v, simp_all) (cases s, simp_all)

lemma calm_pair [calm_rules]: "(\<And>x y. calm (f x y)) \<Longrightarrow> calm (case p of (x, y) \<Rightarrow> f x y)"
  by (cases p) simp

lemma calm_save_attempts: "calm (save_attempts n mutate orig current)"
proof (induction n arbitrary: current)
  case 0
  then show ?case by (simp add: calm_rules)
next
  case (Suc n)
  show ?case unfolding calm_def
  proof
    fix w
    have one: "calm (save_balance current)" by (rule calm_rules)
    show "(\<forall>L. books L (hcm w) \<longrightarrow> books L (hcm (snd (save_attempts (Suc n) mutate orig current w))))
      \<and> sent_keys (db (snd (save_attempts (Suc n) mutate orig current w))) \<subseteq> sent_keys (db w)"
      using Suc one unfolding calm_def
      by (cases "save_balance current w")
        (auto simp: throw_apply split: outcome.splits exception.splits option.splits, (metis snd_conv subsetD)+)
  qed
qed

lemma calm_saveWithRetry [calm_rules]: "calm (saveWithRetry b mutate)"
  by (simp add: saveWithRetry_def calm_save_attempts)

lemma calm_moves [calm_rules]:
  "calm (reserve e l n)" "calm (release e l n)" "calm (commit e l n)" "calm (restore e l n)"
  "calm (applyHcmSnapshot s)" "calm (resolveReview e l)" "calm (voidPendingFileRows i)"
  "calm (insert_outbox E' (buildOutboxRow r op))"
proof -
  show "calm (insert_outbox E' (buildOutboxRow r op))"
    unfolding insert_outbox_def
  proof (intro calm_rules)
    fix i
    have "calm (save_outbox ((buildOutboxRow r op)\<lparr>o_id := i, o_createdAt := t\<rparr>))" for t
      by (intro calm_rules) (simp add: buildOutboxRow_def)
    then show "calm (\<lambda>w. save_outbox ((buildOutboxRow r op)\<lparr>o_id := i, o_createdAt := dbClock w\<rparr>) w)"
      by (simp add: calm_def)
  qed
qed (unfold reserve_def release_def commit_def restore_def applyHcmSnapshot_def resolveReview_def
    voidPendingFileRows_def findOrCreate_def, (intro calm_rules void_news)+)

lemma calm_reads [calm_rules]:
  "calm (getBalance E e l)" "calm (validateAvailability E e l n)"
proof -
  have hydrate: "calm (hydrate E e l)"
  proof -
    have "calm (case x of HcmUnavailableError _ \<Rightarrow> return None | _ \<Rightarrow> throw x)" for x :: exception
      by (cases x) (simp_all add: calm_rules)
    then show ?thesis unfolding hydrate_def findBalance_def by (intro calm_rules)
  qed
  show read: "calm (getBalance E e l)"
    unfolding getBalance_def findBalance_def by (intro calm_rules hydrate)
  show "calm (validateAvailability E e l n)"
    unfolding validateAvailability_def by (intro calm_rules read)
qed

lemma calm_submit [calm_rules]: "calm (submit_locked E e l s d key)"
  unfolding submit_locked_def submit_fresh_def create_and_reserve_def findByIdempotencyKey_def findOverlapping_def
    lift_result_def findRequest_def
  by (intro calm_rules)

lemma calm_approve [calm_rules]: "calm (approve_locked E i)"
proof -
  have "calm (case x of HcmUnavailableError _ \<Rightarrow> return None | _ \<Rightarrow> throw x)" for x :: exception
    by (cases x) (simp_all add: calm_rules)
  then show ?thesis
    unfolding approve_locked_def refresh_from_hcm_def release_and_reject_def commit_and_enqueue_def findRequest_def Let_def
    by (intro calm_rules)
qed

lemma calm_settle [calm_rules]: "calm (reject_locked i)" "calm (cancel_locked E i)" "calm (expire i)" "calm (expire_one r)"
  unfolding reject_locked_def cancel_locked_def cancel_effect_def restore_and_reverse_def restore_and_void_def
    findFileRow_def expire_one_def expire_def findRequest_def Let_def
  by (intro calm_rules)+

lemma calm_batch [calm_rules]:
  "calm (sequence_guard corpus)" "calm (reconcile_entry E asOf entry)" "calm (transaction (write_db (log_batch b)))"
  unfolding sequence_guard_def reconcile_entry_def reconcileBalance_def findOrCreate_def check_date_def Let_def
  by (intro calm_rules still_outbox_news; simp add: log_batch_def)+

lemma calm_begin [calm_rules]: "calm (begin_attempt i)"
  unfolding begin_attempt_def findOutbox_def findRequest_def
  by (intro calm_rules) simp_all

section \<open>The dispatcher enters the outbox's commands\<close>

text \<open>From \<open>w\<close> to \<open>w'\<close> the books gain nothing but commands of the outbox, and what is newly recorded as sent is in them.\<close>

definition advances :: "'h world \<Rightarrow> 'h world \<Rightarrow> bool" where
  "advances w w' = (\<forall>L. books L (hcm w) \<longrightarrow> (\<exists>L'. books L' (hcm w') \<and> set L \<subseteq> set L'
     \<and> set L' \<subseteq> set L \<union> commands (db w) \<and> sent_keys (db w') \<subseteq> sent_keys (db w) \<union> keys_of L'))"

lemma advances_refl [intro]: "hcm w' = hcm w \<Longrightarrow> sent_keys (db w') \<subseteq> sent_keys (db w) \<Longrightarrow> advances w w'"
  by (auto simp: advances_def)

lemma calm_advances: "calm m \<Longrightarrow> advances w (snd (m w))"
  unfolding calm_def advances_def by (metis Un_upper1 le_supI1 order_refl)

lemma begun_row:
  assumes "begin_attempt i w = (Ok (Some (row, req)), w')"
  shows "(operation row, payload row) \<in> commands (db w)" "o_status row = OutboxStatus.PENDING"
proof -
  obtain x where "List.find (\<lambda>y. o_id y = i) (outbox (db w)) = Some x" "row = x\<lparr>attempts := attempts x + 1\<rparr>"
    "o_status x = OutboxStatus.PENDING"
    using assms
    by (auto simp: begin_attempt_def transaction_def findOutbox_def findRequest_def andThen_def query_apply return_apply
        split: option.splits prod.splits outcome.splits if_splits)
  then show "(operation row, payload row) \<in> commands (db w)" "o_status row = OutboxStatus.PENDING"
    by (auto simp: commands_def dest: find_Some_in)
qed

lemma attempt_result:
  "\<exists>v. hcm_attempt E x w = (Ok v, w\<lparr>hcm := snd (hcm_write E x (hcm w))\<rparr>)
     \<and> (v \<noteq> None \<longrightarrow> (\<exists>a. fst (hcm_write E x (hcm w)) = Inr a \<and> ok a))"
  by (cases "hcm_write E x (hcm w)"; cases "fst (hcm_write E x (hcm w))"; cases "operation x")
    (auto simp: hcm_attempt_def hcm_write_def try_catch_def andThen_def call_hcm_def now_apply return_apply)

lemma success_news:
  "hcm (snd (record_success row req t w)) = hcm w
   \<and> sent_keys (db (snd (record_success row req t w))) \<subseteq> insert (c_idempotencyKey (payload row)) (sent_keys (db w))"
proof -
  have "sent_keys (set_outbox (row\<lparr>o_status := SENT\<rparr>) d) \<subseteq> insert (c_idempotencyKey (payload row)) (sent_keys d)" for d
    by (auto simp: sent_keys_def set_outbox_def upsert_by_def in_set_update_where split: if_splits)
  moreover have "sent_keys (set_request r d) = sent_keys d" for r d
    by (simp add: sent_keys_def set_request_def)
  ultimately show ?thesis
    by (simp add: record_success_def save_outbox_def save_request_def write_db_def andThen_def Let_def subset_insertI
        split: save_fault.splits)
qed

lemma finish_news:
  assumes "o_status row \<noteq> SENT"
  shows "(\<forall>L. books L (hcm w) \<longrightarrow> books L (hcm (snd (finish_attempt E row req v w))))
   \<and> sent_keys (db (snd (finish_attempt E row req v w))) \<subseteq>
       (if v = None then {} else {c_idempotencyKey (payload row)}) \<union> sent_keys (db w)"
proof (cases v)
  case None
  have "calm (transaction (record_failure E row req))"
    unfolding record_failure_def by (intro calm_rules) (use assms in simp_all)
  then show ?thesis using None by (simp add: finish_attempt_def calm_def)
next
  case (Some t)
  have "hcm (snd (transaction m w)) = hcm (snd (m w))" "db (snd (transaction m w)) \<in> {db w, db (snd (m w))}" for m :: "(unit, 'h) svc"
    by (auto simp: transaction_def split: prod.splits outcome.splits)
  from this[of "record_success row req t"] show ?thesis
    using Some success_news[of row req t w] by (auto simp: finish_attempt_def)
qed

lemma dispatch_locked_advances: "advances w (snd (dispatch_locked E i w))"
proof -
  obtain b w1 where b: "begin_attempt i w = (b, w1)" by (cases "begin_attempt i w")
  have start: "advances w w1" using calm_advances[OF calm_begin, of w i] b by simp
  show ?thesis
  proof (cases "\<exists>row req. b = Ok (Some (row, req))")
    case False
    then have "snd (dispatch_locked E i w) = w1"
      using b by (cases b) (auto simp: dispatch_locked_def andThen_def return_apply split: option.splits)
    with start show ?thesis by simp
  next
    case True
    then obtain row req where row: "begin_attempt i w = (Ok (Some (row, req)), w1)" using b by blast
    let ?h = "snd (hcm_write E row (hcm w1))"
    obtain v where v: "hcm_attempt E row w1 = (Ok v, w1\<lparr>hcm := ?h\<rparr>)"
      "v \<noteq> None \<longrightarrow> (\<exists>a. fst (hcm_write E row (hcm w1)) = Inr a \<and> ok a)"
      using attempt_result[of row w1] by blast
    let ?w = "snd (finish_attempt E row req v (w1\<lparr>hcm := ?h\<rparr>))"
    have run: "snd (dispatch_locked E i w) = ?w"
      using v(1) row by (simp add: dispatch_locked_def andThen_def)
    have news: "\<forall>L. books L ?h \<longrightarrow> books L (hcm ?w)" "sent_keys (db ?w) \<subseteq> (if v = None then {} else {c_idempotencyKey (payload row)}) \<union> sent_keys (db w1)"
      using finish_news[of row "w1\<lparr>hcm := ?h\<rparr>" req v] begun_row(2)[OF row] by simp_all
    show ?thesis
      unfolding run advances_def
    proof (intro allI impI)
      fix L assume "books L (hcm w)"
      then have "books L (hcm w1)" "sent_keys (db w1) \<subseteq> sent_keys (db w)"
        using calm_begin[of i, unfolded calm_def, THEN spec, of w] row by simp_all
      moreover from write_enters[OF this(1), of row] obtain L' where "books L' ?h" "set L \<subseteq> set L'"
        "set L' \<subseteq> insert (operation row, payload row) (set L)"
        "\<forall>a. fst (hcm_write E row (hcm w1)) = Inr a \<longrightarrow> ok a \<longrightarrow> c_idempotencyKey (payload row) \<in> keys_of L'"
        by blast
      ultimately show "\<exists>L'. books L' (hcm ?w) \<and> set L \<subseteq> set L' \<and> set L' \<subseteq> set L \<union> commands (db w)
          \<and> sent_keys (db ?w) \<subseteq> sent_keys (db w) \<union> keys_of L'"
        using news v(2) begun_row(1)[OF row] by (intro exI[of _ L']) (auto split: if_splits)
    qed
  qed
qed

lemma dispatch_advances: "advances w (snd (dispatchOne E i w))"
proof -
  have locked: "advances w (snd (runExclusive k (dispatch_locked E i) w))" for k
    using dispatch_locked_advances[of "w\<lparr>held := k # held w\<rparr>" i] exclusive_world[of k "dispatch_locked E i" w]
    by (auto simp: advances_def)
  show ?thesis
    using locked
    by (auto simp: dispatchOne_def findOutbox_def findRequest_def andThen_query return_apply intro: advances_refl split: option.splits)
qed

lemma unit_advances:
  assumes "unit_step E w w'"
  shows "advances w w'"
  using assms
proof cases
  case (dispatch i)
  then show ?thesis using dispatch_advances by simp
qed (simp_all, (rule calm_advances, intro calm_rules)+)

lemma step_advances:
  assumes "ledger_step E outside w w'"
  shows "advances w w'"
  using assms
proof cases
  case act
  then show ?thesis by (rule unit_advances)
next
  case (hcm h)
  then show ?thesis using outside_keeps by (auto simp: advances_def intro!: exI)
next
  case (crash_before_call i)
  then show ?thesis using calm_advances[OF calm_begin, of w i] by (simp add: advances_def)
next
  case (crash_after_call i row req w1)
  have b: "\<And>L. books L (hcm w) \<Longrightarrow> books L (hcm w1)" "sent_keys (db w1) \<subseteq> sent_keys (db w)"
    using calm_begin[of i, unfolded calm_def, THEN spec, of w] crash_after_call(2) by simp_all
  show ?thesis
    unfolding advances_def
  proof (intro allI impI)
    fix L assume "books L (hcm w)"
    from write_enters[OF b(1)[OF this], of row] obtain L' where
      "books L' (snd (hcm_write E row (hcm w1)))" "set L \<subseteq> set L'" "set L' \<subseteq> insert (operation row, payload row) (set L)"
      by blast
    then show "\<exists>L'. books L' (hcm w') \<and> set L \<subseteq> set L' \<and> set L' \<subseteq> set L \<union> commands (db w)
        \<and> sent_keys (db w') \<subseteq> sent_keys (db w) \<union> keys_of L'"
      using b(2) begun_row(1)[OF crash_after_call(2)] attempt_result[of row w1] crash_after_call(1)
      by (intro exI[of _ L']) auto
  qed
next
  case (crash_in_approval s)
  have "advances w (snd (applyHcmSnapshot s w))" by (intro calm_advances calm_rules)
  then show ?thesis using crash_in_approval by (simp add: advances_def)
qed (auto intro: advances_refl)

section \<open>Along every run\<close>

definition on_the_books :: "'h world \<Rightarrow> bool" where
  "on_the_books w = (\<exists>L. books L (hcm w) \<and> sent_keys (db w) \<subseteq> keys_of L \<and> set L \<subseteq> commands (db w))"

lemma lifecycle_commands: "lifecycle d d' \<Longrightarrow> commands d \<subseteq> commands d'"
  unfolding lifecycle_def all_evolve_def commands_def row_evolves_def by (auto simp: image_iff) metis

lemma books_step:
  assumes "on_the_books w" "ledger_step E outside w w'" "world_inv E w" "inj (uuid E)"
  shows "on_the_books w'"
proof -
  have "safe E False (db w) w" using assms(3) by (simp add: safe_def)
  from system_step_safe[OF ledger_step_system[OF assms(2)] this assms(4)]
  have grow: "commands (db w) \<subseteq> commands (db w')"
    by (auto simp: safe_def evolves_def intro: lifecycle_commands[THEN subsetD])
  obtain L where L: "books L (hcm w)" "sent_keys (db w) \<subseteq> keys_of L" "set L \<subseteq> commands (db w)"
    using assms(1) by (auto simp: on_the_books_def)
  then obtain L' where "books L' (hcm w')" "set L \<subseteq> set L'" "set L' \<subseteq> set L \<union> commands (db w)"
    "sent_keys (db w') \<subseteq> sent_keys (db w) \<union> keys_of L'"
    using step_advances[OF assms(2)] unfolding advances_def by blast
  moreover from this(2) have "keys_of L \<subseteq> keys_of L'" by (auto simp: keys_of_def)
  ultimately show ?thesis
    using L grow unfolding on_the_books_def by (intro exI[of _ L']) blast
qed

lemma books_steps:
  assumes "ledger_steps E outside w0 w" "starts w0" "books [] (hcm w0)" "inj (uuid E)"
  shows "on_the_books w \<and> reachable E w"
  using assms(1,2,3)
proof (induction rule: ledger_steps.induct)
  case (none w)
  have "on_the_books w"
    unfolding on_the_books_def using none by (intro exI[of _ "[]"]) (simp add: sent_keys_def starts_def empty_db_def)
  then show ?case using none steps.none unfolding reachable_def by blast
next
  case (more w w' w'')
  then show ?case
    using books_step[OF _ more.hyps(2) reachable_inv[OF _ assms(4)] assms(4)] reachable_steps
      steps.more[OF steps.none ledger_step_system[OF more.hyps(2)]] by blast
qed

end

end
