(* ===== verification/Wire_Ledger.thy ===== *)
theory Wire_Ledger
  imports Hcm_Ledger Wire
begin

text \<open>
  The whole chain: the service, its HTTP client, a network that loses requests and answers, and the
  mock HCM server. The server's books are the commands it has applied, each key once; they determine its
  balances and its idempotency store. With the results of \<open>Hcm_Ledger\<close> this gives the end-to-end
  property: what HCM has deducted is what the outbox sent, and when nothing is left to send, HCM's
  balance is the seeded one less the approved requests.
\<close>

section \<open>The service on the wire\<close>

definition serve_read :: "string \<Rightarrow> http_request \<Rightarrow> mock_store \<Rightarrow> (http_error + hcm_balance) \<times> mock_store" where
  "serve_read base q s =
     (if q_url q = base @ ''/hcm/balance'' then
        (case mock_getBalance (q_employeeId q) (q_locationId q) s of
           (Inr b, s') \<Rightarrow> (Inr b, s') | (Inl e, s') \<Rightarrow> (Inl (http_exception e), s'))
      else (Inl (Axios_response 404 None), s))"

definition wire_get :: "string \<Rightarrow> http_request \<Rightarrow> wire \<Rightarrow> (http_error + hcm_balance) \<times> wire" where
  "wire_get base q n =
     (let (r, s) = serve_read base q (server n); n' = n\<lparr>fates := tl (fates n)\<rparr>
      in case fate_of n 0 of
           Request_lost \<Rightarrow> (Inl (Axios_network (Some ''ECONNRESET'')), n')
         | Answer_lost \<Rightarrow> (Inl (Axios_network (Some ''ECONNRESET'')), n'\<lparr>server := s\<rparr>)
         | Arrives \<Rightarrow> (r, n'\<lparr>server := s\<rparr>))"

definition wire_http :: "(string \<Rightarrow> bool) \<Rightarrow> string \<Rightarrow> int \<Rightarrow> int \<Rightarrow> wire http_env" where
  "wire_http isDateString base n ms =
     \<lparr>hcmBaseUrl = base, clientRetryMaxAttempts = n, hcmRetryBackoffMs = ms,
      http_get = wire_get base, http_post = wire_post isDateString base\<rparr>"

text \<open>A service whose HCM is this client; identifiers, limits and the rest are those of \<open>E\<close>.\<close>

definition wired :: "wire http_env \<Rightarrow> wire http_state env \<Rightarrow> wire http_state env" where
  "wired C E = E\<lparr>hcm_getBalance := (\<lambda>e l. client_getBalance C e l (Some False)),
     hcm_fileTimeOff := client_fileTimeOff C, hcm_reverseTimeOff := client_reverseTimeOff C\<rparr>"

section \<open>The server's books\<close>

text \<open>The scenarios in which the server honours keys, deducts what it acknowledges and leaves balances alone on reads.\<close>

definition honest :: "HcmScenario set" where
  "honest = {Correct, Timeout, Divergent_batch, Duplicate_delivery}"

definition account_key :: "hcm_command \<Rightarrow> string" where
  "account_key c = storeKey (c_employeeId c) (c_locationId c)"

definition effect :: "sent_command \<Rightarrow> int" where
  "effect p = (case fst p of FILE \<Rightarrow> c_days (snd p) | REVERSE \<Rightarrow> - c_days (snd p))"

definition taken :: "sent_command list \<Rightarrow> string \<Rightarrow> int" where
  "taken L k = sum_list (map effect (filter (\<lambda>p. account_key (snd p) = k) L))"

definition server_books :: "(string \<Rightarrow> int option) \<Rightarrow> sent_command list \<Rightarrow> mock_store \<Rightarrow> bool" where
  "server_books seed L s =
     (activeScenario s \<in> honest \<and> distinct (map (\<lambda>p. c_idempotencyKey (snd p)) L)
      \<and> (\<forall>k. mock_stored k s = Some True \<longleftrightarrow> k \<in> keys_of L)
      \<and> (\<forall>k d. seed k = Some d \<longrightarrow>
          map_option be_balance (map_of (balanceStore s) k) = Some (d - taken L k)))"

text \<open>\<open>enters p L L'\<close>: the books gain at most \<open>p\<close>.\<close>

definition enters :: "sent_command \<Rightarrow> sent_command list \<Rightarrow> sent_command list \<Rightarrow> bool" where
  "enters p L L' = (set L \<subseteq> set L' \<and> set L' \<subseteq> insert p (set L))"

lemma enters_refl [simp]: "enters p L L"
  by (auto simp: enters_def)

lemma enters_trans: "enters p A B \<Longrightarrow> enters p B C \<Longrightarrow> enters p A C"
  by (auto simp: enters_def)

lemma taken_snoc: "taken (L @ [p]) k = taken L k + (if account_key (snd p) = k then effect p else 0)"
  by (simp add: taken_def)

lemma keys_snoc: "keys_of (L @ [p]) = insert (c_idempotencyKey (snd p)) (keys_of L)"
  by (auto simp: keys_of_def)

lemma honest_dedups: "activeScenario s \<in> honest \<Longrightarrow> should_dedup s \<and> activeScenario s \<noteq> Silent_insufficient
    \<and> activeScenario s \<noteq> Mutate_between_calls"
  by (auto simp: honest_def should_dedup_def)

lemma stored_remember: "should_dedup s \<Longrightarrow> mock_stored k' (remember k v t s) = (if k' = k then Some v else mock_stored k' s)"
  by (simp add: mock_stored_def remember_def)

lemma stored_put [simp]: "mock_stored k (put_entry k' e s) = mock_stored k s"
  by (simp add: mock_stored_def)

text \<open>A new verdict under a fresh key, with the balances as \<open>taken\<close> says.\<close>

lemma books_record:
  assumes "server_books seed L s" "mock_stored (c_idempotencyKey c) s = None" "activeScenario s' = activeScenario s"
    and "\<And>k. mock_stored k s' = (if k = c_idempotencyKey c then Some v else mock_stored k s)"
    and "\<And>k d. seed k = Some d \<Longrightarrow> map_option be_balance (map_of (balanceStore s') k)
        = Some (d - taken (if v then L @ [(op, c)] else L) k)"
  shows "server_books seed (if v then L @ [(op, c)] else L) s'"
proof -
  have fresh: "c_idempotencyKey c \<notin> keys_of L" using assms(1,2) unfolding server_books_def by (metis option.distinct(1))
  have "distinct (map (\<lambda>p. c_idempotencyKey (snd p)) (if v then L @ [(op, c)] else L))"
    using fresh assms(1) by (simp add: server_books_def keys_of_def)
  moreover have "\<forall>k. mock_stored k s' = Some True \<longleftrightarrow> k \<in> keys_of (if v then L @ [(op, c)] else L)"
    using assms(1) fresh by (auto simp: server_books_def assms(4) keys_snoc)
  ultimately show ?thesis using assms(1,3,5) by (simp add: server_books_def)
qed

lemma books_balance:
  assumes "server_books seed L s" "seed k = Some d"
  shows "map_option be_balance (map_of (balanceStore s) k) = Some (d - taken L k)"
  using assms by (simp add: server_books_def)

text \<open>An applied command: its account moves by its effect, if the server has it.\<close>

lemma books_apply:
  assumes b: "server_books seed L s" and new: "mock_stored (c_idempotencyKey c) s = None"
    and s': "s' = remember (c_idempotencyKey c) True t
      (case map_of (balanceStore s) (account_key c) of
         None \<Rightarrow> s
       | Some entry \<Rightarrow> put_entry (account_key c)
           (entry\<lparr>be_balance := be_balance entry - effect (op, c), be_asOf := nowISO s\<rparr>) s)"
  shows "server_books seed (L @ [(op, c)]) s'"
proof -
  have d: "should_dedup s" using b honest_dedups[of s] by (simp add: server_books_def)
  have bal: "map_option be_balance (map_of (balanceStore s') k) = Some (m - taken (L @ [(op, c)]) k)"
    if "seed k = Some m" for k m
    using books_balance[OF b that] unfolding s'
    by (cases "map_of (balanceStore s) (account_key c)") (auto simp: taken_snoc)
  have "server_books seed (if True then L @ [(op, c)] else L) s'"
    by (rule books_record[OF b new])
      (use d bal in \<open>auto simp: s' stored_remember split: option.splits\<close>)
  then show ?thesis by simp
qed

lemma file_enters:
  assumes b: "server_books seed L s"
  shows "\<exists>L'. server_books seed L' (snd (file_accepted (c_idempotencyKey c) c s)) \<and> enters (FILE, c) L L'
    \<and> (ok (fst (file_accepted (c_idempotencyKey c) c s)) \<longrightarrow> c_idempotencyKey c \<in> keys_of L')"
proof (cases "mock_stored (c_idempotencyKey c) s")
  case (Some v)
  have "should_dedup s" using b honest_dedups by (simp add: server_books_def)
  from file_replays[OF this Some, of c] show ?thesis
    using b Some by (intro exI[of _ L]) (auto simp: server_books_def)
next
  case None
  let ?k = "c_idempotencyKey c" and ?a = "account_key c"
  have d: "should_dedup s" "activeScenario s \<noteq> Silent_insufficient"
    using b honest_dedups[of s] by (simp_all add: server_books_def)
  have prior: "prior_result ?k s = None" using None d(1) by (simp add: prior_result_def mock_stored_def)
  show ?thesis
  proof (cases "\<exists>entry. map_of (balanceStore s) ?a = Some entry \<and> c_days c \<le> be_balance entry")
    case False
    then have "\<exists>r. file_accepted ?k c s = (r, remember ?k False [] s) \<and> \<not> ok r"
      using d prior by (auto simp: file_accepted_def Let_def account_key_def refused_def split: option.splits)
    moreover have "server_books seed (if False then L @ [(FILE, c)] else L) (remember ?k False [] s)"
      by (rule books_record[OF b None]) (use b d in \<open>simp_all add: stored_remember server_books_def\<close>)
    ultimately show ?thesis by (intro exI[of _ L]) auto
  next
    case True
    then obtain entry where e: "map_of (balanceStore s) ?a = Some entry" "c_days c \<le> be_balance entry" by blast
    let ?s = "remember ?k True (nowISO s) (put_entry ?a
        (entry\<lparr>be_balance := be_balance entry - c_days c, be_asOf := nowISO s\<rparr>) s)"
    have "file_accepted ?k c s = (acked_now s, ?s)"
      using d prior e by (simp add: file_accepted_def Let_def account_key_def)
    moreover have "server_books seed (L @ [(FILE, c)]) ?s"
      by (rule books_apply[OF b None]) (simp add: e effect_def)
    ultimately show ?thesis
      by (intro exI[of _ "L @ [(FILE, c)]"]) (auto simp: keys_snoc enters_def)
  qed
qed

lemma reverse_enters:
  assumes b: "server_books seed L s"
  shows "\<exists>L'. server_books seed L' (snd (reverse_accepted (c_idempotencyKey c) c s)) \<and> enters (REVERSE, c) L L'
    \<and> (ok (fst (reverse_accepted (c_idempotencyKey c) c s)) \<longrightarrow> c_idempotencyKey c \<in> keys_of L')"
proof (cases "mock_stored (c_idempotencyKey c) s")
  case (Some v)
  have "should_dedup s" using b honest_dedups by (simp add: server_books_def)
  from reverse_replays[OF this Some, of c] show ?thesis
    using b Some by (intro exI[of _ L]) (auto simp: server_books_def)
next
  case None
  let ?k = "c_idempotencyKey c" and ?a = "account_key c"
  have d: "should_dedup s" using b honest_dedups[of s] by (simp add: server_books_def)
  have prior: "prior_result ?k s = None" using None d by (simp add: prior_result_def mock_stored_def)
  have "server_books seed (L @ [(REVERSE, c)]) (snd (reverse_accepted ?k c s))"
    by (rule books_apply[OF b None, where t = "nowISO s"])
      (simp add: reverse_accepted_def prior Let_def effect_def account_key_def split: option.split)
  then show ?thesis
    by (intro exI[of _ "L @ [(REVERSE, c)]"]) (auto simp: keys_snoc enters_def)
qed

section \<open>Over the network\<close>

definition path_of :: "OutboxOperation \<Rightarrow> string" where
  "path_of op = (case op of FILE \<Rightarrow> ''/hcm/timeoff'' | REVERSE \<Rightarrow> ''/hcm/timeoff/reverse'')"

definition answers_ok :: "http_error + hcm_result \<Rightarrow> bool" where
  "answers_ok r = (case r of Inl _ \<Rightarrow> False | Inr x \<Rightarrow> ok x)"

lemma serve_write_enters:
  assumes b: "server_books seed L s"
    and q: "q = \<lparr>p_url = base @ path_of op, p_body = c, p_idempotencyKey = c_idempotencyKey c\<rparr>"
  shows "\<exists>L'. server_books seed L' (snd (serve_write isDateString base q s)) \<and> enters (op, c) L L'
    \<and> (answers_ok (fst (serve_write isDateString base q s)) \<longrightarrow> c_idempotencyKey c \<in> keys_of L')"
proof (cases "command_dto_valid isDateString c \<and> activeScenario s \<noteq> Timeout")
  case False
  then have "\<exists>e. serve_write isDateString base q s = (Inl e, s)"
    by (cases op) (auto simp: serve_write_def q path_of_def mock_fileTimeOff_def mock_reverseTimeOff_def)
  then show ?thesis using b by (intro exI[of _ L]) (auto simp: answers_ok_def)
next
  case True
  then have "c_idempotencyKey c \<noteq> []" by (simp add: command_dto_valid_def)
  then have "serve_write isDateString base q s =
      map_prod Inr id (case op of FILE \<Rightarrow> file_accepted (c_idempotencyKey c) c s | REVERSE \<Rightarrow> reverse_accepted (c_idempotencyKey c) c s)"
    using True
    by (cases op) (simp_all add: serve_write_def q path_of_def mock_fileTimeOff_def mock_reverseTimeOff_def split: prod.split)
  then show ?thesis
    using file_enters[OF b, of c] reverse_enters[OF b, of c]
    by (cases op) (simp_all add: answers_ok_def)
qed

text \<open>A reply that the client takes for success comes from a write in the books.\<close>

definition body_ok :: "http_error + post_body \<Rightarrow> bool" where
  "body_ok r = (case read_body r of Inl _ \<Rightarrow> False | Inr (okField, _, _) \<Rightarrow> okField \<noteq> Some False)"

lemma wire_post_enters:
  assumes b: "server_books seed L (server n)"
    and q: "q = \<lparr>p_url = base @ path_of op, p_body = c, p_idempotencyKey = c_idempotencyKey c\<rparr>"
  shows "\<exists>L'. server_books seed L' (server (snd (wire_post isDateString base q n))) \<and> enters (op, c) L L'
    \<and> (body_ok (fst (wire_post isDateString base q n)) \<longrightarrow> c_idempotencyKey c \<in> keys_of L')"
proof -
  obtain r s where rs: "serve_write isDateString base q (server n) = (r, s)"
    by (cases "serve_write isDateString base q (server n)")
  obtain L' where L': "server_books seed L' s" "enters (op, c) L L'" "answers_ok r \<longrightarrow> c_idempotencyKey c \<in> keys_of L'"
    using serve_write_enters[OF b q, of isDateString] rs by auto
  show ?thesis
  proof (cases "fate_of n 0")
    case Arrives
    then show ?thesis
      using L' by (intro exI[of _ L'])
        (cases r, auto simp: wire_post_def rs body_ok_def read_body_def answers_ok_def)
  next
    case Request_lost
    then show ?thesis
      using b by (intro exI[of _ L]) (simp add: wire_post_def rs body_ok_def read_body_def)
  next
    case Answer_lost
    then show ?thesis
      using L' by (intro exI[of _ L']) (simp add: wire_post_def rs body_ok_def read_body_def)
  qed
qed

definition wire_books :: "(string \<Rightarrow> int option) \<Rightarrow> sent_command list \<Rightarrow> wire http_state \<Rightarrow> bool" where
  "wire_books seed L st = server_books seed L (server (net st))"

lemma post_loop_enters:
  assumes q: "q = \<lparr>p_url = hcmBaseUrl C @ path_of op, p_body = c, p_idempotencyKey = c_idempotencyKey c\<rparr>"
    and C: "http_post C = wire_post isDateString (hcmBaseUrl C)"
  shows "wire_books seed L st \<Longrightarrow> \<exists>L'. wire_books seed L' (snd (post_loop C q a hint st)) \<and> enters (op, c) L L'
    \<and> (ok (fst (post_loop C q a hint st)) \<longrightarrow> c_idempotencyKey c \<in> keys_of L')"
proof (induction "nat (clientRetryMaxAttempts C - a)" arbitrary: a hint st L rule: less_induct)
  case less
  show ?case
  proof (cases "a < clientRetryMaxAttempts C")
    case False
    then show ?thesis using less.prems by (intro exI[of _ L]) (simp add: post_loop.simps[of C q a])
  next
    case True
    obtain r n where rn: "wire_post isDateString (hcmBaseUrl C) q (net st) = (r, n)"
      by (cases "wire_post isDateString (hcmBaseUrl C) q (net st)")
    obtain L1 where L1: "server_books seed L1 (server n)" "enters (op, c) L L1"
      "body_ok r \<longrightarrow> c_idempotencyKey c \<in> keys_of L1"
      using wire_post_enters[of seed L "net st" q "hcmBaseUrl C" op c isDateString] less.prems q rn
      by (auto simp: wire_books_def)
    obtain st1 where st1: "do_post C q (pause C a st) = (r, st1)" "net st1 = n"
      using rn by (simp add: do_post_def C)
    show ?thesis
    proof (cases "read_body r")
      case (Inr x)
      then show ?thesis
        using True st1 L1
        by (intro exI[of _ L1])
          (cases x, auto simp: post_loop.simps[of C q a] wire_books_def body_ok_def)
    next
      case (Inl err)
      show ?thesis
      proof (cases "isRetryable err")
        case False
        then show ?thesis
          using True st1 L1 Inl by (intro exI[of _ L1]) (simp add: post_loop.simps[of C q a] wire_books_def)
      next
        case retry: True
        have "post_loop C q a hint st = post_loop C q (a + 1) (extractErrorHint err) st1"
          using True st1 Inl retry by (simp add: post_loop.simps[of C q a])
        moreover have "wire_books seed L1 st1" using L1(1) st1(2) by (simp add: wire_books_def)
        moreover have "nat (clientRetryMaxAttempts C - (a + 1)) < nat (clientRetryMaxAttempts C - a)"
          using True by simp
        ultimately show ?thesis
          using less.hyps[of "a + 1" L1 st1 "extractErrorHint err"] enters_trans[OF L1(2)] by auto
      qed
    qed
  qed
qed

lemma serve_read_keeps:
  assumes b: "server_books seed L s"
  shows "server_books seed L (snd (serve_read base q s))"
proof -
  have "activeScenario s \<noteq> Mutate_between_calls" using b honest_dedups[of s] by (simp add: server_books_def)
  then have "snd (mock_getBalance e l s) = s \<or> (map_of (balanceStore s) (storeKey e l) = None
      \<and> (\<exists>entry. snd (mock_getBalance e l s) = put_entry (storeKey e l) entry s))" for e l
    by (cases "map_of (balanceStore s) (storeKey e l)") (auto simp: mock_getBalance_def Let_def)
  moreover have "snd (serve_read base q s) \<in> {s, snd (mock_getBalance (q_employeeId q) (q_locationId q) s)}"
    by (simp add: serve_read_def split: prod.split sum.split)
  ultimately have "snd (serve_read base q s) = s \<or>
      (map_of (balanceStore s) (storeKey (q_employeeId q) (q_locationId q)) = None
       \<and> (\<exists>entry. snd (serve_read base q s) = put_entry (storeKey (q_employeeId q) (q_locationId q)) entry s))"
    by (metis insertE singletonD)
  then show ?thesis
  proof (elim disjE conjE exE)
    fix entry assume none: "map_of (balanceStore s) (storeKey (q_employeeId q) (q_locationId q)) = None"
      and put: "snd (serve_read base q s) = put_entry (storeKey (q_employeeId q) (q_locationId q)) entry s"
    have "seed (storeKey (q_employeeId q) (q_locationId q)) = None"
      using books_balance[OF b] none by (metis not_None_eq option.map_disc_iff)
    then show ?thesis using b by (auto simp: put server_books_def)
  qed (use b in simp)
qed

lemma wire_get_keeps: "server_books seed L (server n) \<Longrightarrow> server_books seed L (server (snd (wire_get base q n)))"
  using serve_read_keeps[of seed L "server n" base q]
  by (cases "serve_read base q (server n)"; cases "fate_of n 0") (simp_all add: wire_get_def)

text \<open>Between the calls the network's script, the clocks and the scenario may change, the books not.\<close>

definition wire_outside :: "wire http_state \<Rightarrow> wire http_state \<Rightarrow> bool" where
  "wire_outside st st' \<longleftrightarrow> balanceStore (server (net st')) = balanceStore (server (net st))
     \<and> idempotencyStore (server (net st')) = idempotencyStore (server (net st))
     \<and> activeScenario (server (net st')) \<in> honest"

lemma wired_write:
  "hcm_write (wired C E) x h = map_prod Inr id
     (post_loop C \<lparr>p_url = hcmBaseUrl C @ path_of (operation x), p_body = payload x,
                   p_idempotencyKey = c_idempotencyKey (payload x)\<rparr> 0 ''unreachable'' h)"
  by (cases "operation x") (simp_all add: hcm_write_def wired_def client_fileTimeOff_def client_reverseTimeOff_def
      postWithRetry_def path_of_def split: prod.split)

lemma fast_read_net: "\<exists>q. net (snd (client_getBalance C e l (Some False) st)) = snd (http_get C q (net st))"
proof -
  let ?q = "\<lparr>q_url = hcmBaseUrl C @ ''/hcm/balance'', q_employeeId = e, q_locationId = l, q_timeout = Some NO_RETRY_TIMEOUT_MS\<rparr>"
  obtain r n where "http_get C ?q (net st) = (r, n)" by (cases "http_get C ?q (net st)")
  then show ?thesis
    by (intro exI[of _ ?q]) (cases r, simp_all add: client_getBalance_def do_get_def Let_def)
qed

lemma wired_read_keeps:
  assumes "wire_books seed L h" "http_get C = wire_get base"
  shows "wire_books seed L (snd (hcm_getBalance (wired C E) e l h))"
proof -
  obtain q where "net (snd (client_getBalance C e l (Some False) h)) = snd (http_get C q (net h))"
    using fast_read_net by blast
  then show ?thesis using assms wire_get_keeps[of seed L "net h" base q] by (simp add: wire_books_def wired_def)
qed

lemma wired_write_enters:
  assumes "wire_books seed L h" "http_post C = wire_post isDateString (hcmBaseUrl C)"
  shows "\<exists>L'. wire_books seed L' (snd (hcm_write (wired C E) x h)) \<and> set L \<subseteq> set L'
      \<and> set L' \<subseteq> insert (operation x, payload x) (set L)
      \<and> (\<forall>a. fst (hcm_write (wired C E) x h) = Inr a \<longrightarrow> ok a \<longrightarrow> c_idempotencyKey (payload x) \<in> keys_of L')"
  using post_loop_enters[OF refl assms(2,1), of "operation x" "payload x" 0 "''unreachable''"]
  unfolding enters_def wired_write fst_map_prod snd_map_prod id_apply by auto

interpretation wire: hcm_books "wired (wire_http isDateString base n ms) E" "wire_books seed" wire_outside
  for isDateString base n ms E seed
proof (rule hcm_books.intro, goal_cases)
  case (1 L h e l)
  then show ?case by (rule wired_read_keeps) (simp add: wire_http_def)
next
  case (2 L h x)
  then show ?case by (rule wired_write_enters) (simp add: wire_http_def)
next
  case (3 L h h')
  then show ?case by (simp add: wire_books_def wire_outside_def server_books_def mock_stored_def)
qed

section \<open>End to end\<close>

text \<open>HCM's days for one of its accounts, and a server that has answered nothing yet.\<close>

definition days_at_hcm :: "wire http_state world \<Rightarrow> string \<Rightarrow> int option" where
  "days_at_hcm w k = map_option be_balance (map_of (balanceStore (server (net (hcm w)))) k)"

definition fresh_server :: "wire http_state world \<Rightarrow> bool" where
  "fresh_server w \<longleftrightarrow> idempotencyStore (server (net (hcm w))) = [] \<and> activeScenario (server (net (hcm w))) \<in> honest"

lemma fresh_books: "fresh_server w \<Longrightarrow> wire_books (days_at_hcm w) [] (hcm w)"
  by (simp add: wire_books_def server_books_def fresh_server_def mock_stored_def keys_of_def taken_def days_at_hcm_def)

lemma row_command:
  assumes "reachable E w" "inj (uuid E)" "x \<in> set (outbox (db w))"
  obtains r where "r \<in> set (requests (db w))" "r_id r = aggregateId x" "row_matches r x"
    "o_idempotencyKey x = c_idempotencyKey (payload x)"
proof -
  note inv = reachable_db_inv[OF assms(1,2)]
  obtain r where r: "r \<in> set (requests (db w))" "r_id r = aggregateId x" using row_has_request[OF inv assms(3)] by blast
  have "row_matches r x" using db_invD(6)[OF inv r(1)] r(2) assms(3) by (simp add: request_ok_def rows_of_def)
  with r that show ?thesis by (simp add: row_matches_def)
qed

lemma command_key_row:
  assumes "reachable E w" "inj (uuid E)" "x \<in> set (outbox (db w))" "y \<in> set (outbox (db w))"
    and "c_idempotencyKey (payload x) = c_idempotencyKey (payload y)"
  shows "x = y"
  using outbox_keys_unique[OF assms(1-4)] row_command[OF assms(1,2,3)] row_command[OF assms(1,2,4)] assms(5) by metis

lemma books_match_outbox:
  assumes "inj (uuid E)" "C = wire_http isDateString base n ms" "starts w0" "fresh_server w0"
    and "ledger_steps (wired C E) wire_outside w0 w"
  shows "reachable (wired C E) w \<and> (\<exists>L. distinct (map (\<lambda>p. c_idempotencyKey (snd p)) L) \<and> set L \<subseteq> commands (db w)
     \<and> (\<forall>x\<in>set (outbox (db w)). o_status x = SENT \<longrightarrow> (operation x, payload x) \<in> set L)
     \<and> (\<forall>k d. days_at_hcm w0 k = Some d \<longrightarrow> days_at_hcm w k = Some (d - taken L k)))"
proof -
  have inj: "inj (uuid (wired C E))" using assms(1) by (simp add: wired_def)
  have run: "wire.on_the_books (days_at_hcm w0) w \<and> reachable (wired C E) w"
    using wire.books_steps[OF _ assms(3) fresh_books[OF assms(4)]] inj assms(2,5) by blast
  then obtain L where L: "server_books (days_at_hcm w0) L (server (net (hcm w)))"
    "sent_keys (db w) \<subseteq> keys_of L" "set L \<subseteq> commands (db w)"
    by (auto simp: wire.on_the_books_def wire_books_def)
  have "(operation x, payload x) \<in> set L" if x: "x \<in> set (outbox (db w))" "o_status x = SENT" for x
  proof -
    have "c_idempotencyKey (payload x) \<in> keys_of L" using L(2) x by (auto simp: sent_keys_def)
    then obtain p where p: "p \<in> set L" "c_idempotencyKey (snd p) = c_idempotencyKey (payload x)" by (auto simp: keys_of_def)
    then obtain y where y: "y \<in> set (outbox (db w))" "p = (operation y, payload y)" using L(3) by (auto simp: commands_def)
    then show ?thesis using command_key_row[of "wired C E" w y x] run inj x(1) p by simp
  qed
  then show ?thesis
    using run L by (intro conjI exI[of _ L]) (auto simp: server_books_def days_at_hcm_def)
qed

section \<open>When everything is settled\<close>

lemma sum_list_unique:
  fixes y :: int
  assumes "distinct (map key rs)" "r \<in> set rs"
  shows "sum_list (map (\<lambda>s. if key r = key s then y else 0) rs) = y"
  using assms
proof (induction rs)
  case (Cons s rs)
  have "sum_list (map (\<lambda>s. if key r = key s then y else 0) rs) = 0" if "key r \<notin> key ` set rs"
    using that by (induction rs) auto
  moreover have "key r \<noteq> key s" if "r \<noteq> s" using that Cons.prems by (auto intro: image_eqI[of _ key r])
  ultimately show ?case using Cons by (cases "r = s") auto
qed simp

lemma sum_list_by_owner:
  fixes f :: "'a \<Rightarrow> int"
  assumes "distinct (map key rs)" "\<forall>x\<in>set xs. \<exists>r\<in>set rs. key r = owner x"
  shows "sum_list (map f xs) = sum_list (map (\<lambda>r. sum_list (map f (filter (\<lambda>x. owner x = key r) xs))) rs)"
  using assms(2)
proof (induction xs)
  case (Cons x xs)
  obtain r where r: "r \<in> set rs" "key r = owner x" using Cons.prems by auto
  have "sum_list (map (\<lambda>r. sum_list (map f (filter (\<lambda>x. owner x = key r) (x # xs)))) rs)
      = sum_list (map (\<lambda>s. (if key r = key s then f x else 0)
          + sum_list (map f (filter (\<lambda>x. owner x = key s) xs))) rs)"
    using r(2) by (intro arg_cong[where f = sum_list] map_cong) auto
  also have "\<dots> = f x + sum_list (map f xs)"
    unfolding sum_list_addf using Cons sum_list_unique[OF assms(1) r(1), of "f x"] by simp
  finally show ?case by simp
qed simp

definition account_of_request :: "request \<Rightarrow> string" where
  "account_of_request r = storeKey (r_employeeId r) (r_locationId r)"

lemma matched_command:
  assumes "row_matches r x"
  shows "account_key (payload x) = account_of_request r"
    "effect (operation x, payload x) = (case operation x of FILE \<Rightarrow> days r | REVERSE \<Rightarrow> - days r)"
  using assms
  by (cases "operation x"; simp add: row_matches_def account_key_def account_of_request_def effect_def
      buildFileCommand_def buildReverseCommand_def)+

text \<open>What the sent rows of a request add up to.\<close>

lemma settled_request:
  assumes "request_ok r rows" "\<forall>x\<in>set rows. o_status x = SENT"
  shows "sum_list (map (\<lambda>x. effect (operation x, payload x)) rows) = (if status r = RequestStatus.APPROVED then days r else 0)"
proof -
  have "map (\<lambda>x. effect (operation x, payload x)) rows
      = map (\<lambda>p. case fst p of FILE \<Rightarrow> days r | REVERSE \<Rightarrow> - days r) (shape rows)"
    using assms(1) by (auto simp: request_ok_def shape_def matched_command)
  moreover have "\<forall>p\<in>set (shape rows). snd p = SENT" using assms(2) by (auto simp: shape_def)
  moreover have "status_shape (status r) (shape rows)" using assms(1) by (simp add: request_ok_def)
  ultimately show ?thesis by (cases "status r") (auto simp: status_shape_def)
qed

lemma settled_books:
  assumes inv: "db_inv E n d" and keys: "\<And>x y. x \<in> set (outbox d) \<Longrightarrow> y \<in> set (outbox d) \<Longrightarrow>
      c_idempotencyKey (payload x) = c_idempotencyKey (payload y) \<Longrightarrow> x = y"
    and L: "distinct (map (\<lambda>p. c_idempotencyKey (snd p)) L)" "set L \<subseteq> commands d"
      "\<forall>x\<in>set (outbox d). o_status x = SENT \<longrightarrow> (operation x, payload x) \<in> set L"
    and settled: "\<forall>x\<in>set (outbox d). account_key (payload x) = k \<longrightarrow> o_status x = SENT"
  shows "taken L k = sum_list (map days (filter (\<lambda>r. account_of_request r = k \<and> status r = RequestStatus.APPROVED) (requests d)))"
proof -
  let ?cmd = "\<lambda>x. (operation x, payload x)" and ?mine = "\<lambda>x. account_key (payload x) = k"
  let ?rows = "filter ?mine (outbox d)" and ?f = "\<lambda>x. effect (operation x, payload x)"
  have ids: "distinct (map r_id (requests d))" "distinct (outbox d)"
    using db_invD(2)[OF inv] by (auto simp: keys_distinct_def distinct_map)
  have inj: "inj_on ?cmd (set ?rows)" using keys by (auto simp: inj_on_def)
  have "set (filter (\<lambda>p. account_key (snd p) = k) L) = ?cmd ` set ?rows"
    using L(2,3) settled by (auto simp: commands_def)
  moreover have "distinct (filter (\<lambda>p. account_key (snd p) = k) L)" using L(1) by (simp add: distinct_map)
  moreover have "distinct (map ?cmd ?rows)" using inj ids(2) by (simp add: distinct_map)
  ultimately have "taken L k = sum_list (map effect (map ?cmd ?rows))"
    unfolding taken_def by (simp only: sum_list_distinct_conv_sum_set set_map)
  also have "\<dots> = sum_list (map ?f ?rows)" by (simp add: o_def)
  also have "\<dots> = sum_list (map (\<lambda>r. sum_list (map ?f (filter (\<lambda>x. aggregateId x = r_id r) ?rows))) (requests d))"
    using db_invD(4)[OF inv] by (intro sum_list_by_owner ids) (force simp: no_orphans_def)
  also have "\<dots> = sum_list (map (\<lambda>r. if account_of_request r = k \<and> status r = RequestStatus.APPROVED then days r else 0) (requests d))"
  proof (intro arg_cong[where f = sum_list] map_cong refl)
    fix r assume r: "r \<in> set (requests d)"
    have ok: "request_ok r (rows_of (r_id r) d)" using db_invD(6)[OF inv r] .
    have "filter (\<lambda>x. aggregateId x = r_id r) ?rows = (if account_of_request r = k then rows_of (r_id r) d else [])"
    proof -
      have "account_key (payload x) = account_of_request r" if "x \<in> set (rows_of (r_id r) d)" for x
        using that ok matched_command(1)[of r x] by (simp add: request_ok_def)
      then have "filter ?mine (rows_of (r_id r) d) = (if account_of_request r = k then rows_of (r_id r) d else [])"
        by (auto intro: filter_False filter_True)
      then show ?thesis by (simp add: rows_of_def conj_commute)
    qed
    moreover have "\<forall>x\<in>set (rows_of (r_id r) d). o_status x = SENT" if "account_of_request r = k"
      using settled that ok matched_command(1)[of r] by (auto simp: rows_of_def request_ok_def)
    ultimately show "sum_list (map ?f (filter (\<lambda>x. aggregateId x = r_id r) ?rows))
        = (if account_of_request r = k \<and> status r = RequestStatus.APPROVED then days r else 0)"
      using settled_request[OF ok] by simp
  qed
  finally show ?thesis by (simp add: sum_filter_eq)
qed

end
