(* ===== verification/End_To_End.thy ===== *)
theory End_To_End
  imports Wire_Ledger Actor_Properties
begin

text \<open>
  The end-to-end properties of the service and the mock HCM server over a lossy network
  (\<open>Wire_Ledger\<close>), and a run of them: a balance is read, a request submitted and approved while HCM is
  unreachable, and its FILE row dispatched, where the first answer is lost.
\<close>

section \<open>A run over the wire\<close>

definition wire_client :: "wire http_env" where
  "wire_client = wire_http (\<lambda>s. s \<noteq> []) ''http://localhost:3001'' 2 1000"

definition wire_base :: "wire http_state env" where
  "wire_base = \<lparr>uuid = numbered, reservationTtlDays = 14, hcmRetryMaxAttempts = 5, balanceLazyLoadEnabled = True,
      sqlDatetime = (\<lambda>_. []), hcm_getBalance = (\<lambda>_ _ s. (Inl TypeError, s)),
      hcm_fileTimeOff = (\<lambda>_ s. (Inl TypeError, s)), hcm_reverseTimeOff = (\<lambda>_ s. (Inl TypeError, s))\<rparr>"

definition wire_service :: "wire http_state env" where
  "wire_service = wired wire_client wire_base"

definition wire_started :: "wire http_state world" where
  "wire_started = \<lparr>db = empty_db, held = [], clock = 0, dbClock = 0, uuidNext = 0, faults = [],
     hcm = \<lparr>net = \<lparr>server = demo_store, fates = [Arrives, Request_lost, Answer_lost, Arrives]\<rparr>,
            wall = 0, slept = [], gets = [], posts = []\<rparr>\<rparr>"

definition wire_warm :: "wire http_state world" where
  "wire_warm = snd (getBalance wire_service ''emp1'' ''loc1'' wire_started)"

definition wire_submitted :: "wire http_state world" where
  "wire_submitted = snd (runExclusive demo_key
     (submit_locked wire_service ''emp1'' ''loc1'' ''2026-06-01'' ''2026-06-02'' ''key-1'') wire_warm)"

definition wire_approved :: "wire http_state world" where
  "wire_approved = snd (runExclusive demo_key (approve_locked wire_service (r_id demo_new)) wire_submitted)"

definition wire_dispatched :: "wire http_state world" where
  "wire_dispatched = snd (dispatchOne wire_service (numbered 2) wire_approved)"

lemma wire_uuid [simp]: "uuid wire_service = numbered"
  by (simp add: wire_service_def wired_def wire_base_def)

lemma wire_base_inj: "inj (uuid wire_base)"
  using inj_numbered by (simp add: wire_base_def)

lemma wire_starts: "starts wire_started" "fresh_server wire_started" "days_at_hcm wire_started ''emp1::loc1'' = Some 10"
  using demo_store_simps
  by (simp_all add: starts_def wire_started_def sole_writer_def fresh_server_def honest_def days_at_hcm_def hcm_days_def
      demo_command_def storeKey_def)

lemma demo_serve: "serve_read base \<lparr>q_url = base @ ''/hcm/balance'', q_employeeId = ''emp1'', q_locationId = ''loc1'', q_timeout = t\<rparr> demo_store
    = (Inr \<lparr>h_employeeId = ''emp1'', h_locationId = ''loc1'', h_balance = 10, h_asOf = toISOString 0\<rparr>, demo_store)"
  by (simp add: serve_read_def mock_getBalance_def demo_store_def resetMockHcmStore_def seedBalances_def seed_entries_def
      seed_one_def storeKey_def entry_view_def nowISO_def put_entry_def map_set_def upsert_by_def)

lemma wire_read:
  assumes "server (net h) = demo_store"
  shows "\<exists>g. hcm_getBalance wire_service ''emp1'' ''loc1'' h =
     (if fate_of (net h) 0 = Arrives
      then Inr \<lparr>h_employeeId = ''emp1'', h_locationId = ''loc1'', h_balance = 10, h_asOf = toISOString 0\<rparr>
      else Inl (HcmUnavailableError ''getBalance:emp1:loc1''),
      h\<lparr>net := (net h)\<lparr>fates := tl (fates (net h))\<rparr>, gets := g\<rparr>)"
  using assms
  by (cases "fate_of (net h) 0"; cases h; cases "net h")
    (auto simp: wire_service_def wired_def wire_client_def client_getBalance_def do_get_def wire_http_def wire_get_def Let_def
      demo_serve[of "''http://localhost:3001''", simplified])

lemma wire_warm_world:
  "db wire_warm = set_balance (demo_balance 10 0) empty_db" "held wire_warm = []" "faults wire_warm = []"
  "clock wire_warm = 0" "uuidNext wire_warm = 0"
  "net (hcm wire_warm) = \<lparr>server = demo_store, fates = [Request_lost, Answer_lost, Arrives]\<rparr>"
proof -
  obtain g where g: "hcm_getBalance wire_service ''emp1'' ''loc1'' (hcm wire_started)
    = (Inr \<lparr>h_employeeId = ''emp1'', h_locationId = ''loc1'', h_balance = 10, h_asOf = toISOString 0\<rparr>,
       (hcm wire_started)\<lparr>net := \<lparr>server = demo_store, fates = [Request_lost, Answer_lost, Arrives]\<rparr>, gets := g\<rparr>)"
    using wire_read[of "hcm wire_started"] by (auto simp: wire_started_def fate_of_def)
  have "balanceLazyLoadEnabled wire_service" by (simp add: wire_service_def wired_def wire_base_def)
  then have w: "wire_warm = wire_started\<lparr>db := set_balance (demo_balance 10 0) empty_db,
      hcm := (hcm wire_started)\<lparr>net := \<lparr>server = demo_store, fates = [Request_lost, Answer_lost, Arrives]\<rparr>, gets := g\<rparr>\<rparr>"
    using g
    by (simp add: wire_warm_def wire_started_def getBalance_def hydrate_def findBalance_def
      andThen_query is_warm_def empty_db_def runExclusive_def try_catch_def andThen_def
      call_hcm_def return_apply query_apply applyHcmSnapshot_ok change_balance_def bal_def
      mut_snapshot_def fresh_balance_def demo_parse demo_balance_def set_balance_def pk_of_def)
  show "db wire_warm = set_balance (demo_balance 10 0) empty_db" "held wire_warm = []" "faults wire_warm = []"
    "clock wire_warm = 0" "uuidNext wire_warm = 0"
    "net (hcm wire_warm) = \<lparr>server = demo_store, fates = [Request_lost, Answer_lost, Arrives]\<rparr>"
    unfolding w by (simp_all add: wire_started_def)
qed

lemma wire_steps_warm: "ledger_steps wire_service wire_outside wire_started wire_warm"
  unfolding wire_warm_def by (intro ledger_steps.more[OF ledger_steps.none] ledger_step.act unit_step.read)

lemma wire_steps_submitted: "ledger_steps wire_service wire_outside wire_started wire_submitted"
  unfolding wire_submitted_def by (intro ledger_steps.more[OF wire_steps_warm] ledger_step.act unit_step.submit)

lemma wire_steps_approved: "ledger_steps wire_service wire_outside wire_started wire_approved"
  unfolding wire_approved_def by (intro ledger_steps.more[OF wire_steps_submitted] ledger_step.act unit_step.approve)

lemma wire_steps_dispatched: "ledger_steps wire_service wire_outside wire_started wire_dispatched"
  unfolding wire_dispatched_def by (intro ledger_steps.more[OF wire_steps_approved] ledger_step.act unit_step.dispatch)

lemma wire_inv: "ledger_steps wire_service wire_outside wire_started w \<Longrightarrow> db_inv wire_service (uuidNext w) (db w)"
  using reachable_inv[of wire_service w] ledger_steps_system[of wire_service wire_outside wire_started w] wire_starts(1)
    inj_numbered
  unfolding reachable_def world_inv_def wire_uuid by blast

lemma wire_submitted_world:
  "db wire_submitted = change_balance (mut_reserve 2) (''emp1'', ''loc1'') (set_request demo_new (db wire_warm))"
  "held wire_submitted = []" "faults wire_submitted = []" "clock wire_submitted = 0" "uuidNext wire_submitted = 2"
  "net (hcm wire_submitted) = \<lparr>server = demo_store, fates = [Request_lost, Answer_lost, Arrives]\<rparr>"
proof -
  let ?w = "wire_warm\<lparr>held := [demo_key]\<rparr>"
  have new: "submitted wire_service ''emp1'' ''loc1'' ''2026-06-01'' ''2026-06-02'' ''key-1'' 2 ?w = demo_new"
    by (simp add: submitted_def new_request_def demo_new_def demo_request_def ttlMs_def wire_warm_world)
      (simp add: wire_service_def wired_def wire_base_def)
  have "submit_locked wire_service ''emp1'' ''loc1'' ''2026-06-01'' ''2026-06-02'' ''key-1'' ?w =
     (Ok demo_new, ?w\<lparr>uuidNext := Suc (Suc (uuidNext ?w)),
        db := change_balance (mut_reserve 2) (''emp1'', ''loc1'') (set_request demo_new (db ?w))\<rparr>)"
    unfolding new[symmetric]
    by (rule submit_locked_ok[where b = "demo_balance 10 0", OF _ _ _ _ _ demo_count])
      (use demo_not_past wire_inv[OF wire_steps_warm] inj_numbered in
        \<open>simp_all add: no_such_key_def demo_balance_def wire_warm_world set_balance_def pk_of_def empty_db_def\<close>)
  then have w: "wire_submitted = wire_warm\<lparr>uuidNext := 2,
      db := change_balance (mut_reserve 2) (''emp1'', ''loc1'') (set_request demo_new (db wire_warm))\<rparr>"
    by (simp add: wire_submitted_def runExclusive_def wire_warm_world numeral_2_eq_2)
  show "db wire_submitted = change_balance (mut_reserve 2) (''emp1'', ''loc1'') (set_request demo_new (db wire_warm))"
    "held wire_submitted = []" "faults wire_submitted = []" "clock wire_submitted = 0" "uuidNext wire_submitted = 2"
    "net (hcm wire_submitted) = \<lparr>server = demo_store, fates = [Request_lost, Answer_lost, Arrives]\<rparr>"
    unfolding w by (simp_all add: wire_warm_world)
qed

lemma demo_new_fields:
  "r_employeeId demo_new = ''emp1''" "r_locationId demo_new = ''loc1''" "days demo_new = 2" "r_id demo_new = numbered 1"
  "status demo_new = RequestStatus.PENDING" "startDate demo_new = ''2026-06-01''" "key_of demo_new = (''emp1'', ''loc1'')"
  by (simp_all add: demo_new_def demo_request_def key_of_def)

definition wire_row :: outbox_row where
  "wire_row = queued wire_service FILE (committed_request 0 demo_new) wire_submitted"

lemma wire_approved_world:
  "requests (db wire_approved) = [committed_request 0 demo_new]" "outbox (db wire_approved) = [wire_row]"
  "held wire_approved = []" "faults wire_approved = []" "clock wire_approved = 0"
  "net (hcm wire_approved) = \<lparr>server = demo_store, fates = [Answer_lost, Arrives]\<rparr>"
proof -
  let ?w = "wire_submitted\<lparr>held := [demo_key]\<rparr>"
  have reqs: "requests (db wire_submitted) = [demo_new]" "outbox (db wire_submitted) = []"
    by (simp_all add: wire_submitted_world wire_warm_world empty_db_def set_request_def upsert_by_def)
  obtain g where g: "hcm_getBalance wire_service ''emp1'' ''loc1'' (hcm ?w)
    = (Inl (HcmUnavailableError ''getBalance:emp1:loc1''),
       (hcm wire_submitted)\<lparr>net := \<lparr>server = demo_store, fates = [Answer_lost, Arrives]\<rparr>, gets := g\<rparr>)"
    using wire_read[of "hcm wire_submitted"] by (auto simp: wire_submitted_world fate_of_def)
  have "approve_locked wire_service (r_id demo_new) ?w =
     (Ok (committed_request (clock ?w) demo_new),
      ?w\<lparr>hcm := (hcm wire_submitted)\<lparr>net := \<lparr>server = demo_store, fates = [Answer_lost, Arrives]\<rparr>, gets := g\<rparr>,
        uuidNext := Suc (uuidNext ?w),
        db := set_request (committed_request (clock ?w) demo_new)
                (set_outbox (queued wire_service FILE (committed_request (clock ?w) demo_new) ?w)
                (change_balance (mut_commit (days demo_new)) (key_of demo_new) (db ?w)))\<rparr>)"
    by (rule approve_locked_hcm_down[OF _ _ _ _ _ g[folded demo_new_fields]])
      (use wire_inv[OF wire_steps_submitted] demo_not_past in \<open>simp_all add: reqs demo_new_fields wire_submitted_world(2-)\<close>)
  then have w: "wire_approved = wire_submitted
      \<lparr>hcm := (hcm wire_submitted)\<lparr>net := \<lparr>server = demo_store, fates = [Answer_lost, Arrives]\<rparr>, gets := g\<rparr>,
        uuidNext := 3,
        db := set_request (committed_request 0 demo_new) (set_outbox wire_row
                (change_balance (mut_commit 2) (''emp1'', ''loc1'') (db wire_submitted)))\<rparr>"
    by (simp add: wire_approved_def runExclusive_def wire_submitted_world demo_new_fields wire_row_def queued_def)
  show "requests (db wire_approved) = [committed_request 0 demo_new]" "outbox (db wire_approved) = [wire_row]"
    "held wire_approved = []" "faults wire_approved = []" "clock wire_approved = 0"
    "net (hcm wire_approved) = \<lparr>server = demo_store, fates = [Answer_lost, Arrives]\<rparr>"
    unfolding w by (simp_all add: wire_submitted_world(2-) reqs upsert_by_def committed_request_def)
qed

lemma wire_dispatched_world:
  "\<exists>t. requests (db wire_dispatched) = [demo_new\<lparr>committedAt := Some 0, hcmAckAt := t, status := RequestStatus.APPROVED\<rparr>]"
  "outbox (db wire_dispatched) = [(attempted wire_row)\<lparr>o_status := SENT\<rparr>]"
proof -
  let ?C = wire_client and ?r = "committed_request 0 demo_new"
  have row: "o_status wire_row = OutboxStatus.PENDING" "operation wire_row = FILE" "aggregateId wire_row = r_id ?r"
    "o_id wire_row = numbered 2" "payload wire_row = demo_command\<lparr>c_idempotencyKey := numbered 0 @ '':FILE''\<rparr>"
    by (simp_all add: wire_row_def queued_def buildOutboxRow_def committed_request_def wire_submitted_world
        demo_new_def demo_request_def buildFileCommand_def demo_command_def)
  let ?c = "payload wire_row"
  have filed: "filed 10 ?c False (server (net (hcm wire_approved)))"
    using demo_store_simps
    by (simp add: filed_def wire_approved_world mock_stored_def row hcm_days_def demo_command_def)
  let ?p = "post_loop ?C \<lparr>p_url = hcmBaseUrl ?C @ ''/hcm/timeoff'', p_body = ?c, p_idempotencyKey = c_idempotencyKey ?c\<rparr>
      (int 0) ''unreachable'' (hcm wire_approved)"
  define v h where "v = fst ?p" and "h = snd ?p"
  have "ok v = (\<exists>i<2. fate_of (net (hcm wire_approved)) i = Arrives)"
    unfolding v_def using lossy_loop[OF refl _ _ _ filed, of ?C "\<lambda>s. s \<noteq> []" 0 2 "''unreachable''"]
    by (simp add: wire_client_def wire_http_def row demo_command_def command_dto_valid_def)
  moreover have "fate_of (net (hcm wire_approved)) 1 = Arrives" by (simp add: wire_approved_world fate_of_def)
  ultimately have "ok v" by fastforce
  moreover have "hcm_write wire_service wire_row (hcm wire_approved) = (Inr v, h)"
    unfolding wire_service_def wired_write v_def h_def by (simp add: row path_of_def map_prod_def split_beta)
  ultimately have v: "hcm_write wire_service wire_row (hcm wire_approved) = (Inr v, h)" "ok v" by blast+
  have "dispatchOne wire_service (o_id wire_row) wire_approved =
     (Ok (), wire_approved\<lparr>hcm := h,
       uuidNext := uuidNext wire_approved + (if gives_up wire_service wire_row (verdict (clock wire_approved) (Inr v)) then 1 else 0),
       db := dispatched wire_service wire_row ?r (verdict (clock wire_approved) (Inr v)) wire_approved\<rparr>)"
    by (rule dispatchOne_verdict[OF _ wire_inv[OF wire_steps_approved] _ _ _ _ _ v(1)])
      (simp_all add: wire_approved_world row)
  then have "db wire_dispatched = dispatched wire_service wire_row ?r (Some (ack_time 0 (ackedAt v))) wire_approved"
    using v(2) by (simp add: wire_dispatched_def row verdict_def wire_approved_world)
  then have d: "db wire_dispatched = set_request (?r\<lparr>hcmAckAt := Some (ack_time 0 (ackedAt v)), status := RequestStatus.APPROVED\<rparr>)
      (set_outbox ((attempted wire_row)\<lparr>o_status := SENT\<rparr>) (db wire_approved))"
    by (simp add: dispatched_def row)
  show "\<exists>t. requests (db wire_dispatched) = [demo_new\<lparr>committedAt := Some 0, hcmAckAt := t, status := RequestStatus.APPROVED\<rparr>]"
    "outbox (db wire_dispatched) = [(attempted wire_row)\<lparr>o_status := SENT\<rparr>]"
    unfolding d by (auto simp: wire_approved_world upsert_by_def committed_request_def set_request_def set_outbox_def)
qed

section \<open>Properties\<close>

text \<open>C3: Over the mock HCM in the scenarios in which it honours idempotency keys and deducts what it acknowledges,
  whatever is lost on the network and wherever the service crashes, HCM does what the outbox says: the commands the server has applied come from the outbox, each key at most once, every row recorded as SENT is
  among them, and each of HCM's balances is the seeded one less the applied FILEs plus the applied REVERSEs.\<close>

theorem hcm_applies_what_the_outbox_sends:
  assumes "inj (uuid E)" "C = wire_http isDateString base n ms" "starts w0" "fresh_server w0"
    and "ledger_steps (wired C E) wire_outside w0 w"
  shows "\<exists>L. distinct (map (\<lambda>p. c_idempotencyKey (snd p)) L) \<and> set L \<subseteq> commands (db w)
     \<and> (\<forall>x\<in>set (outbox (db w)). o_status x = SENT \<longrightarrow> (operation x, payload x) \<in> set L)
     \<and> (\<forall>k d. days_at_hcm w0 k = Some d \<longrightarrow> days_at_hcm w k = Some (d - taken L k))"
  using books_match_outbox[OF assms] by blast

lemma hcm_applies_what_the_outbox_sends_witness:
  "\<exists>L. (FILE, payload wire_row) \<in> set L \<and> days_at_hcm wire_dispatched ''emp1::loc1'' = Some (10 - taken L ''emp1::loc1'')"
proof -
  have sent: "(attempted wire_row)\<lparr>o_status := SENT\<rparr> \<in> set (outbox (db wire_dispatched))"
    by (simp add: wire_dispatched_world(2))
  have "operation wire_row = FILE" by (simp add: wire_row_def queued_def buildOutboxRow_def)
  moreover obtain L where L: "\<forall>x\<in>set (outbox (db wire_dispatched)). o_status x = SENT \<longrightarrow> (operation x, payload x) \<in> set L"
    "days_at_hcm wire_dispatched ''emp1::loc1'' = Some (10 - taken L ''emp1::loc1'')"
    using hcm_applies_what_the_outbox_sends[OF wire_base_inj wire_client_def wire_starts(1,2)
        wire_steps_dispatched[unfolded wire_service_def]] wire_starts(3) by blast
  moreover have "(operation wire_row, payload wire_row) \<in> set L"
    using bspec[OF L(1) sent] by simp
  ultimately show ?thesis using L(2) by auto
qed

text \<open>C2: Over the same mock HCM, once nothing is left to send for an account (all its outbox rows are SENT), HCM's
  days are the seeded days less the days of the approved requests, whatever was lost, retried, cancelled or crashed before.\<close>

theorem settled_service_agrees_with_hcm:
  assumes "inj (uuid E)" "C = wire_http isDateString base n ms" "starts w0" "fresh_server w0"
    and "ledger_steps (wired C E) wire_outside w0 w"
    and "\<forall>x\<in>set (outbox (db w)). account_key (payload x) = k \<longrightarrow> o_status x = SENT" "days_at_hcm w0 k = Some d"
  shows "days_at_hcm w k = Some (d - sum_list (map days
     (filter (\<lambda>r. account_of_request r = k \<and> status r = RequestStatus.APPROVED) (requests (db w)))))"
proof -
  have inj: "inj (uuid (wired C E))" using assms(1) by (simp add: wired_def)
  obtain L where L: "distinct (map (\<lambda>p. c_idempotencyKey (snd p)) L)" "set L \<subseteq> commands (db w)"
    "\<forall>x\<in>set (outbox (db w)). o_status x = SENT \<longrightarrow> (operation x, payload x) \<in> set L"
    "days_at_hcm w k = Some (d - taken L k)" and r: "reachable (wired C E) w"
    using books_match_outbox[OF assms(1-5)] assms(7) by blast
  have "taken L k = sum_list (map days
     (filter (\<lambda>r. account_of_request r = k \<and> status r = RequestStatus.APPROVED) (requests (db w))))"
    by (rule settled_books[OF reachable_db_inv[OF r inj] command_key_row[OF r inj] L(1-3) assms(6)])
  then show ?thesis unfolding L(4) by (rule arg_cong)
qed

text \<open>The first answer to the FILE was lost; the second attempt is answered from the key, and the days are gone once.\<close>

lemma settled_service_agrees_with_hcm_witness: "days_at_hcm wire_dispatched ''emp1::loc1'' = Some 8"
proof -
  have "\<forall>x\<in>set (outbox (db wire_dispatched)). account_key (payload x) = ''emp1::loc1'' \<longrightarrow> o_status x = SENT"
    by (simp add: wire_dispatched_world(2))
  from settled_service_agrees_with_hcm[OF wire_base_inj wire_client_def wire_starts(1,2)
      wire_steps_dispatched[unfolded wire_service_def] this wire_starts(3)]
  show ?thesis
    using wire_dispatched_world(1) by (auto simp: account_of_request_def storeKey_def demo_new_fields)
qed

end
