(* ===== verification/Spec2Isabelle.thy ===== *)
theory Spec2Isabelle
  imports System Demo_Worlds Request_Properties Actor_Properties Boundary_Properties Concurrency_Properties
    Account_Actions Unreachable_Hcm First_Read_Race Event_Loop Start_Up Wiring Fixtures Wire End_To_End Mock_Hcm Fake_Hcm Controllers Balance_Lock Hcm_Client Actor_Results
begin

text \<open>
  \<^bold>\<open>The program.\<close> A time-off microservice (NestJS, TypeORM on SQLite) that keeps a local balance per
  employee and location and mirrors it to an external HCM system. A request is submitted (its days
  are reserved), approved (the days leave the balance and a FILE command is queued in an outbox in
  the same transaction), and becomes APPROVED when HCM acknowledges the command. Rejection,
  cancellation and expiry give days back and, where HCM already knows the request, queue a REVERSE
  command. Five actors share the data: the request handlers, the balance reads that hydrate a cold
  row from HCM, the outbox dispatcher, the reservation reaper and the ingestion of HCM's batches.
  They serialise on a lock per balance.

  \<^bold>\<open>Where each part is modelled\<close> (paths under \<open>src/src/\<close>; definitions keep the names of the code, and
  a suffix such as \<open>_locked\<close> names the body that runs inside the lock).
  \<^item> \<open>Entities\<close>: \<open>entities/\<close> and \<open>hcm/contracts/hcm.types.ts\<close>. One record per table row, one
    datatype per enum; \<open>database\<close> holds the five tables, balances as a map on the primary key.
  \<^item> \<open>Js_Date\<close>, \<open>Business_Days\<close>: the ECMAScript dates the program uses (UTC fields, ISO strings,
    parsing) and on them \<open>countBusinessDays\<close> and the validators of \<open>dto/submit-request.dto.ts\<close>.
  \<^item> \<open>Svc_Monad\<close>: effects. A service operation maps a \<open>world\<close> (database, held lock keys, clocks,
    identifiers, script of failing saves, state of HCM) to an outcome (a value, an exception, or a
    promise that never settles) and a world. \<open>transaction\<close> undoes the writes of a block that does
    not complete; \<open>runExclusive\<close> is the lock seen by one call chain.
  \<^item> \<open>Balance_Service\<close>: \<open>balance/balance.service.ts\<close>, every method, the optimistic retry included.
  \<^item> \<open>Time_Off_Request\<close>: \<open>time-off-request/time-off-request.service.ts\<close>, every method.
  \<^item> \<open>Outbox_Dispatcher\<close>, \<open>Reservation_Reaper\<close>, \<open>Reconciliation\<close>: the services of these names.
  \<^item> \<open>Controllers\<close>: the HTTP routes with their guards, and the validators of their bodies.
  \<^item> \<open>Svc_Runs\<close>, \<open>Handler_Runs\<close>: the critical sections cut at their awaits. A \<open>run\<close> is an outcome or a
    block followed by a run; \<open>submit_run\<close>, \<open>approve_run\<close> and the others have the blocks of the source.
  \<^item> \<open>Configuration\<close>, \<open>Start_Up\<close>: \<open>config/app-config.service.ts\<close> over the environment variables, the
    environments of the services built from it, the database options, ports and the health answer.
  \<^item> \<open>Wiring\<close>: the module declarations (\<open>*.module.ts\<close>), the constructor parameters of every injected class
    (\<open>BalanceService_new\<close> and its like), the cron schedules, the two entry points (\<open>main.ts\<close>,
    \<open>mock-hcm/main.ts\<close>) and the test module with its overrides (\<open>testing/test-module.ts\<close>).
  \<^item> \<open>Balance_Lock\<close>: \<open>common/lock/balance-lock.service.ts\<close>, the promise chains and the test latch as
    a step relation on tickets.
  \<^item> \<open>Hcm_Client\<close>: \<open>hcm/hcm-client.service.ts\<close> with its retries and backoff; the HTTP library is a
    parameter, and every exchange and pause is recorded in the state. \<open>Wire\<close> and \<open>Wire_Ledger\<close> instantiate
    it with a lossy network and the mock server behind it.
  \<^item> \<open>Mock_Hcm\<close>, \<open>Fake_Hcm\<close>: the mock HCM server (\<open>mock-hcm/\<close>) and the in-process client of the tests
    (\<open>testing/fake-hcm-client.ts\<close>); \<open>Fixtures\<close>: the other test doubles and seed factories (\<open>testing/\<close>,
    \<open>common/clock/fake-clock.ts\<close>).

  \<^bold>\<open>How the parts meet.\<close> The services see HCM as three functions of the environment \<open>env\<close>.
  \<open>Hcm_Contract\<close> states what they rely on as a locale (\<open>hcm_contract\<close>: a read fails with nothing but
  \<open>HcmUnavailableError\<close>, a write answers) and the idempotency-key contract of the write endpoints as
  another (\<open>idempotent_write\<close>); the HTTP client and the fake client interpret the first, the mock
  endpoints and the fake client the second; \<open>Wire\<close> puts the HTTP client in front of the mock endpoints
  over a network that loses requests and answers. \<open>System\<close> composes all actors: \<open>unit_step\<close> is one
  uninterrupted unit of one actor (a critical section, one phase of a batch), and \<open>system_step\<close> adds time
  passing, HCM changing on its own, saves starting or stopping to fail, a restart, or a crash between
  two transactions of one unit. \<open>reachable\<close> are the worlds reached from an empty database. \<open>ledger_step\<close>
  (\<open>Hcm_Ledger\<close>) has the same units, but HCM changes only by rules of its own and the dispatcher may also
  crash right before or after its call; the locale \<open>hcm_books\<close> is what HCM must promise for its books to
  follow the outbox, and the client on the network (\<open>Wire_Ledger\<close>) interprets it. The instances of the
  services and who shares them come from the container, the locale \<open>container\<close> of \<open>Wiring\<close>, interpreted
  on the module declarations. \<open>Interleaving\<close> refines the grain to the event loop: a configuration is a world and the pool
  of operations under way, and a step (\<open>loop_step\<close>) runs one block of one of them, lets one enter when
  its lock is free, lets one leave, or is one of the outside events above.

  \<^bold>\<open>What the lemmas show.\<close>
  \<^item> \<open>Leave_Account\<close>: the abstract specification, an account of available and reserved days with the
    status machine, and the abstraction \<open>account_of\<close> from the database; every operation refines it.
  \<^item> \<open>System_Inv\<close>, \<open>Lifecycle\<close>, \<open>Transitions\<close>: the database invariant \<open>db_inv\<close> (reserved days match the
    PENDING requests, outbox rows match the request's status, no overlapping active requests, keys
    unique), how rows may evolve, and one lemma per edge of the status machine.
  \<^item> \<open>Svc_Spec\<close>: weakest-precondition rules of the monad; \<open>Service_Inv\<close>, \<open>Actors_Inv\<close>: every operation
    keeps the contract \<open>safe\<close> (invariant, evolution, refinement of the account, and for the settling
    operations conservation of days) on every branch, failing saves included.
  \<^item> \<open>Frames\<close>, \<open>Unit_Runs\<close>, \<open>Create_Send_Runs\<close>: a rely-guarantee reading of the runs (locale
    \<open>interference\<close>, interpreted for every balance key): while others move only other balances, each
    block keeps the contract and moves only its own; \<open>Interleaving\<close> concludes that every interleaving of
    blocks keeps the invariant, and \<open>Concurrency_Properties\<close> states it, with two races the lock does not
    exclude. \<open>Event_Loop\<close> shows that the operations themselves are runs of that loop.
  \<^item> \<open>Hcm_Ledger\<close>, \<open>Wire_Ledger\<close>, \<open>End_To_End\<close>: along every run of the service against the mock server over
    the lossy network, what HCM has applied is what the outbox has sent, each command once; and when
    nothing is left to send, HCM's days and the approved requests agree.
  \<^item> \<open>Wiring\<close>: every constructor parameter of both applications and of the test module is injected, from the
    same provider wherever it is used, and no provider waits for itself.
  \<^item> \<open>Balance_Rules\<close>, \<open>Service_Results\<close>, \<open>Actor_Results\<close>: what the operations return and write when the
    database does not fail, as equations; \<open>Request_Properties\<close>, \<open>Actor_Properties\<close> and
    \<open>Boundary_Properties\<close> put them together into the functional properties of the operations.
  \<^item> \<open>Balance_Lock\<close>: the promise chain refines a FIFO queue per key, is exclusive, and the head of
    a queue can always go on.
  \<^item> \<open>Demo_Worlds\<close>: concrete worlds on the fake client on which the theorems are run.
  \<^item> This theory: what holds in every reachable state and along every run.

  \<^bold>\<open>Bounds and loops.\<close> The optimistic retry recurses on the attempts left of
  \<open>MAX_OPTIMISTIC_RETRIES\<close>; the HTTP loops on the attempts left of the configured maximum; the
  business-day loop on the days left to the end of the range. All three are total functions with a
  termination proof, so no fuel is chosen anywhere. What may never settle in the program is the wait
  for a lock: it is the outcome \<open>Hang\<close>, and where the code runs into it that is a theorem.

  \<^bold>\<open>Assumptions.\<close> Generated identifiers are injective (\<open>inj (uuid E)\<close>). The system-level theorems
  assume a single writing process, the deployment the lock is made for: the steps never script
  version mismatches, although \<open>saveWithRetry\<close> is modelled and proved with them. Units on one balance
  exclude each other by the lock; those on different balances interleave at every await
  (\<open>Interleaving\<close>, where lazy loading is assumed on: with it off, the first read writes outside the lock,
  and a theorem shows what is lost). A block between two awaits, and a transaction, is atomic. Numbers are
  unbounded integers: days and balances stay far below 2^53. Strings are lists of characters, whose
  length agrees with JavaScript's for the validated inputs.

  \<^bold>\<open>Not modelled\<close>, and why: the framework's container and router, the database driver and the HTTP
  library (third-party; what the code asks of them is in \<open>Wiring\<close>, \<open>Start_Up\<close> and the parameters of
  \<open>Hcm_Client\<close>); JSON and the UUID pipe; numbers in the environment that are no decimal integers
  (fractions, exponents, infinities: \<open>Other_form\<close>); logging (no effect); the cron schedules as times
  (\<open>Wiring\<close> records them; here the dispatcher and the reaper may step at any time); SQL beyond the queries'
  conditions, order and uniqueness constraints; the interleaving of statements of two units inside
  SQLite's transactions (each transaction is atomic here); columns nothing reads (creation and update
  stamps except the outbox order, reason texts). ISO-8601 validation of the batch bodies, date-string
  and UUID validation are parameters. The runs of \<open>Wire_Ledger\<close> leave out the scenarios in which the
  mock server is told to ignore keys, to acknowledge without deducting or to change balances on its own
  (outside \<open>honest\<close>), and seeding it while the service runs: there the books differ by design.
\<close>

section \<open>What holds in every reachable state\<close>

text \<open>C5: In every reachable state the reserved days of a balance are exactly the sum of the days of the PENDING requests of that employee and location.\<close>

theorem reservations_match_pending:
  assumes "reachable E w" "inj (uuid E)"
  shows "reserved_of (db w) k =
     sum_list (map days (filter (\<lambda>r. key_of r = k \<and> status r = RequestStatus.PENDING) (requests (db w))))"
  by (rule reserved_is_pending[OF reachable_db_inv[OF assms]])

lemma reservations_match_pending_witness:
  "reserved_of (db demo_submitted) (''emp1'', ''loc1'') = 2 \<and>
   sum_list (map days (filter (\<lambda>r. key_of r = (''emp1'', ''loc1'') \<and> status r = RequestStatus.PENDING)
     (requests (db demo_submitted)))) = 2"
  using reservations_match_pending[OF demo_reachable demo_inj, of "(''emp1'', ''loc1'')"] demo_submitted_db(4)
  by simp

text \<open>C6: In every reachable state two different active (not rejected, cancelled or expired) requests of the same employee and location have disjoint date ranges.\<close>

theorem active_requests_never_overlap:
  assumes "reachable E w" "inj (uuid E)" "r \<in> set (requests (db w))" "s \<in> set (requests (db w))" "r \<noteq> s"
    and "status r \<in> ACTIVE_STATUSES" "status s \<in> ACTIVE_STATUSES" "key_of r = key_of s"
  shows "str_less (endDate r) (startDate s) \<or> str_less (endDate s) (startDate r)"
proof -
  note inv = reachable_db_inv[OF assms(1,2)]
  have "r_id r \<noteq> r_id s"
    using key_unique[of r_id "requests (db w)"] db_invD(2)[OF inv] assms(3-5) by (auto simp: keys_distinct_def)
  with db_invD(7)[OF inv] assms show ?thesis
    unfolding no_overlap_def disjoint_ranges_def str_le_def by blast
qed

lemma active_requests_never_overlap_witness:
  "str_less (endDate demo_new) (startDate demo_second) \<or> str_less (endDate demo_second) (startDate demo_new)"
proof -
  have "demo_new \<noteq> demo_second" using injD[OF inj_numbered, of 3 1]
    by (auto simp: demo_second_def submitted_def demo_submitted_world demo_new_def demo_request_def
        new_request_def eval_nat_numeral)
  then show ?thesis
    by (intro active_requests_never_overlap[OF demo_reachable_two demo_inj, of demo_new demo_second])
      (simp_all add: demo_two_requests demo_new_def demo_request_def demo_second_def submitted_def new_request_def
        key_of_def)
qed

text \<open>C7: In every reachable state the outbox rows of a request are the ones its status calls for (none while PENDING, one unsent FILE while PENDING_SYNC, one sent FILE when APPROVED, and so on), each row carries the command built from the request, and the commit and acknowledgement stamps agree with the status.\<close>

theorem requests_agree_with_outbox:
  assumes "reachable E w" "inj (uuid E)" "r \<in> set (requests (db w))"
  shows "status_shape (status r) (shape (rows_of (r_id r) (db w)))
    \<and> (\<forall>x \<in> set (rows_of (r_id r) (db w)). row_matches r x) \<and> stamps_ok r
    \<and> 0 < days r \<and> str_le (startDate r) (endDate r)"
  using db_invD(6)[OF reachable_db_inv[OF assms(1,2)] assms(3)] by (simp add: request_ok_def)

lemma requests_agree_with_outbox_witness:
  "status_shape RequestStatus.PENDING_SYNC (shape (rows_of (r_id demo_new) (db demo_approved)))
   \<and> row_matches (committed_request 0 demo_new) demo_row"
  using requests_agree_with_outbox[OF demo_reachable_approved demo_inj, of "committed_request 0 demo_new"]
  by (simp add: demo_approved_db committed_request_def rows_of_def demo_row_def queued_def buildOutboxRow_def)

text \<open>C8: Every stored row is well typed: a request starts no later than it ends, its days are the
  positive number of business days that its own dates give, whatever has happened to it since, and the
  command of each of its outbox rows passes the HCM server's validation of the body if only the
  employee, the location and the two dates of the request do.\<close>

theorem stored_rows_are_well_typed:
  assumes "reachable E w" "inj (uuid E)" "r \<in> set (requests (db w))"
  shows "str_le (startDate r) (endDate r) \<and> 1 \<le> days r
    \<and> countBusinessDays (startDate r) (endDate r) {} = Inr (days r)
    \<and> (\<forall>x \<in> set (rows_of (r_id r) (db w)). command_dto_valid isDateString (payload x) \<longleftrightarrow>
         r_employeeId r \<noteq> [] \<and> r_locationId r \<noteq> [] \<and> isDateString (startDate r) \<and> isDateString (endDate r))"
proof -
  have ok: "request_ok r (rows_of (r_id r) (db w))"
    using db_invD(6) reachable_inv[OF assms(1,2)] assms(3) by (auto simp: world_inv_def)
  have "command_dto_valid isDateString (payload x) \<longleftrightarrow>
      r_employeeId r \<noteq> [] \<and> r_locationId r \<noteq> [] \<and> isDateString (startDate r) \<and> isDateString (endDate r)"
    if "row_matches r x" for x
    using that ok by (cases "operation x")
      (auto simp: row_matches_def command_dto_valid_def buildFileCommand_def buildReverseCommand_def request_ok_def)
  then show ?thesis using ok by (auto simp: request_ok_def)
qed

lemma stored_rows_are_well_typed_witness:
  "countBusinessDays ''2026-06-01'' ''2026-06-02'' {} = Inr (days demo_new)
   \<and> command_dto_valid (\<lambda>s. s \<noteq> []) (payload demo_row)"
  using stored_rows_are_well_typed[OF demo_reachable_approved demo_inj, of "committed_request 0 demo_new" "\<lambda>s. s \<noteq> []"]
  by (simp add: demo_approved_db committed_request_def rows_of_def demo_row_def queued_def buildOutboxRow_def
      demo_new_def demo_request_simps)

text \<open>From a reachable state on, whatever happens (operations, failing saves, HCM changing on its own, restarts), a request is never lost, never changes its owner, dates, days or HCM key, moves only along the edges of the status machine, and stays in a terminal status.\<close>

lemma requests_follow_state_machine:
  assumes "reachable E w" "steps E w w'" "inj (uuid E)" "r \<in> set (requests (db w))"
  shows "\<exists>r' \<in> set (requests (db w')). same_identity r r' \<and> expiresAt r' = expiresAt r
    \<and> reaches (status r) (status r') \<and> (status r \<in> TERMINAL_STATUSES \<longrightarrow> status r' = status r)"
  using reachable_steps_evolve[OF assms(1-3)] assms(4) reaches_terminal
  unfolding lifecycle_def all_evolve_def request_evolves_def by blast

text \<open>C1: The service refines the abstract leave account, operation by operation. From any reachable state the
  balances and requests of the database change exactly as the account does under one of the words of actions
  listed for the operation, and no other (an action is undefined where it is not allowed). A submission under
  its lock that returns a new request asks for the business days of its dates, which must be free, and one that
  returns a request already there does nothing; the creating transaction alone asks for free days even when
  nothing was checked before it. An approval that returns moves its request to REJECTED when the start is
  past, and otherwise first takes the number HCM would tell, if HCM answers, and moves the request to the
  PENDING_SYNC or REJECTED it returns; when it throws or hangs it has at most taken that number. A
  rejection or cancellation that returns a changed request moves that request only, an expiry likewise or not
  at all. A dispatch moves at most the request of its FILE row, to APPROVED if HCM accepts the command and to REJECTED
  if not. A read takes what HCM tells only for a cold balance; the reconciliation of an entry sets the
  available days to HCM's value corrected by the unacknowledged deductions and the reversals still to be sent; review, sequence
  guard and batch log change nothing. Whatever else throws or hangs leaves the account as it was.\<close>

theorem service_refines_leave_account:
  assumes "reachable E w" "inj (uuid E)"
  shows "performs (runExclusive (balanceKey e l) (submit_locked E e l startD endD key))
       (submit_words e l startD endD w) {[]} w
    \<and> (status req = RequestStatus.PENDING \<and> 0 < days req \<longrightarrow>
         performs (create_and_reserve E None req) (\<lambda>x. {[Ask (r_id x) (key_of req) (days req)]}) {[]} w)
    \<and> (\<forall>r \<in> set (requests (db w)).
         performs (runExclusive (balanceKey (r_employeeId r) (r_locationId r)) (approve_locked E (r_id r)))
           (approve_words E r w) (attempt_words E r w) w)
    \<and> performs (runExclusive k (reject_locked i)) (settle_words i RequestStatus.REJECTED w) {[]} w
    \<and> performs (runExclusive k (cancel_locked E i)) (settle_words i RequestStatus.CANCELLED w) {[]} w
    \<and> performs (expire_one r) (\<lambda>_. {[], [Move (r_id r) RequestStatus.EXPIRED]}) {[]} w
    \<and> performs (dispatchOne E i) (\<lambda>_. dispatch_words E i w) (dispatch_words E i w) w
    \<and> performs (getBalance E e l) (\<lambda>_. read_words E (e, l) w) (read_words E (e, l) w) w
    \<and> performs (reconcile_entry E asOf x) (\<lambda>_. reconcile_words E asOf x w) {[]} w
    \<and> performs (resolveReview e l) (\<lambda>_. {[]}) {[]} w
    \<and> performs (sequence_guard corpus) (\<lambda>_. {[]}) {[]} w
    \<and> performs (transaction (write_db (log_batch entry))) (\<lambda>_. {[]}) {[]} w"
proof -
  have s: "safe E False (db w) w" using reachable_inv[OF assms] by (simp add: safe_def)
  have locked: "safe E False (db w) (w\<lparr>held := h\<rparr>)" for h using s by simp
  have at: "balanceKey e l \<in> set (held (w\<lparr>held := balanceKey e l # held w\<rparr>))" for e l by simp
  have "performs (runExclusive (balanceKey e l) (submit_locked E e l startD endD key)) (submit_words e l startD endD w) {[]} w"
    using submit_performs[OF locked assms(2) at] by (intro performs_exclusive) simp_all
  moreover have "performs (runExclusive (balanceKey (r_employeeId r) (r_locationId r)) (approve_locked E (r_id r)))
      (approve_words E r w) (attempt_words E r w) w" if "r \<in> set (requests (db w))" for r
    using approve_performs[OF locked _ at, of r] that by (intro performs_exclusive) (simp_all add: attempt_words_def)
  moreover have "performs (runExclusive k (reject_locked i)) (settle_words i RequestStatus.REJECTED w) {[]} w"
    "performs (runExclusive k (cancel_locked E i)) (settle_words i RequestStatus.CANCELLED w) {[]} w"
    using reject_performs[OF locked] cancel_performs[OF locked] by (auto intro: performs_exclusive)
  ultimately show ?thesis
    using create_performs[OF s assms(2)] expire_performs[OF s] dispatch_performs[OF s] read_performs[OF s]
      reconcile_performs[OF s] quiet_performs[OF s] by simp
qed

lemma service_refines_leave_account_witness:
  "act (Ask (numbered 1) (''emp1'', ''loc1'') 2) (account_of (db demo_warm)) = Some (account_of (db demo_submitted))
   \<and> acts [Tell (''emp1'', ''loc1'') 10, Move (numbered 1) RequestStatus.PENDING_SYNC] (account_of (db demo_submitted))
       = Some (account_of (db demo_approved))"
proof
  let ?E = "fake_env True"
  have id: "r_id demo_new = numbered 1" by (simp add: demo_new_def demo_request_def)
  have free: "demo_key \<notin> set (held demo_warm)" "requests (db demo_warm) = []"
    by (simp_all add: demo_warm_db fake_world_def empty_db_def)
  have "performs (runExclusive demo_key demo_submit) (submit_words ''emp1'' ''loc1'' ''2026-06-01'' ''2026-06-02'' demo_warm) {[]} demo_warm"
    unfolding demo_key_def demo_submit_def by (intro service_refines_leave_account[THEN conjunct1] demo_reachable_warm demo_inj)
  moreover have "fst (runExclusive demo_key demo_submit demo_warm) = Ok demo_new"
    using free by (simp add: runExclusive_def demo_submit_result)
  ultimately show "act (Ask (numbered 1) (''emp1'', ''loc1'') 2) (account_of (db demo_warm)) = Some (account_of (db demo_submitted))"
    using free id unfolding demo_submitted_def
    by (cases "runExclusive demo_key demo_submit demo_warm")
      (auto simp: performs_def spec_def leads_def submit_words_def demo_count simp del: act.simps split: option.splits)
  have key: "balanceKey (r_employeeId demo_new) (r_locationId demo_new) = demo_key"
    by (simp add: demo_new_def demo_request_def demo_key_def)
  have "demo_new \<in> set (requests (db demo_submitted))" by (simp add: demo_submitted_db(2))
  then have "performs (runExclusive demo_key (approve_locked ?E (r_id demo_new)))
      (approve_words ?E demo_new demo_submitted) (attempt_words ?E demo_new demo_submitted) demo_submitted"
    using service_refines_leave_account[THEN conjunct2, THEN conjunct2, THEN conjunct1, OF demo_reachable demo_inj, rule_format,
        of demo_new, unfolded key] by simp
  moreover have "approve_words ?E demo_new demo_submitted (committed_request 0 demo_new)
      = {[Tell (''emp1'', ''loc1'') 10, Move (numbered 1) RequestStatus.PENDING_SYNC]}"
    using demo_not_past
    by (simp add: approve_words_def told_def demo_submitted_world demo_new_def demo_request_def key_of_def committed_request_def
        fake_env_def demo_get_again)
  ultimately show "acts [Tell (''emp1'', ''loc1'') 10, Move (numbered 1) RequestStatus.PENDING_SYNC] (account_of (db demo_submitted))
       = Some (account_of (db demo_approved))"
    using demo_approved_db(3) unfolding demo_approved_def
    by (cases "runExclusive demo_key (approve_locked ?E (r_id demo_new)) demo_submitted")
      (simp add: performs_def spec_def leads_def del: act.simps acts.simps)
qed

text \<open>C9: From a reachable state on, an outbox row is never lost, keeps its payload and idempotency key, never lowers its attempt count, and once it is SENT, FAILED or VOIDED it stays so.\<close>

theorem outbox_rows_settle_once:
  assumes "reachable E w" "steps E w w'" "inj (uuid E)" "x \<in> set (outbox (db w))"
  shows "\<exists>x' \<in> set (outbox (db w')). o_id x' = o_id x \<and> payload x' = payload x
    \<and> o_idempotencyKey x' = o_idempotencyKey x \<and> attempts x \<le> attempts x'
    \<and> (o_status x = OutboxStatus.PENDING \<or> o_status x' = o_status x)"
  using reachable_steps_evolve[OF assms(1-3)] assms(4)
  unfolding lifecycle_def all_evolve_def row_evolves_def by blast

lemma outbox_rows_settle_once_witness:
  "demo_row \<in> set (outbox (db demo_approved)) \<and>
   (\<exists>x' \<in> set (outbox (db demo_dispatched)). o_id x' = o_id demo_row \<and> payload x' = payload demo_row)"
proof -
  have d: "demo_row \<in> set (outbox (db demo_approved))" by (simp add: demo_approved_db)
  from outbox_rows_settle_once[OF demo_reachable_approved demo_dispatched_step demo_inj d] d show ?thesis by blast
qed

lemma conserved:
  assumes "spec m (\<lambda>_. safe E True d) (safe E True d) w"
  shows "ledger (db (snd (m w))) k = ledger d k"
proof -
  have "safe E True d (snd (m w))" by (rule snd_spec[OF assms])
  then have "\<forall>k. ledger (db (snd (m w))) k = ledger d k"
    unfolding safe_def evolves_def by blast
  then show ?thesis ..
qed

text \<open>C10: Rejecting, cancelling, expiring, the reaper's sweep and the dispatcher's tick conserve days: available days plus the days of committed (PENDING_SYNC or APPROVED) requests stay the same for every balance, also when saves fail on the way.\<close>

theorem settling_conserves_days:
  assumes "world_inv E w" "inj (uuid E)"
  shows "ledger (db (snd (reject_locked i w))) k = ledger (db w) k
    \<and> ledger (db (snd (cancel_locked E i w))) k = ledger (db w) k
    \<and> ledger (db (snd (expire i w))) k = ledger (db w) k
    \<and> ledger (db (snd (sweep w))) k = ledger (db w) k
    \<and> ledger (db (snd (dispatchPending E w))) k = ledger (db w) k"
proof -
  note s = world_inv_safe[OF assms(1), of True]
  show ?thesis
    using conserved[OF spec_reject_locked[OF s]] conserved[OF spec_cancel_locked[OF s assms(2)]]
      conserved[OF spec_expire[OF s]] conserved[OF preserves_specD[OF sweep_safe s]]
      conserved[OF preserves_specD[OF dispatchPending_safe[OF assms(2)] s]]
    by simp
qed

lemma settling_conserves_days_witness:
  "ledger (db (snd (cancel_locked (fake_env True) (numbered 1) (demo_world RequestStatus.APPROVED False 8)))) (''emp1'', ''loc1'') = 10"
proof -
  have inv: "world_inv (fake_env True) (demo_world RequestStatus.APPROVED False 8)"
    by (rule demo_world_inv) simp
  have "ledger (demo_db RequestStatus.APPROVED) (''emp1'', ''loc1'') = 10"
    by (simp add: ledger_def available_of_def committed_sum_def committed_days_def demo_db_def one_request_db_def
        demo_balance_def demo_request_def pk_of_def key_of_def)
  then show ?thesis
    using settling_conserves_days[OF inv demo_inj, of "numbered 1" "(''emp1'', ''loc1'')"] by simp
qed

text \<open>A rejection, cancellation or expiry that does not succeed, for whatever reason, leaves the database as it was.\<close>

lemma settling_is_atomic:
  "((\<exists>r. fst (reject_locked i w) = Ok r) \<or> db (snd (reject_locked i w)) = db w)
   \<and> ((\<exists>r. fst (cancel_locked E i w) = Ok r) \<or> db (snd (cancel_locked E i w)) = db w)
   \<and> ((\<exists>r. fst (expire i w) = Ok r) \<or> db (snd (expire i w)) = db w)"
  using settle_all_or_nothing unfolding all_or_nothing_def by blast

text \<open>The highest ingested batch sequence number never decreases.\<close>

lemma batch_sequence_never_goes_back:
  assumes "reachable E w" "steps E w w'" "inj (uuid E)" "lastSequence (db w) = Some n"
  shows "\<exists>m. lastSequence (db w') = Some m \<and> n \<le> m"
proof -
  have sub: "sequence ` set (batchSyncLog (db w)) \<subseteq> sequence ` set (batchSyncLog (db w'))"
    using reachable_steps_evolve[OF assms(1-3)] by (simp add: lifecycle_def)
  have "batchSyncLog (db w) \<noteq> []" and n: "n = Max (sequence ` set (batchSyncLog (db w)))"
    using assms(4) by (auto simp: lastSequence_def split: list.splits)
  then have "batchSyncLog (db w') \<noteq> []" "n \<le> Max (sequence ` set (batchSyncLog (db w')))"
    using sub by (auto intro!: Max_mono)
  then show ?thesis by (auto simp: lastSequence_def split: list.splits)
qed

text \<open>Every public operation, run as a whole and with any outcome, is a sequence of the system's steps: it leads from a reachable state to a reachable state.\<close>

lemma operations_stay_reachable:
  assumes "reachable E w"
  shows "reachable E (snd (submit E e l startD endD key w)) \<and> reachable E (snd (approve E i w))
    \<and> reachable E (snd (reject E i w)) \<and> reachable E (snd (cancel E i w)) \<and> reachable E (snd (sweep w))
    \<and> reachable E (snd (dispatchPending E w)) \<and> reachable E (snd (ingestBatch E corpus w))
    \<and> reachable E (snd (getBalance E e l w)) \<and> reachable E (snd (resolveReview e l w))"
  by (intro conjI reachable_steps[OF assms] run_units[unfolded runs_as_steps_def, rule_format]
      operations_run_as_steps[unfolded runs_as_steps_def, rule_format])

end
